(* ===== verification/Prelude.thy ===== *)
theory Prelude imports Main "HOL-Library.AList" "HOL-Library.Sublist" "HOL-Library.Word"
  "HOL-Library.List_Lexorder" "HOL-Library.Char_ord"
begin

text \<open>
  Shared vocabulary of the development: how a C++ statement with side effects is modelled, the
  combinators for sequencing, loops and \<open>try\<close>/\<open>catch\<close>, and the generic lemmas on association
  lists (the model of \<open>std::unordered_map\<close>) that the components share.

  A piece of code that may change a state of type \<open>'w\<close> is a \<^emph>\<open>step\<close>, a function
  \<open>'w \<Rightarrow> outcome \<times> 'w\<close>.  The outcome says how the code was left: normally, by an exception, by
  undefined behaviour of C++ (a use of a destroyed object, an invalidated iterator), or because
  the recursion bound of the model was reached.  The state is returned in every case, because the
  effects made before a \<open>throw\<close> stay visible to the handler that catches it.
\<close>

subsection \<open>Errors\<close>

datatype 'j json_error =
    TypeMismatch 'j
  | ValueOnNonObject 'j
  | AtOnNonObject 'j
  | IndexOnNonObject 'j
  | KeyMissing string 'j
  | ParseFailure string
  | InvalidUtf8 'j

text \<open>
  The exceptions that travel through the code: \<open>std::runtime_error\<close> with its message, the
  exceptions of the JSON library, a \<open>std::exception\<close> thrown by user code, and a user exception
  that does not derive from \<open>std::exception\<close>.
\<close>

datatype 'j exn =
    RuntimeError string
  | JsonError "'j json_error"
  | UserError string
  | ForeignError

definition is_std :: "'j exn \<Rightarrow> bool" where
  "is_std e \<longleftrightarrow> e \<noteq> ForeignError"

lemma is_std_simps [simp]:
  "is_std (RuntimeError m)" "is_std (JsonError e)" "is_std (UserError m)" "\<not> is_std ForeignError"
  by (simp_all add: is_std_def)

subsection \<open>Pure fallible results\<close>

type_synonym ('j, 'a) res = "'j exn + 'a"

definition rbind :: "('j, 'a) res \<Rightarrow> ('a \<Rightarrow> ('j, 'b) res) \<Rightarrow> ('j, 'b) res" where
  "rbind r f = (case r of Inl e \<Rightarrow> Inl e | Inr x \<Rightarrow> f x)"

lemma rbind_simps [simp]: "rbind (Inl e) f = Inl e" "rbind (Inr x) f = f x"
  by (simp_all add: rbind_def)

lemma rbind_eq_Inr: "rbind r f = Inr y \<longleftrightarrow> (\<exists>x. r = Inr x \<and> f x = Inr y)"
  by (cases r) auto

subsection \<open>Steps: outcomes, sequencing, loops, handlers\<close>

datatype 'j outcome = Normal | Raised "'j exn" | Undefined | NoFuel

type_synonym ('j, 'w) step = "'w \<Rightarrow> 'j outcome \<times> 'w"

definition skip :: "('j, 'w) step" where
  "skip w = (Normal, w)"

definition throw :: "'j exn \<Rightarrow> ('j, 'w) step" where
  "throw e w = (Raised e, w)"

definition undef :: "('j, 'w) step" where
  "undef w = (Undefined, w)"

definition nofuel :: "('j, 'w) step" where
  "nofuel w = (NoFuel, w)"

definition effect :: "('w \<Rightarrow> 'w) \<Rightarrow> ('j, 'w) step" where
  "effect f w = (Normal, f w)"

definition seq :: "('j, 'w) step \<Rightarrow> ('j, 'w) step \<Rightarrow> ('j, 'w) step" where
  "seq f g w = (case f w of (Normal, w') \<Rightarrow> g w' | (r, w') \<Rightarrow> (r, w'))"

primrec seqs :: "('a \<Rightarrow> ('j, 'w) step) \<Rightarrow> 'a list \<Rightarrow> ('j, 'w) step" where
  "seqs f [] = skip"
| "seqs f (x # xs) = seq (f x) (seqs f xs)"

text \<open>Read the state, then go on with a step chosen from what was read.\<close>

definition reading :: "('w \<Rightarrow> ('j, 'w) step) \<Rightarrow> ('j, 'w) step" where
  "reading f w = f w w"

text \<open>\<open>try { f } catch (const std::exception \&e) { h }\<close>: a foreign exception passes through.\<close>

definition catch_std :: "('j, 'w) step \<Rightarrow> ('j exn \<Rightarrow> ('j, 'w) step) \<Rightarrow> ('j, 'w) step" where
  "catch_std f h w =
     (case f w of (Raised e, w') \<Rightarrow> if is_std e then h e w' else (Raised e, w') | r \<Rightarrow> r)"

text \<open>\<open>try { f } catch (...) { h; throw; }\<close>\<close>

definition catch_rethrow :: "('j, 'w) step \<Rightarrow> ('j, 'w) step \<Rightarrow> ('j, 'w) step" where
  "catch_rethrow f h w =
     (case f w of (Raised e, w') \<Rightarrow> seq h (throw e) w' | r \<Rightarrow> r)"

text \<open>Lift a pure result: its exception is thrown, its value is passed on.\<close>

definition from_res :: "('j, 'a) res \<Rightarrow> ('a \<Rightarrow> ('j, 'w) step) \<Rightarrow> ('j, 'w) step" where
  "from_res r f = (case r of Inl e \<Rightarrow> throw e | Inr x \<Rightarrow> f x)"

named_theorems step_defs \<open>definitions of the step combinators\<close>

lemmas step_unfold [step_defs] =
  skip_def throw_def undef_def nofuel_def effect_def reading_def from_res_def

lemma seq_Normal [simp]: "f w = (Normal, w') \<Longrightarrow> seq f g w = g w'"
  by (simp add: seq_def)

lemma seq_stop: "fst (f w) \<noteq> Normal \<Longrightarrow> seq f g w = f w"
  by (auto simp: seq_def split: prod.splits outcome.splits)

lemma seq_Raised [simp]: "f w = (Raised e, w') \<Longrightarrow> seq f g w = (Raised e, w')"
  by (simp add: seq_def)

lemma seq_skip [simp]: "seq skip f = f" "seq f skip = f"
  by (auto simp: fun_eq_iff seq_def skip_def split: prod.splits outcome.splits)

lemma seq_assoc: "seq (seq f g) h = seq f (seq g h)"
  by (auto simp: fun_eq_iff seq_def split: prod.splits outcome.splits)

lemma seq_effect [simp]: "seq (effect u) g w = g (u w)"
  by (simp add: seq_def effect_def)

lemma seq_throw [simp]: "seq (throw e) g = throw e"
  by (simp add: fun_eq_iff seq_def throw_def)

lemma seq_eq_Normal:
  "seq f g w = (Normal, w') \<longleftrightarrow> (\<exists>u. f w = (Normal, u) \<and> g u = (Normal, w'))"
  by (auto simp: seq_def split: prod.splits outcome.splits)

lemma seqs_append: "seqs f (xs @ ys) = seq (seqs f xs) (seqs f ys)"
  by (induction xs) (simp_all add: seq_assoc)

lemma from_res_simps [simp]: "from_res (Inl e) f = throw e" "from_res (Inr x) f = f x"
  by (simp_all add: from_res_def)

subsection \<open>What a step keeps\<close>

text \<open>
  \<open>keeps P f\<close>: the step \<open>f\<close>, left in whatever way, ends in a state with \<open>P\<close> when it starts in
  one.  The rules below push the judgement through the combinators, so that a handler's invariant
  proof is one call of \<open>auto intro!: keeps_rules\<close> once its primitive updates are known.
\<close>

definition keeps :: "('w \<Rightarrow> bool) \<Rightarrow> ('j, 'w) step \<Rightarrow> bool" where
  "keeps P f \<longleftrightarrow> (\<forall>w. P w \<longrightarrow> P (snd (f w)))"

named_theorems keeps_rules \<open>preservation of a state predicate by the step combinators\<close>

lemma keepsD: "keeps P f \<Longrightarrow> P w \<Longrightarrow> P (snd (f w))"
  by (simp add: keeps_def)

lemma keepsI: "(\<And>w. P w \<Longrightarrow> P (snd (f w))) \<Longrightarrow> keeps P f"
  by (simp add: keeps_def)

lemma keeps_skip [keeps_rules]: "keeps P skip"
  by (simp add: keeps_def skip_def)

lemma keeps_throw [keeps_rules]: "keeps P (throw e)"
  by (simp add: keeps_def throw_def)

lemma keeps_undef [keeps_rules]: "keeps P undef"
  by (simp add: keeps_def undef_def)

lemma keeps_nofuel [keeps_rules]: "keeps P nofuel"
  by (simp add: keeps_def nofuel_def)

lemma keeps_effect: "(\<And>w. P w \<Longrightarrow> P (f w)) \<Longrightarrow> keeps P (effect f)"
  by (simp add: keeps_def effect_def)

lemma keeps_seq [keeps_rules]: "keeps P f \<Longrightarrow> keeps P g \<Longrightarrow> keeps P (seq f g)"
  by (fastforce simp: keeps_def seq_def split: prod.splits outcome.splits)

lemma keeps_seqs [keeps_rules]: "(\<And>x. x \<in> set xs \<Longrightarrow> keeps P (f x)) \<Longrightarrow> keeps P (seqs f xs)"
  by (induction xs) (auto intro: keeps_rules)

lemma keeps_reading: "(\<And>w. P w \<Longrightarrow> P (snd (f w w))) \<Longrightarrow> keeps P (reading f)"
  by (simp add: keeps_def reading_def)

lemma keeps_reading_all [keeps_rules]: "(\<And>u. keeps P (f u)) \<Longrightarrow> keeps P (reading f)"
  by (simp add: keeps_def reading_def)

lemma keeps_catch_std [keeps_rules]:
  "keeps P f \<Longrightarrow> (\<And>e. keeps P (h e)) \<Longrightarrow> keeps P (catch_std f h)"
  by (fastforce simp: keeps_def catch_std_def split: prod.splits outcome.splits)

lemma keeps_catch_rethrow [keeps_rules]:
  "keeps P f \<Longrightarrow> keeps P h \<Longrightarrow> keeps P (catch_rethrow f h)"
  by (fastforce simp: keeps_def catch_rethrow_def seq_def throw_def split: prod.splits outcome.splits)

lemma keeps_from_res [keeps_rules]:
  "(\<And>x. r = Inr x \<Longrightarrow> keeps P (f x)) \<Longrightarrow> keeps P (from_res r f)"
  by (cases r) (auto intro: keeps_rules)

lemma keeps_if [keeps_rules]:
  "(b \<Longrightarrow> keeps P f) \<Longrightarrow> (\<not> b \<Longrightarrow> keeps P g) \<Longrightarrow> keeps P (if b then f else g)"
  by simp

lemma keeps_case_option [keeps_rules]:
  "(x = None \<Longrightarrow> keeps P f) \<Longrightarrow> (\<And>y. x = Some y \<Longrightarrow> keeps P (g y)) \<Longrightarrow>
   keeps P (case x of None \<Rightarrow> f | Some y \<Rightarrow> g y)"
  by (cases x) simp_all

subsection \<open>Outcomes a step avoids\<close>

text \<open>
  \<open>safe B P f\<close>: started with \<open>P\<close>, the step is left in none of the ways in \<open>B\<close> and keeps \<open>P\<close>.  It is
  used with \<open>B = {NoFuel}\<close> (the recursion bound is enough) and with \<open>B = {Undefined}\<close> (no use of a
  destroyed object).
\<close>

definition safe :: "'j outcome set \<Rightarrow> ('w \<Rightarrow> bool) \<Rightarrow> ('j, 'w) step \<Rightarrow> bool" where
  "safe B P f \<longleftrightarrow> (\<forall>w. P w \<longrightarrow> fst (f w) \<notin> B \<and> P (snd (f w)))"

named_theorems safe_rules \<open>outcomes avoided by the step combinators\<close>

lemma safeD: "safe B P f \<Longrightarrow> P w \<Longrightarrow> fst (f w) \<notin> B" "safe B P f \<Longrightarrow> P w \<Longrightarrow> P (snd (f w))"
  by (simp_all add: safe_def)

lemma safeI: "(\<And>w. P w \<Longrightarrow> fst (f w) \<notin> B \<and> P (snd (f w))) \<Longrightarrow> safe B P f"
  by (simp add: safe_def)

lemma safe_keeps: "safe B P f \<Longrightarrow> keeps P f"
  by (simp add: safe_def keeps_def)

lemma safe_skip [safe_rules]: "Normal \<notin> B \<Longrightarrow> safe B P skip"
  by (simp add: safe_def skip_def)

lemma safe_throw [safe_rules]: "Raised e \<notin> B \<Longrightarrow> safe B P (throw e)"
  by (simp add: safe_def throw_def)

lemma safe_effect: "Normal \<notin> B \<Longrightarrow> (\<And>w. P w \<Longrightarrow> P (f w)) \<Longrightarrow> safe B P (effect f)"
  by (simp add: safe_def effect_def)

lemma safe_seq [safe_rules]: "safe B P f \<Longrightarrow> safe B P g \<Longrightarrow> safe B P (seq f g)"
  by (fastforce simp: safe_def seq_def split: prod.splits outcome.splits)

lemma safe_seqs [safe_rules]:
  "Normal \<notin> B \<Longrightarrow> (\<And>x. x \<in> set xs \<Longrightarrow> safe B P (f x)) \<Longrightarrow> safe B P (seqs f xs)"
  by (induction xs) (auto intro: safe_rules)

lemma safe_reading_all [safe_rules]: "(\<And>u. safe B P (f u)) \<Longrightarrow> safe B P (reading f)"
  by (simp add: safe_def reading_def)

lemma safe_reading: "(\<And>w. P w \<Longrightarrow> fst (f w w) \<notin> B \<and> P (snd (f w w))) \<Longrightarrow> safe B P (reading f)"
  by (simp add: safe_def reading_def)

lemma safe_catch_std [safe_rules]:
  "safe B P f \<Longrightarrow> (\<And>e. safe B P (h e)) \<Longrightarrow> safe B P (catch_std f h)"
  by (fastforce simp: safe_def catch_std_def split: prod.splits outcome.splits)

lemma safe_catch_rethrow [safe_rules]:
  assumes "safe B P f" "safe B P h" "\<And>e. Raised e \<notin> B"
  shows "safe B P (catch_rethrow f h)"
proof (rule safeI)
  fix w assume P: "P w"
  obtain r u where f: "f w = (r, u)" by fastforce
  with assms(1) P have "r \<notin> B" "P u" by (auto dest: safeD)
  with f assms(2,3) show "fst (catch_rethrow f h w) \<notin> B \<and> P (snd (catch_rethrow f h w))"
    by (cases r; cases "h u")
      (auto simp: catch_rethrow_def seq_def throw_def safe_def split: outcome.splits)
qed

lemma safe_from_res [safe_rules]:
  "(\<And>e. Raised e \<notin> B) \<Longrightarrow> (\<And>x. r = Inr x \<Longrightarrow> safe B P (f x)) \<Longrightarrow> safe B P (from_res r f)"
  by (cases r) (auto intro: safe_rules)

lemma safe_if [safe_rules]:
  "(b \<Longrightarrow> safe B P f) \<Longrightarrow> (\<not> b \<Longrightarrow> safe B P g) \<Longrightarrow> safe B P (if b then f else g)"
  by simp

lemma safe_case_option [safe_rules]:
  "(x = None \<Longrightarrow> safe B P f) \<Longrightarrow> (\<And>y. x = Some y \<Longrightarrow> safe B P (g y)) \<Longrightarrow>
   safe B P (case x of None \<Rightarrow> f | Some y \<Rightarrow> g y)"
  by (cases x) simp_all

subsection \<open>What holds when a step returns normally\<close>

definition leads :: "('w \<Rightarrow> bool) \<Rightarrow> ('j, 'w) step \<Rightarrow> ('w \<Rightarrow> bool) \<Rightarrow> bool" where
  "leads P f Q \<longleftrightarrow> (\<forall>w. P w \<longrightarrow> fst (f w) = Normal \<longrightarrow> Q (snd (f w)))"

lemma leadsI: "(\<And>w w'. P w \<Longrightarrow> f w = (Normal, w') \<Longrightarrow> Q w') \<Longrightarrow> leads P f Q"
  by (simp add: leads_def prod_eq_iff)

lemma leadsD: "leads P f Q \<Longrightarrow> P w \<Longrightarrow> f w = (Normal, w') \<Longrightarrow> Q w'"
  by (auto simp: leads_def)

lemma leads_keeps: "keeps P f \<Longrightarrow> leads P f P"
  by (simp add: leads_def keeps_def)

lemma leads_seq: "leads P f R \<Longrightarrow> leads R g Q \<Longrightarrow> leads P (seq f g) Q"
  by (fastforce simp: leads_def seq_def split: prod.splits outcome.splits)

text \<open>A step that is sure to return, with what holds then.\<close>

definition runs :: "('w \<Rightarrow> bool) \<Rightarrow> ('j, 'w) step \<Rightarrow> ('w \<Rightarrow> bool) \<Rightarrow> bool" where
  "runs P f Q \<longleftrightarrow> (\<forall>w. P w \<longrightarrow> fst (f w) = Normal \<and> Q (snd (f w)))"

lemma runsI: "(\<And>w. P w \<Longrightarrow> fst (f w) = Normal \<and> Q (snd (f w))) \<Longrightarrow> runs P f Q"
  by (simp add: runs_def)

lemma runsD: "runs P f Q \<Longrightarrow> P w \<Longrightarrow> \<exists>w'. f w = (Normal, w') \<and> Q w'"
  by (metis prod.collapse runs_def)

lemma runs_skip: "(\<And>w. P w \<Longrightarrow> Q w) \<Longrightarrow> runs P skip Q"
  by (simp add: runs_def skip_def)

lemma runs_effect: "(\<And>w. P w \<Longrightarrow> Q (f w)) \<Longrightarrow> runs P (effect f) Q"
  by (simp add: runs_def effect_def)

lemma runs_seq: "runs P f R \<Longrightarrow> runs R g Q \<Longrightarrow> runs P (seq f g) Q"
  unfolding runs_def by (metis prod.collapse seq_Normal)

lemma runs_seqs: "(\<And>x. x \<in> set xs \<Longrightarrow> runs P (f x) P) \<Longrightarrow> runs P (seqs f xs) P"
  by (induction xs) (auto intro: runs_seq runs_skip)

lemma runs_weaken: "runs P f Q \<Longrightarrow> (\<And>w. P' w \<Longrightarrow> P w) \<Longrightarrow> (\<And>w. Q w \<Longrightarrow> Q' w) \<Longrightarrow> runs P' f Q'"
  by (simp add: runs_def)

lemma runs_leads: "runs P f (\<lambda>_. True) \<Longrightarrow> leads P f Q \<Longrightarrow> runs P f Q"
  by (simp add: runs_def leads_def)

subsection \<open>Association lists as unordered maps\<close>

text \<open>
  \<open>std::unordered_map\<close> is an association list without repeated keys: \<open>map_of\<close> is \<open>find\<close>,
  \<open>AList.update\<close> is \<open>m[k] = v\<close>, \<open>AList.delete\<close> is \<open>erase\<close>.  The order of the list stands for
  the unspecified iteration order; no theorem depends on it.
\<close>

lemma map_of_update [simp]: "map_of (AList.update k v al) = (map_of al)(k \<mapsto> v)"
  by (rule update_conv')

lemma map_of_delete [simp]: "map_of (AList.delete k al) = (map_of al)(k := None)"
  by (rule delete_conv')

declare map_of_eq_Some_iff [simp del]

lemma set_map_fst_eq_dom: "set (map fst al) = dom (map_of al)"
  by (simp add: dom_map_of_conv_image_fst)

lemma distinct_map_fst_filter:
  "distinct (map fst al) \<Longrightarrow> distinct (map fst (filter p al))"
  by (induction al) auto

lemma map_of_filter_keep:
  "distinct (map fst al) \<Longrightarrow>
   map_of (filter p al) k = (case map_of al k of Some v \<Rightarrow> if p (k, v) then Some v else None | None \<Rightarrow> None)"
proof (induction al)
  case (Cons x al)
  obtain a b where x: "x = (a, b)" by (cases x)
  show ?case
  proof (cases "a = k")
    case True
    with Cons.prems x have "map_of al k = None"
      by (auto simp: map_of_eq_None_iff)
    with True x Cons show ?thesis by simp
  qed (use x Cons in simp)
qed simp

subsection \<open>Strings\<close>

text \<open>
  A \<open>std::string\<close> is a list of bytes.  \<open>s.rfind(p, 0) == 0\<close> is \<open>prefix p s\<close>, and
  \<open>s.substr(n)\<close> is \<open>drop n s\<close> for \<open>n \<le> length s\<close>.
\<close>

lemma prefix_append_drop: "prefix p s \<Longrightarrow> p @ drop (length p) s = s"
  by (auto simp: prefix_def)

lemma prefix_cancel_drop [simp]: "drop (length p) (p @ s) = s"
  by simp

end
