(* ===== verification/Json.thy ===== *)
theory Json imports Prelude
begin

text \<open>
  The data that travels through the program: \<open>blueboat::Value\<close>, an alias of \<open>nlohmann::json\<close>
  (common/include/blueboat/common/json.hpp).  The datatype has the kinds of value that
  \<open>pack_json\<close> distinguishes; an object is kept as the library keeps it, a map sorted by key.

  The JSON library itself is not part of the repository.  Its text functions (\<open>parse\<close>, \<open>dump\<close>),
  the texts of its error messages and the conversion of a floating-point number to an integer are
  fields of the record \<open>json_lib\<close>, a parameter of every definition that needs them.  The
  accessors below (\<open>contains\<close>, \<open>value\<close>, \<open>at\<close>, \<open>get\<close>) only read the datatype, with the exceptions the
  library documents for each.
\<close>

datatype json =
    JNull
  | JBool bool
  | JUnsigned "64 word"
  | JInt "64 word"
  | JFloat "64 word"
  | JString string
  | JBinary string
  | JArray "json list"
  | JObject "(string \<times> json) list"

type_synonym jerr = "json json_error"
type_synonym jexn = "json exn"
type_synonym 'a jres = "(json, 'a) res"
type_synonym 'w jstep = "(json, 'w) step"

record json_lib =
  jl_parse :: "string \<Rightarrow> json option"
  jl_dump :: "json \<Rightarrow> string option"
  jl_what :: "jerr \<Rightarrow> string"
  jl_float_int :: "64 word \<Rightarrow> 64 word"

text \<open>\<open>e.what()\<close> for a \<open>std::exception\<close>.\<close>

fun what :: "json_lib \<Rightarrow> jexn \<Rightarrow> string" where
  "what J (RuntimeError m) = m"
| "what J (JsonError e) = jl_what J e"
| "what J (UserError m) = m"
| "what J ForeignError = []"

subsection \<open>Objects: maps sorted by key\<close>

fun obj_set :: "string \<Rightarrow> json \<Rightarrow> (string \<times> json) list \<Rightarrow> (string \<times> json) list" where
  "obj_set k v [] = [(k, v)]"
| "obj_set k v ((k', v') # r) =
     (if k = k' then (k, v) # r
      else if k < k' then (k, v) # (k', v') # r
      else (k', v') # obj_set k v r)"

definition sorted_obj :: "(string \<times> json) list \<Rightarrow> bool" where
  "sorted_obj o1 \<longleftrightarrow> sorted_wrt (<) (map fst o1)"

text \<open>An object built from \<open>Value{{k1, v1}, ...}\<close> with distinct keys.\<close>

definition jobj :: "(string \<times> json) list \<Rightarrow> json" where
  "jobj kvs = JObject (fold (\<lambda>(k, v). obj_set k v) kvs [])"

lemma set_keys_obj_set [simp]: "fst ` set (obj_set k v kvs) = insert k (fst ` set kvs)"
  by (induction k v kvs rule: obj_set.induct) auto

lemma sorted_obj_Cons:
  "sorted_obj ((k, v) # r) \<longleftrightarrow> (\<forall>x \<in> fst ` set r. k < x) \<and> sorted_obj r"
  by (auto simp: sorted_obj_def)

lemma sorted_obj_set: "sorted_obj kvs \<Longrightarrow> sorted_obj (obj_set k v kvs)"
proof (induction k v kvs rule: obj_set.induct)
  case (2 k v k' v' r)
  show ?case
  proof (cases "k < k' \<or> k = k'")
    case True
    with 2(2) show ?thesis by (auto simp: sorted_obj_Cons)
  next
    case False
    then have "k' < k" by auto
    with False 2 show ?thesis by (simp add: sorted_obj_Cons)
  qed
qed (simp add: sorted_obj_def)

lemma map_of_sorted_less:
  "sorted_obj ((k', v') # r) \<Longrightarrow> k < k' \<Longrightarrow> map_of r k = None"
  by (auto simp: sorted_obj_def map_of_eq_None_iff)

lemma map_of_obj_set: "sorted_obj kvs \<Longrightarrow> map_of (obj_set k v kvs) = (map_of kvs)(k \<mapsto> v)"
proof (induction k v kvs rule: obj_set.induct)
  case (2 k v k' v' r)
  have "sorted_obj r" using 2(2) by (simp add: sorted_obj_def)
  with 2 show ?case by (auto simp: fun_eq_iff)
qed auto

lemma distinct_sorted_obj: "sorted_obj kvs \<Longrightarrow> distinct (map fst kvs)"
  unfolding sorted_obj_def
  by (induction kvs) auto

subsection \<open>Accessors\<close>

fun is_object :: "json \<Rightarrow> bool" where
  "is_object (JObject m) = True" | "is_object j = False"

fun is_array :: "json \<Rightarrow> bool" where
  "is_array (JArray xs) = True" | "is_array j = False"

fun is_string :: "json \<Rightarrow> bool" where
  "is_string (JString s) = True" | "is_string j = False"

fun is_null :: "json \<Rightarrow> bool" where
  "is_null JNull = True" | "is_null j = False"

definition jlookup :: "string \<Rightarrow> json \<Rightarrow> json option" where
  "jlookup k j = (case j of JObject m \<Rightarrow> map_of m k | _ \<Rightarrow> None)"

definition jcontains :: "string \<Rightarrow> json \<Rightarrow> bool" where
  "jcontains k j \<longleftrightarrow> jlookup k j \<noteq> None"

text \<open>\<open>j.value(k, d)\<close> with the conversion \<open>get\<close> chosen by the type of the default.\<close>

definition jvalue :: "(json \<Rightarrow> 'a jres) \<Rightarrow> string \<Rightarrow> 'a \<Rightarrow> json \<Rightarrow> 'a jres" where
  "jvalue get k d j =
     (if is_object j then (case jlookup k j of Some v \<Rightarrow> get v | None \<Rightarrow> Inr d)
      else Inl (JsonError (ValueOnNonObject j)))"

definition jat :: "string \<Rightarrow> json \<Rightarrow> json jres" where
  "jat k j =
     (if is_object j
      then (case jlookup k j of Some v \<Rightarrow> Inr v | None \<Rightarrow> Inl (JsonError (KeyMissing k j)))
      else Inl (JsonError (AtOnNonObject j)))"

text \<open>\<open>j[k] = v\<close>: null becomes an object, any other non-object throws.\<close>

definition jassign :: "string \<Rightarrow> json \<Rightarrow> json \<Rightarrow> json jres" where
  "jassign k v j =
     (case j of JObject m \<Rightarrow> Inr (JObject (obj_set k v m))
      | JNull \<Rightarrow> Inr (JObject [(k, v)])
      | _ \<Rightarrow> Inl (JsonError (IndexOnNonObject j)))"

fun get_string :: "json \<Rightarrow> string jres" where
  "get_string (JString s) = Inr s"
| "get_string j = Inl (JsonError (TypeMismatch j))"

definition get_json :: "json \<Rightarrow> json jres" where
  "get_json j = Inr j"

text \<open>\<open>get<int>()\<close> converts every arithmetic kind, \<open>bool\<close> included, and truncates to 32 bits.\<close>

fun get_int :: "json_lib \<Rightarrow> json \<Rightarrow> 32 word jres" where
  "get_int J (JBool b) = Inr (if b then 1 else 0)"
| "get_int J (JUnsigned u) = Inr (ucast u)"
| "get_int J (JInt i) = Inr (ucast i)"
| "get_int J (JFloat f) = Inr (ucast (jl_float_int J f))"
| "get_int J j = Inl (JsonError (TypeMismatch j))"

text \<open>\<open>get<std::int64_t>()\<close> is the library's own integer type and refuses \<open>bool\<close>.\<close>

fun get_int64 :: "json_lib \<Rightarrow> json \<Rightarrow> 64 word jres" where
  "get_int64 J (JUnsigned u) = Inr u"
| "get_int64 J (JInt i) = Inr i"
| "get_int64 J (JFloat f) = Inr (jl_float_int J f)"
| "get_int64 J j = Inl (JsonError (TypeMismatch j))"

abbreviation empty_object :: json where
  "empty_object \<equiv> JObject []"

abbreviation empty_array :: json where
  "empty_array \<equiv> JArray []"

named_theorems json_access \<open>definitions of the JSON accessors\<close>

lemmas json_access_defs [json_access] =
  jlookup_def jcontains_def jvalue_def jat_def jobj_def get_json_def

subsection \<open>Normal form of a value that has been through a text or binary encoding\<close>

text \<open>
  A decoder cannot tell a non-negative signed integer from an unsigned one: both texts and
  MessagePack bytes of \<open>JInt 5\<close> come back as \<open>JUnsigned 5\<close>.  Everything else comes back as it was.
\<close>

fun norm :: "json \<Rightarrow> json" where
  "norm (JInt i) = (if 0 \<le> sint i then JUnsigned i else JInt i)"
| "norm (JArray xs) = JArray (map norm xs)"
| "norm (JObject m) = JObject (map (\<lambda>(k, v). (k, norm v)) m)"
| "norm j = j"

lemma norm_idem [simp]: "norm (norm j) = norm j"
  by (induction j rule: norm.induct) (auto simp: comp_def)

lemma map_of_norm: "map_of (map (\<lambda>(k, v). (k, norm v)) m) k = map_option norm (map_of m k)"
  by (induction m) auto

lemma is_object_norm [simp]: "is_object (norm j) = is_object j"
  by (cases j) auto

lemma jlookup_norm: "jlookup k (norm j) = map_option norm (jlookup k j)"
  by (cases j) (auto simp: jlookup_def map_of_norm)

lemma jcontains_norm [simp]: "jcontains k (norm j) = jcontains k j"
  by (simp add: jcontains_def jlookup_norm)

lemma get_string_norm [simp]: "(get_string (norm j) = Inr s) = (get_string j = Inr s)"
  by (cases j) auto

text \<open>
  The contract of the library's text functions that the code relies on, stated for one value:
  \<open>dump\<close> produces a text and \<open>parse\<close> reads it back, up to the normal form.
\<close>

definition text_safe :: "json_lib \<Rightarrow> json \<Rightarrow> bool" where
  "text_safe J v \<longleftrightarrow> (\<exists>s. jl_dump J v = Some s \<and> jl_parse J s = Some (norm v))"

definition dump :: "json_lib \<Rightarrow> json \<Rightarrow> string jres" where
  "dump J v = (case jl_dump J v of Some s \<Rightarrow> Inr s | None \<Rightarrow> Inl (JsonError (InvalidUtf8 v)))"

definition parse :: "json_lib \<Rightarrow> string \<Rightarrow> json jres" where
  "parse J s = (case jl_parse J s of Some v \<Rightarrow> Inr v | None \<Rightarrow> Inl (JsonError (ParseFailure s)))"

lemma text_safe_dump: "text_safe J v \<Longrightarrow> \<exists>s. dump J v = Inr s \<and> parse J s = Inr (norm v)"
  by (auto simp: text_safe_def dump_def parse_def)

end
