(* ===== verification/Storage.thy ===== *)
theory Storage imports Prelude
begin

text \<open>
  Key/value storage: the abstract class \<open>Storage\<close> (server/include/blueboat/storage.hpp) as a record
  of its virtual methods, the in-memory implementation \<open>MemoryStorage\<close>
  (server/src/memory_storage.cpp), and the contract that the implementation offers at any
  moment of the clock.  Times are milliseconds of the steady clock.
\<close>

subsection \<open>The interface\<close>

record 's storage_ops =
  st_get :: "'s \<Rightarrow> string \<Rightarrow> string option"
  st_set :: "'s \<Rightarrow> string \<Rightarrow> string \<Rightarrow> bool \<Rightarrow> 's"
  st_remove :: "'s \<Rightarrow> string \<Rightarrow> 's"
  st_fetch_keys :: "'s \<Rightarrow> string \<Rightarrow> string list \<times> 's"

text \<open>
  The contract.  \<open>view s\<close> is the finite map a caller can observe, \<open>good\<close> the representation
  invariant.  Fetching keys may purge entries, but none that can be observed.
\<close>

locale storage_interface =
  fixes S :: "'s storage_ops"
    and view :: "'s \<Rightarrow> string \<Rightarrow> string option"
    and good :: "'s \<Rightarrow> bool"
  assumes get_law: "good s \<Longrightarrow> st_get S s k = view s k"
    and set_law: "good s \<Longrightarrow> view (st_set S s k v p) = (view s)(k \<mapsto> v)"
    and remove_law: "good s \<Longrightarrow> view (st_remove S s k) = (view s)(k := None)"
    and fetch_view: "good s \<Longrightarrow> view (snd (st_fetch_keys S s pre)) = view s"
    and fetch_set: "good s \<Longrightarrow> set (fst (st_fetch_keys S s pre)) = {r. view s (pre @ r) \<noteq> None}"
    and fetch_distinct: "good s \<Longrightarrow> distinct (fst (st_fetch_keys S s pre))"
    and set_good: "good s \<Longrightarrow> good (st_set S s k v p)"
    and remove_good: "good s \<Longrightarrow> good (st_remove S s k)"
    and fetch_good: "good s \<Longrightarrow> good (snd (st_fetch_keys S s pre))"
begin

lemmas storage_laws = get_law set_law remove_law fetch_view fetch_set fetch_distinct
  set_good remove_good fetch_good

lemma get_set: "good s \<Longrightarrow> st_get S (st_set S s k v p) k' = (if k' = k then Some v else st_get S s k')"
  by (simp add: storage_laws)

lemma get_remove: "good s \<Longrightarrow> st_get S (st_remove S s k) k' = (if k' = k then None else st_get S s k')"
  by (simp add: storage_laws)

lemma fetch_after_set:
  "good s \<Longrightarrow> r \<in> set (fst (st_fetch_keys S (st_set S s (pre @ r) v p) pre))"
  by (simp add: storage_laws)

lemma fetch_after_remove:
  "good s \<Longrightarrow> r \<notin> set (fst (st_fetch_keys S (st_remove S s (pre @ r)) pre))"
  by (simp add: storage_laws)

end

subsection \<open>The in-memory implementation\<close>

record entry =
  ent_value :: string
  ent_expires_at :: "int option"

type_synonym mem_storage = "(string \<times> entry) list"

definition THREE_HOURS :: int where
  "THREE_HOURS = 3 * 60 * 60 * 1000"

definition expired :: "int \<Rightarrow> entry \<Rightarrow> bool" where
  "expired now e = (case ent_expires_at e of None \<Rightarrow> False | Some t \<Rightarrow> now > t)"

definition mem_get :: "int \<Rightarrow> mem_storage \<Rightarrow> string \<Rightarrow> string option" where
  "mem_get now s k =
     (case map_of s k of None \<Rightarrow> None
      | Some e \<Rightarrow> if expired now e then None else Some (ent_value e))"

definition mem_set :: "int \<Rightarrow> mem_storage \<Rightarrow> string \<Rightarrow> string \<Rightarrow> bool \<Rightarrow> mem_storage" where
  "mem_set now s k v no_expiration =
     AList.update k
       \<lparr>ent_value = v, ent_expires_at = (if \<not> no_expiration then Some (now + THREE_HOURS) else None)\<rparr> s"

definition mem_remove :: "mem_storage \<Rightarrow> string \<Rightarrow> mem_storage" where
  "mem_remove s k = AList.delete k s"

text \<open>The iterator loop of \<open>fetch_keys\<close>: erase what has expired, collect what has the prefix.\<close>

fun mem_fetch_keys :: "int \<Rightarrow> mem_storage \<Rightarrow> string \<Rightarrow> string list \<times> mem_storage" where
  "mem_fetch_keys now [] pre = ([], [])"
| "mem_fetch_keys now ((k, e) # r) pre =
     (let (ks, s) = mem_fetch_keys now r pre in
      if expired now e then (ks, s)
      else if prefix pre k then (drop (length pre) k # ks, (k, e) # s)
      else (ks, (k, e) # s))"

definition mem_ops :: "int \<Rightarrow> mem_storage storage_ops" where
  "mem_ops now =
     \<lparr>st_get = mem_get now, st_set = mem_set now, st_remove = mem_remove,
      st_fetch_keys = mem_fetch_keys now\<rparr>"

lemma mem_ops_simps [simp]:
  "st_get (mem_ops now) = mem_get now" "st_set (mem_ops now) = mem_set now"
  "st_remove (mem_ops now) = mem_remove" "st_fetch_keys (mem_ops now) = mem_fetch_keys now"
  by (simp_all add: mem_ops_def)

subsection \<open>Correctness of the implementation\<close>

definition mem_good :: "mem_storage \<Rightarrow> bool" where
  "mem_good s \<longleftrightarrow> distinct (map fst s)"

lemma fetch_keys_state:
  "snd (mem_fetch_keys now s pre) = filter (\<lambda>(k, e). \<not> expired now e) s"
  by (induction now s pre rule: mem_fetch_keys.induct) (auto split: prod.splits)

lemma fetch_keys_result:
  "fst (mem_fetch_keys now s pre) =
   map (\<lambda>(k, e). drop (length pre) k) (filter (\<lambda>(k, e). \<not> expired now e \<and> prefix pre k) s)"
proof (induction now s pre rule: mem_fetch_keys.induct)
  case (2 now k e r pre)
  show ?case by (cases "mem_fetch_keys now r pre") (use 2 in simp)
qed simp

lemma mem_get_set:
  "mem_get t (mem_set now s k v p) k' =
   (if k' = k then (if p \<or> t \<le> now + THREE_HOURS then Some v else None) else mem_get t s k')"
  by (auto simp: mem_get_def mem_set_def expired_def)

lemma mem_get_remove: "mem_get t (mem_remove s k) k' = (if k' = k then None else mem_get t s k')"
  by (simp add: mem_get_def mem_remove_def)

lemma expired_mono: "now \<le> t \<Longrightarrow> expired now e \<Longrightarrow> expired t e"
  by (auto simp: expired_def split: option.splits)

lemma mem_get_fetch:
  "mem_good s \<Longrightarrow> now \<le> t \<Longrightarrow> mem_get t (snd (mem_fetch_keys now s pre)) k = mem_get t s k"
  by (auto simp: mem_good_def fetch_keys_state mem_get_def map_of_filter_keep
           dest: expired_mono split: option.splits)

lemma fetch_keys_set:
  assumes "mem_good s"
  shows "set (fst (mem_fetch_keys now s pre)) = {r. mem_get now s (pre @ r) \<noteq> None}"
proof -
  have "r \<in> set (fst (mem_fetch_keys now s pre)) \<longleftrightarrow> (\<exists>e. (pre @ r, e) \<in> set s \<and> \<not> expired now e)" for r
    unfolding fetch_keys_result by (force simp: prefix_def)
  moreover have "(pre @ r, e) \<in> set s \<longleftrightarrow> map_of s (pre @ r) = Some e" for r e
    using assms unfolding mem_good_def by (simp only: map_of_eq_Some_iff)
  moreover have "(\<exists>e. map_of s k = Some e \<and> \<not> expired now e) \<longleftrightarrow> mem_get now s k \<noteq> None" for k
    by (auto simp: mem_get_def split: option.splits)
  ultimately show ?thesis by auto
qed

lemma inj_on_drop_prefix: "inj_on (drop (length p)) {k. prefix p k}"
  by (auto simp: inj_on_def prefix_def)

lemma fetch_keys_distinct:
  assumes "mem_good s"
  shows "distinct (fst (mem_fetch_keys now s pre))"
proof -
  let ?f = "filter (\<lambda>(k, e). \<not> expired now e \<and> prefix pre k) s"
  have "distinct (map fst ?f)"
    using assms by (simp add: mem_good_def distinct_map_fst_filter)
  moreover have "inj_on (drop (length pre)) (set (map fst ?f))"
    by (rule inj_on_subset [OF inj_on_drop_prefix]) auto
  ultimately have "distinct (map (drop (length pre)) (map fst ?f))"
    by (simp only: distinct_map simp_thms)
  then show ?thesis
    by (simp add: fetch_keys_result comp_def case_prod_unfold)
qed

lemma mem_good_ops:
  "mem_good s \<Longrightarrow> mem_good (mem_set now s k v p)"
  "mem_good s \<Longrightarrow> mem_good (mem_remove s k)"
  "mem_good s \<Longrightarrow> mem_good (snd (mem_fetch_keys now s pre))"
  by (simp_all add: mem_good_def mem_set_def mem_remove_def distinct_update distinct_delete
        fetch_keys_state distinct_map_fst_filter)

interpretation mem: storage_interface "mem_ops now" "mem_get now" mem_good for now
proof
  fix s :: mem_storage and k v pre p
  assume g: "mem_good s"
  show "mem_get now (st_set (mem_ops now) s k v p) = (mem_get now s)(k \<mapsto> v)"
    by (rule ext) (simp add: mem_get_set THREE_HOURS_def)
  show "mem_get now (st_remove (mem_ops now) s k) = (mem_get now s)(k := None)"
    by (rule ext) (simp add: mem_get_remove)
  show "mem_get now (snd (st_fetch_keys (mem_ops now) s pre)) = mem_get now s"
    using g by (intro ext) (simp add: mem_get_fetch)
qed (simp_all add: fetch_keys_set fetch_keys_distinct mem_good_ops)

end
