(* ===== verification/Pubsub.thy ===== *)
theory Pubsub imports Json
begin

text \<open>
  Publish/subscribe: the interface \<open>PubSub\<close> with its subscription handle
  (server/include/blueboat/pubsub.hpp) and the in-memory implementation \<open>MemoryPubSub\<close>
  (server/src/memory_pubsub.cpp).  A handler, a \<open>std::function\<close> in the code, is a value of the type
  parameter \<open>'h\<close> that an interpreter \<open>invoke\<close> runs.  Listener identifiers come from \<open>random_id()\<close>
  and are passed in.
\<close>

record 'h listener =
  ls_id :: string
  ls_handler :: 'h

type_synonym 'h pubsub = "(string \<times> 'h listener list) list"

text \<open>
  A subscription holds the closure made by \<open>on\<close>, which captured the key and the identifier; the
  empty handle and the handle after \<open>unsubscribe()\<close> hold no closure.
\<close>

type_synonym subscription = "(string \<times> string) option"

definition ps_listeners :: "'h pubsub \<Rightarrow> string \<Rightarrow> 'h listener list" where
  "ps_listeners ps key = (case map_of ps key of None \<Rightarrow> [] | Some ls \<Rightarrow> ls)"

definition ps_on :: "string \<Rightarrow> string \<Rightarrow> 'h \<Rightarrow> 'h pubsub \<Rightarrow> subscription \<times> 'h pubsub" where
  "ps_on i key h ps =
     (Some (key, i),
      AList.update key (ps_listeners ps key @ [\<lparr>ls_id = i, ls_handler = h\<rparr>]) ps)"

definition ps_remove :: "string \<Rightarrow> string \<Rightarrow> 'h pubsub \<Rightarrow> 'h pubsub" where
  "ps_remove key i ps =
     (case map_of ps key of
        None \<Rightarrow> ps
      | Some vec \<Rightarrow>
          let vec' = filter (\<lambda>l. ls_id l \<noteq> i) vec in
          if vec' = [] then AList.delete key ps else AList.update key vec' ps)"

fun ps_unsubscribe :: "subscription \<Rightarrow> 'h pubsub \<Rightarrow> subscription \<times> 'h pubsub" where
  "ps_unsubscribe None ps = (None, ps)"
| "ps_unsubscribe (Some (key, i)) ps = (None, ps_remove key i ps)"

text \<open>\<open>publish\<close> runs a copy of the listener list: later changes to the table do not affect the loop.\<close>

definition ps_publish ::
  "('h \<Rightarrow> json \<Rightarrow> 'w jstep) \<Rightarrow> ('w \<Rightarrow> 'h pubsub) \<Rightarrow> string \<Rightarrow> json \<Rightarrow> 'w jstep" where
  "ps_publish invoke table key data =
     reading (\<lambda>w. case map_of (table w) key of
         None \<Rightarrow> skip
       | Some ls \<Rightarrow> seqs (\<lambda>l. invoke (ls_handler l) data) ls)"

subsection \<open>The contract of the listener table\<close>

locale pubsub_interface =
  fixes listeners :: "'t \<Rightarrow> string \<Rightarrow> 'h listener list"
    and on :: "string \<Rightarrow> string \<Rightarrow> 'h \<Rightarrow> 't \<Rightarrow> subscription \<times> 't"
    and unsub :: "subscription \<Rightarrow> 't \<Rightarrow> subscription \<times> 't"
  assumes on_handle: "fst (on i key h t) = Some (key, i)"
    and on_listeners: "listeners (snd (on i key h t)) k =
          listeners t k @ (if k = key then [\<lparr>ls_id = i, ls_handler = h\<rparr>] else [])"
    and unsub_handle: "fst (unsub s t) = None"
    and unsub_none: "snd (unsub None t) = t"
    and unsub_listeners: "listeners (snd (unsub (Some (key, i)) t)) k =
          (if k = key then filter (\<lambda>l. ls_id l \<noteq> i) (listeners t k) else listeners t k)"
begin

lemma on_then_unsub:
  assumes "\<forall>l \<in> set (listeners t key). ls_id l \<noteq> i"
  shows "listeners (snd (unsub (fst (on i key h t)) (snd (on i key h t)))) k = listeners t k"
proof -
  have "filter (\<lambda>l. ls_id l \<noteq> i) (listeners t key) = listeners t key"
    using assms by (simp add: filter_id_conv)
  then show ?thesis by (simp add: on_handle unsub_listeners on_listeners)
qed

lemma unsub_twice: "unsub (fst (unsub s t)) (snd (unsub s t)) = (None, snd (unsub s t))"
  by (metis prod.collapse unsub_handle unsub_none)

lemma unsub_other: "k \<noteq> key \<Longrightarrow> listeners (snd (unsub (Some (key, i)) t)) k = listeners t k"
  by (simp add: unsub_listeners)

end

lemma ps_listeners_remove:
  "ps_listeners (ps_remove key i ps) k =
   (if k = key then filter (\<lambda>l. ls_id l \<noteq> i) (ps_listeners ps k) else ps_listeners ps k)"
  by (auto simp: ps_listeners_def ps_remove_def Let_def split: option.splits)

lemma ps_listeners_on:
  "ps_listeners (snd (ps_on i key h ps)) k =
   ps_listeners ps k @ (if k = key then [\<lparr>ls_id = i, ls_handler = h\<rparr>] else [])"
  by (auto simp: ps_listeners_def ps_on_def)

lemma ps_unsubscribe_handle [simp]: "fst (ps_unsubscribe s ps) = None"
  by (cases s rule: option.exhaust) auto

interpretation mps: pubsub_interface ps_listeners ps_on ps_unsubscribe
  by unfold_locales (simp_all add: ps_listeners_remove ps_listeners_on, simp add: ps_on_def)

text \<open>
  The table never stores an empty listener list, so \<open>publish\<close> on a key without listeners does
  nothing because the key is absent.
\<close>

definition ps_compact :: "'h pubsub \<Rightarrow> bool" where
  "ps_compact ps \<longleftrightarrow> distinct (map fst ps) \<and> (\<forall>k. map_of ps k \<noteq> Some [])"

lemma ps_compact_empty: "ps_compact []"
  by (simp add: ps_compact_def)

lemma ps_compact_on: "ps_compact ps \<Longrightarrow> ps_compact (snd (ps_on i key h ps))"
  by (auto simp: ps_compact_def ps_on_def distinct_update split: if_splits)

lemma ps_compact_remove: "ps_compact ps \<Longrightarrow> ps_compact (ps_remove key i ps)"
  by (auto simp: ps_compact_def ps_remove_def Let_def distinct_update distinct_delete
      split: option.splits if_splits)

lemma ps_publish_seqs:
  "ps_publish invoke table key data w =
   seqs (\<lambda>l. invoke (ls_handler l) data) (ps_listeners (table w) key) w"
  by (simp add: ps_publish_def reading_def ps_listeners_def split: option.splits)

end
