(* ===== verification/Protocol.thy ===== *)
theory Protocol imports Json
begin

text \<open>
  The names of the wire protocol and of the storage keys
  (common/include/blueboat/common/protocol.hpp).
\<close>

definition createNewRoom :: string where "createNewRoom = ''blueboat_CREATE_NEW_ROOM''"
definition joinRoom :: string where "joinRoom = ''blueboat_JOIN_ROOM''"
definition sendMessage :: string where "sendMessage = ''blueboat_SEND_MESSAGE''"
definition listenState :: string where "listenState = ''blueboat_LISTEN_STATE''"
definition requestAvailableRooms :: string where "requestAvailableRooms = ''blueboat_AVAILABLE_ROOMS''"

definition clientIdSet :: string where "clientIdSet = ''CLIENT_ID_SET''"
definition joinedRoom :: string where "joinedRoom = ''blueboat_JOINED_ROOM''"
definition statePatch :: string where "statePatch = ''STATE_PATCH''"
definition removedFromRoom :: string where "removedFromRoom = ''blueboat_REMOVED_FROM_ROOM''"

definition PLAYER_LEFT :: string where "PLAYER_LEFT = ''blueboat-player-left''"
definition REQUEST_INFO :: string where "REQUEST_INFO = ''blueboat-request-room-info''"
definition EXTERNAL_MESSAGE :: string where "EXTERNAL_MESSAGE = ''blueboat-external-message''"

definition ROOM_PREFIX :: string where "ROOM_PREFIX = ''room:''"
definition GAME_VALUES :: string where "GAME_VALUES = ''game-values''"

lemmas action_defs = createNewRoom_def joinRoom_def sendMessage_def listenState_def
  requestAvailableRooms_def clientIdSet_def joinedRoom_def statePatch_def removedFromRoom_def

lemmas listener_key_defs = PLAYER_LEFT_def REQUEST_INFO_def EXTERNAL_MESSAGE_def

lemmas storage_key_defs = ROOM_PREFIX_def GAME_VALUES_def

lemma client_actions_distinct [simp]:
  "createNewRoom \<noteq> joinRoom" "createNewRoom \<noteq> sendMessage" "joinRoom \<noteq> sendMessage"
  "joinRoom \<noteq> createNewRoom" "sendMessage \<noteq> createNewRoom" "sendMessage \<noteq> joinRoom"
  by (simp_all add: action_defs)

lemma room_actions_distinct [simp]:
  "joinRoom \<noteq> REQUEST_INFO" "joinRoom \<noteq> EXTERNAL_MESSAGE" "sendMessage \<noteq> REQUEST_INFO"
  "sendMessage \<noteq> EXTERNAL_MESSAGE" "EXTERNAL_MESSAGE \<noteq> REQUEST_INFO"
  "REQUEST_INFO \<noteq> EXTERNAL_MESSAGE" "PLAYER_LEFT \<noteq> REQUEST_INFO" "REQUEST_INFO \<noteq> PLAYER_LEFT"
  by (simp_all add: action_defs listener_key_defs)

lemma room_key_not_game_values [simp]: "ROOM_PREFIX @ r \<noteq> GAME_VALUES" "GAME_VALUES \<noteq> ROOM_PREFIX @ r"
  by (simp_all add: storage_key_defs)

end
