(* ===== verification/Registry.thy ===== *)
theory Registry imports Storage Protocol
begin

text \<open>
  The room registry: \<open>SimpleClient\<close> and \<open>RoomSnapshot\<close> with their JSON forms
  (server/include/blueboat/simple_client.hpp, room_snapshot.hpp) and \<open>RoomFetcher\<close>
  (server/src/room_fetcher.cpp), written over the storage interface.  Its laws are proved once for
  any storage that keeps the storage contract and then interpreted for the in-memory storage.
\<close>

record simple_client =
  sc_id :: string
  sc_session_id :: string
  sc_origin :: string
  sc_ip :: string

definition no_client :: simple_client where
  "no_client = \<lparr>sc_id = [], sc_session_id = [], sc_origin = [], sc_ip = []\<rparr>"

definition client_to_json :: "simple_client \<Rightarrow> json" where
  "client_to_json c =
     jobj [(''id'', JString (sc_id c)), (''sessionId'', JString (sc_session_id c)),
           (''origin'', JString (sc_origin c)), (''ip'', JString (sc_ip c))]"

definition client_from_json :: "json \<Rightarrow> simple_client jres" where
  "client_from_json j =
     rbind (jvalue get_string ''id'' [] j) (\<lambda>i.
     rbind (jvalue get_string ''sessionId'' [] j) (\<lambda>s.
     rbind (jvalue get_string ''origin'' [] j) (\<lambda>og.
     rbind (jvalue get_string ''ip'' [] j) (\<lambda>p.
       Inr \<lparr>sc_id = i, sc_session_id = s, sc_origin = og, sc_ip = p\<rparr>))))"

record room_snapshot =
  rs_id :: string
  rs_type :: string
  rs_owner :: simple_client
  rs_metadata :: json
  rs_created_at :: "64 word"

definition snapshot_to_json :: "room_snapshot \<Rightarrow> json" where
  "snapshot_to_json s =
     jobj [(''id'', JString (rs_id s)), (''type'', JString (rs_type s)),
           (''owner'', client_to_json (rs_owner s)), (''metadata'', rs_metadata s),
           (''createdAt'', JInt (rs_created_at s))]"

definition snapshot_from_json :: "json_lib \<Rightarrow> json \<Rightarrow> room_snapshot jres" where
  "snapshot_from_json J j =
     rbind (jvalue get_string ''id'' [] j) (\<lambda>i.
     rbind (jvalue get_string ''type'' [] j) (\<lambda>t.
     rbind (if jcontains ''owner'' j then rbind (jat ''owner'' j) client_from_json
            else Inr no_client) (\<lambda>ow.
     rbind (jvalue get_json ''metadata'' empty_object j) (\<lambda>m.
     rbind (jvalue (get_int64 J) ''createdAt'' 0 j) (\<lambda>c.
       Inr \<lparr>rs_id = i, rs_type = t, rs_owner = ow, rs_metadata = m, rs_created_at = c\<rparr>)))))"

lemma client_json_shape:
  "client_to_json c = JObject [(''id'', JString (sc_id c)), (''ip'', JString (sc_ip c)),
     (''origin'', JString (sc_origin c)), (''sessionId'', JString (sc_session_id c))]"
  by (simp add: client_to_json_def jobj_def)

lemma snapshot_json_shape:
  "snapshot_to_json s = JObject [(''createdAt'', JInt (rs_created_at s)), (''id'', JString (rs_id s)),
     (''metadata'', rs_metadata s), (''owner'', client_to_json (rs_owner s)),
     (''type'', JString (rs_type s))]"
  by (simp add: snapshot_to_json_def jobj_def)

lemma norm_client_to_json [simp]: "norm (client_to_json c) = client_to_json c"
  by (simp add: client_json_shape)

lemma client_json_back [simp]: "client_from_json (client_to_json c) = Inr c"
  by (simp add: client_json_shape client_from_json_def jvalue_def jlookup_def)

lemma get_int64_norm [simp]: "get_int64 J (norm (JInt i)) = Inr i"
  by simp

lemma snapshot_json_back:
  "snapshot_from_json J (norm (snapshot_to_json s)) = Inr (s\<lparr>rs_metadata := norm (rs_metadata s)\<rparr>)"
  by (simp add: snapshot_json_shape snapshot_from_json_def jvalue_def jlookup_def jcontains_def
      jat_def get_json_def)

subsection \<open>RoomFetcher\<close>

definition room_key :: "string \<Rightarrow> string" where
  "room_key i = ROOM_PREFIX @ i"

definition get_list_of_rooms :: "'s storage_ops \<Rightarrow> 's \<Rightarrow> string list \<times> 's" where
  "get_list_of_rooms S s = st_fetch_keys S s ROOM_PREFIX"

text \<open>The loop of \<open>get_list_of_rooms_with_data\<close>: rooms that vanished or do not parse are skipped.\<close>

fun collect_rooms :: "'s storage_ops \<Rightarrow> json_lib \<Rightarrow> 's \<Rightarrow> string list \<Rightarrow> room_snapshot list" where
  "collect_rooms S J s [] = []"
| "collect_rooms S J s (i # r) =
     (case st_get S s (room_key i) of
        None \<Rightarrow> collect_rooms S J s r
      | Some raw \<Rightarrow>
          (case rbind (parse J raw) (snapshot_from_json J) of
             Inl e \<Rightarrow> collect_rooms S J s r
           | Inr room \<Rightarrow> room # collect_rooms S J s r))"

definition get_list_of_rooms_with_data ::
  "'s storage_ops \<Rightarrow> json_lib \<Rightarrow> 's \<Rightarrow> room_snapshot list \<times> 's" where
  "get_list_of_rooms_with_data S J s =
     (let (ids, s') = get_list_of_rooms S s in (collect_rooms S J s' ids, s'))"

definition find_room_by_id :: "'s storage_ops \<Rightarrow> json_lib \<Rightarrow> 's \<Rightarrow> string \<Rightarrow> room_snapshot jres" where
  "find_room_by_id S J s i =
     (case st_get S s (room_key i) of
        None \<Rightarrow> Inl (RuntimeError (room_key i @ '' - No data received''))
      | Some raw \<Rightarrow> rbind (parse J raw) (snapshot_from_json J))"

definition add_room :: "'s storage_ops \<Rightarrow> json_lib \<Rightarrow> 's \<Rightarrow> room_snapshot \<Rightarrow> 's jres" where
  "add_room S J s room =
     rbind (dump J (snapshot_to_json room)) (\<lambda>t. Inr (st_set S s (room_key (rs_id room)) t False))"

definition set_room_metadata ::
  "'s storage_ops \<Rightarrow> json_lib \<Rightarrow> 's \<Rightarrow> string \<Rightarrow> json \<Rightarrow> 's jres" where
  "set_room_metadata S J s i m =
     rbind (find_room_by_id S J s i) (\<lambda>room.
     rbind (dump J (snapshot_to_json (room\<lparr>rs_metadata := m\<rparr>))) (\<lambda>t.
       Inr (st_set S s (room_key (rs_id room)) t False)))"

definition remove_room :: "'s storage_ops \<Rightarrow> 's \<Rightarrow> string \<Rightarrow> 's" where
  "remove_room S s i = st_remove S s (room_key i)"

lemma room_key_inj [simp]: "room_key i = room_key i' \<longleftrightarrow> i = i'"
  by (simp add: room_key_def)

subsection \<open>The laws of the registry over any storage\<close>

locale room_registry = storage_interface S view good
  for S :: "'s storage_ops" and view good +
  fixes J :: json_lib
begin

lemma add_room_ok:
  assumes "good s" and "text_safe J (snapshot_to_json r)"
  shows "\<exists>s'. add_room S J s r = Inr s' \<and> good s' \<and>
     find_room_by_id S J s' (rs_id r) = Inr (r\<lparr>rs_metadata := norm (rs_metadata r)\<rparr>) \<and>
     (\<forall>i. i \<noteq> rs_id r \<longrightarrow> find_room_by_id S J s' i = find_room_by_id S J s i) \<and>
     set (fst (get_list_of_rooms S s')) = insert (rs_id r) (set (fst (get_list_of_rooms S s)))"
proof -
  obtain t where t: "dump J (snapshot_to_json r) = Inr t"
      "parse J t = Inr (norm (snapshot_to_json r))"
    using text_safe_dump [OF assms(2)] by blast
  let ?s = "st_set S s (room_key (rs_id r)) t False"
  have "add_room S J s r = Inr ?s" using t by (simp add: add_room_def)
  moreover have "find_room_by_id S J ?s (rs_id r) = Inr (r\<lparr>rs_metadata := norm (rs_metadata r)\<rparr>)"
    using assms t by (simp add: find_room_by_id_def get_set snapshot_json_back)
  moreover have "find_room_by_id S J ?s i = find_room_by_id S J s i" if "i \<noteq> rs_id r" for i
    using assms that by (simp add: find_room_by_id_def get_set)
  moreover have "set (fst (get_list_of_rooms S ?s)) = insert (rs_id r) (set (fst (get_list_of_rooms S s)))"
    using assms by (auto simp: get_list_of_rooms_def fetch_set set_good set_law room_key_def)
  ultimately show ?thesis using assms by (blast intro: set_good)
qed

lemma remove_room_gone:
  assumes "good s"
  shows "find_room_by_id S J (remove_room S s i) i = Inl (RuntimeError (room_key i @ '' - No data received''))"
    and "set (fst (get_list_of_rooms S (remove_room S s i))) = set (fst (get_list_of_rooms S s)) - {i}"
  using assms
  by (auto simp: find_room_by_id_def remove_room_def get_remove get_list_of_rooms_def fetch_set
      remove_good remove_law room_key_def)

lemma remove_room_other:
  "good s \<Longrightarrow> i' \<noteq> i \<Longrightarrow> find_room_by_id S J (remove_room S s i) i' = find_room_by_id S J s i'"
  by (simp add: find_room_by_id_def remove_room_def get_remove)

lemma listed_iff_stored:
  "good s \<Longrightarrow> i \<in> set (fst (get_list_of_rooms S s)) \<longleftrightarrow> st_get S s (room_key i) \<noteq> None"
  by (simp add: get_list_of_rooms_def fetch_set get_law room_key_def)

lemma found_room_listed:
  "good s \<Longrightarrow> find_room_by_id S J s i = Inr r \<Longrightarrow> i \<in> set (fst (get_list_of_rooms S s))"
  by (auto simp: find_room_by_id_def get_list_of_rooms_def fetch_set get_law room_key_def
      split: option.splits)

lemma set_metadata_ok:
  assumes "good s" and found: "find_room_by_id S J s i = Inr r" and "rs_id r = i"
    and "text_safe J (snapshot_to_json (r\<lparr>rs_metadata := m\<rparr>))"
  shows "\<exists>s'. set_room_metadata S J s i m = Inr s' \<and> good s' \<and>
     find_room_by_id S J s' i = Inr (r\<lparr>rs_metadata := norm m\<rparr>)"
proof -
  let ?r = "r\<lparr>rs_metadata := m\<rparr>"
  obtain t where t: "dump J (snapshot_to_json ?r) = Inr t"
      "parse J t = Inr (norm (snapshot_to_json ?r))"
    using text_safe_dump [OF assms(4)] by blast
  have "set_room_metadata S J s i m = Inr (st_set S s (room_key i) t False)"
    using found assms(3) t by (simp add: set_room_metadata_def)
  moreover have "find_room_by_id S J (st_set S s (room_key i) t False) i = Inr (r\<lparr>rs_metadata := norm m\<rparr>)"
    using assms(1) t(2) snapshot_json_back [of J ?r]
    by (simp add: find_room_by_id_def get_set)
  ultimately show ?thesis using assms(1) by (blast intro: set_good)
qed

lemma collect_rooms_found:
  "good s \<Longrightarrow> collect_rooms S J s ids =
     List.map_filter (\<lambda>i. case find_room_by_id S J s i of Inl e \<Rightarrow> None | Inr r \<Rightarrow> Some r) ids"
  by (induction ids) (auto simp: find_room_by_id_def List.map_filter_def split: option.splits sum.splits)

end

interpretation reg: room_registry "mem_ops now" "mem_get now" mem_good J for now J
  by unfold_locales

end
