(* ===== verification/Game_Values.thy ===== *)
theory Game_Values imports Storage Protocol
begin

text \<open>
  \<open>GameValues\<close> (server/src/game_values.cpp): one JSON object kept under one storage key, without
  expiration.
\<close>

definition gv_set_all :: "'s storage_ops \<Rightarrow> json_lib \<Rightarrow> 's \<Rightarrow> json \<Rightarrow> 's jres" where
  "gv_set_all S J s v = rbind (dump J v) (\<lambda>t. Inr (st_set S s GAME_VALUES t True))"

definition gv_get_all :: "'s storage_ops \<Rightarrow> json_lib \<Rightarrow> 's \<Rightarrow> json" where
  "gv_get_all S J s =
     (case st_get S s GAME_VALUES of
        None \<Rightarrow> empty_object
      | Some raw \<Rightarrow> (case parse J raw of Inl e \<Rightarrow> empty_object | Inr v \<Rightarrow> v))"

definition gv_get :: "'s storage_ops \<Rightarrow> json_lib \<Rightarrow> 's \<Rightarrow> string \<Rightarrow> json \<Rightarrow> json" where
  "gv_get S J s k d = (case jlookup k (gv_get_all S J s) of Some v \<Rightarrow> v | None \<Rightarrow> d)"

definition gv_set :: "'s storage_ops \<Rightarrow> json_lib \<Rightarrow> 's \<Rightarrow> string \<Rightarrow> json \<Rightarrow> 's jres" where
  "gv_set S J s k v = rbind (jassign k v (gv_get_all S J s)) (gv_set_all S J s)"

definition gv_reset :: "'s storage_ops \<Rightarrow> json_lib \<Rightarrow> 's \<Rightarrow> 's jres" where
  "gv_reset S J s = gv_set_all S J s empty_object"

locale game_values = storage_interface S view good
  for S :: "'s storage_ops" and view good +
  fixes J :: json_lib
begin

lemma set_all_get_all:
  assumes "good s" and "text_safe J v"
  shows "\<exists>s'. gv_set_all S J s v = Inr s' \<and> good s' \<and> gv_get_all S J s' = norm v \<and>
     (\<forall>k. k \<noteq> GAME_VALUES \<longrightarrow> st_get S s' k = st_get S s k)"
proof -
  obtain t where "dump J v = Inr t" "parse J t = Inr (norm v)"
    using text_safe_dump [OF assms(2)] by blast
  then show ?thesis
    using assms(1) by (auto simp: gv_set_all_def gv_get_all_def get_set set_good)
qed

lemma set_get:
  assumes "good s" and "gv_get_all S J s = JObject m" and "sorted_obj m"
    and "text_safe J (JObject (obj_set k v m))"
  shows "\<exists>s'. gv_set S J s k v = Inr s' \<and> good s' \<and> gv_get S J s' k d = norm v \<and>
     (\<forall>k'. k' \<noteq> k \<longrightarrow> gv_get S J s' k' d =
        (case map_of m k' of Some u \<Rightarrow> norm u | None \<Rightarrow> d))"
proof -
  obtain s' where s': "gv_set_all S J s (JObject (obj_set k v m)) = Inr s'" "good s'"
      "gv_get_all S J s' = norm (JObject (obj_set k v m))"
    using set_all_get_all [OF assms(1,4)] by blast
  have "gv_set S J s k v = Inr s'"
    using assms(2) s'(1) by (simp add: gv_set_def jassign_def)
  moreover have "gv_get S J s' k' d = (case ((map_of m)(k \<mapsto> v)) k' of Some u \<Rightarrow> norm u | None \<Rightarrow> d)" for k'
    using s'(3) map_of_obj_set [OF assms(3), of k v]
    by (auto simp: gv_get_def jlookup_def map_of_norm split: option.splits)
  ultimately show ?thesis using s'(2) by auto
qed

lemma set_on_non_object:
  "\<not> is_object (gv_get_all S J s) \<Longrightarrow> gv_get_all S J s \<noteq> JNull \<Longrightarrow>
   gv_set S J s k v = Inl (JsonError (IndexOnNonObject (gv_get_all S J s)))"
  by (cases "gv_get_all S J s") (simp_all add: gv_set_def jassign_def)

end

interpretation gv: game_values "mem_ops now" "mem_get now" mem_good J for now J
  by unfold_locales

end
