(* ===== verification/Callbacks.thy ===== *)
theory Callbacks imports Prelude
begin

text \<open>
  \<open>Callback<Args...>\<close> (common/include/blueboat/common/callback.hpp): a vector of callbacks that
  \<open>call\<close> walks with a range-based \<open>for\<close>.  A callback is a value of the type parameter \<open>'f\<close>, run by
  an interpreter \<open>invoke\<close> on a world that holds the table; \<open>get\<close> reads the table from the world
  (\<open>None\<close> once the object that owns it is destroyed) and \<open>put\<close> writes it back.

  \<open>cb_version\<close> counts the structural changes of the vector (\<open>push_back\<close>, an \<open>erase\<close> or \<open>clear\<close>
  that removes something).  C++ leaves the loop undefined when the vector changed under it,
  because the reference \<open>entry\<close> and the end iterator are no longer valid, so the model's loop
  compares the version after each callback.
\<close>

record 'f cb_entry =
  ce_callback :: 'f
  ce_once :: bool
  ce_called_once :: bool
  ce_id :: string

record 'f callbacks =
  cb_entries :: "'f cb_entry list"
  cb_version :: nat

definition cb_empty :: "'f callbacks" where
  "cb_empty = \<lparr>cb_entries = [], cb_version = 0\<rparr>"

text \<open>\<open>add\<close>; the subscription it returns is the identifier its closure captured.\<close>

definition cb_add :: "string \<Rightarrow> 'f \<Rightarrow> bool \<Rightarrow> 'f callbacks \<Rightarrow> string option \<times> 'f callbacks" where
  "cb_add i f once cs =
     (Some i, cs\<lparr>cb_entries := cb_entries cs @
                   [\<lparr>ce_callback = f, ce_once = once, ce_called_once = False, ce_id = i\<rparr>],
                 cb_version := Suc (cb_version cs)\<rparr>)"

definition erase_if :: "('f cb_entry \<Rightarrow> bool) \<Rightarrow> 'f callbacks \<Rightarrow> 'f callbacks" where
  "erase_if p cs =
     (if \<exists>e \<in> set (cb_entries cs). p e
      then cs\<lparr>cb_entries := filter (\<lambda>e. \<not> p e) (cb_entries cs), cb_version := Suc (cb_version cs)\<rparr>
      else cs)"

definition cb_remove :: "string \<Rightarrow> 'f callbacks \<Rightarrow> 'f callbacks" where
  "cb_remove i = erase_if (\<lambda>e. ce_id e = i)"

definition cb_clear :: "'f callbacks \<Rightarrow> 'f callbacks" where
  "cb_clear = erase_if (\<lambda>e. True)"

definition spent :: "'f cb_entry \<Rightarrow> bool" where
  "spent e \<longleftrightarrow> ce_once e \<and> ce_called_once e"

definition cb_remove_called_once :: "'f callbacks \<Rightarrow> 'f callbacks" where
  "cb_remove_called_once = erase_if spent"

text \<open>\<open>Subscription::clear\<close>: the first call removes the entry, later calls do nothing.\<close>

fun sub_clear :: "string option \<Rightarrow> 'f callbacks \<Rightarrow> string option \<times> 'f callbacks" where
  "sub_clear None cs = (None, cs)"
| "sub_clear (Some i) cs = (None, cb_remove i cs)"

definition set_called :: "nat \<Rightarrow> 'f callbacks \<Rightarrow> 'f callbacks" where
  "set_called i cs =
     cs\<lparr>cb_entries := (cb_entries cs)[i := (cb_entries cs ! i)\<lparr>ce_called_once := True\<rparr>]\<rparr>"

definition call_entry ::
  "('f \<Rightarrow> ('j, 'w) step) \<Rightarrow> ('w \<Rightarrow> 'f callbacks option) \<Rightarrow> ('f callbacks \<Rightarrow> 'w \<Rightarrow> 'w) \<Rightarrow>
   nat \<Rightarrow> nat \<Rightarrow> ('j, 'w) step" where
  "call_entry invoke get put v i =
     reading (\<lambda>w. case get w of None \<Rightarrow> undef
       | Some cs \<Rightarrow>
           if spent (cb_entries cs ! i) then skip
           else seq (invoke (ce_callback (cb_entries cs ! i)))
             (reading (\<lambda>w'. case get w' of None \<Rightarrow> undef
                | Some cs' \<Rightarrow> if cb_version cs' \<noteq> v then undef else effect (put (set_called i cs')))))"

definition cb_call ::
  "('f \<Rightarrow> ('j, 'w) step) \<Rightarrow> ('w \<Rightarrow> 'f callbacks option) \<Rightarrow> ('f callbacks \<Rightarrow> 'w \<Rightarrow> 'w) \<Rightarrow>
   ('j, 'w) step" where
  "cb_call invoke get put =
     reading (\<lambda>w. case get w of None \<Rightarrow> undef
       | Some cs \<Rightarrow>
           seq (seqs (call_entry invoke get put (cb_version cs)) [0..<length (cb_entries cs)])
             (reading (\<lambda>w'. case get w' of None \<Rightarrow> undef
                | Some cs' \<Rightarrow> if \<exists>e \<in> set (cb_entries cs'). spent e
                              then effect (put (cb_remove_called_once cs')) else skip)))"

subsection \<open>Basic facts\<close>

lemma cb_remove_ids: "map ce_id (cb_entries (cb_remove i cs)) = filter (\<lambda>j. j \<noteq> i) (map ce_id (cb_entries cs))"
  by (auto simp: cb_remove_def erase_if_def filter_map comp_def intro: filter_id_conv [THEN iffD2, symmetric])

lemma cb_add_remove:
  "i \<notin> ce_id ` set (cb_entries cs) \<Longrightarrow> cb_entries (cb_remove i (snd (cb_add i f once cs))) = cb_entries cs"
  by (auto simp: cb_remove_def erase_if_def cb_add_def filter_id_conv)

lemma sub_clear_twice: "sub_clear (fst (sub_clear s cs)) (snd (sub_clear s cs)) = (None, snd (sub_clear s cs))"
  by (cases s) simp_all

lemma erase_if_entries: "cb_entries (erase_if p cs) = filter (\<lambda>e. \<not> p e) (cb_entries cs)"
  by (auto simp: erase_if_def filter_id_conv)

definition marked :: "'f cb_entry \<Rightarrow> 'f cb_entry" where
  "marked e = (if spent e then e else e\<lparr>ce_called_once := True\<rparr>)"

lemma spent_marked: "spent (marked e) \<longleftrightarrow> ce_once e"
  by (auto simp: marked_def spent_def)

subsection \<open>The table inside a world\<close>

text \<open>
  What \<open>call\<close> needs of the place the table lives in: what is written is read back, and \<open>obs\<close>, the
  rest of the world, does not change when the table is written.
\<close>

locale callback_store =
  fixes get :: "'w \<Rightarrow> 'f callbacks option"
    and put :: "'f callbacks \<Rightarrow> 'w \<Rightarrow> 'w"
    and obs :: "'w \<Rightarrow> 'o"
  assumes get_put: "get w \<noteq> None \<Longrightarrow> get (put cs w) = Some cs"
    and obs_put: "get w \<noteq> None \<Longrightarrow> obs (put cs w) = obs w"
begin

text \<open>
  One iteration of the loop when the callbacks leave the table alone.
\<close>

lemma call_entry_quiet:
  assumes quiet: "\<And>f w cs. get w = Some cs \<Longrightarrow>
      \<exists>w'. invoke f w = (Normal, w') \<and> get w' = Some cs \<and> obs w' = act f (obs w)"
    and cs: "get w = Some cs" and i: "i < length (cb_entries cs)"
  shows "\<exists>w'. call_entry invoke get put (cb_version cs) i w = (Normal, w') \<and>
      get w' = Some (cs\<lparr>cb_entries := (cb_entries cs)[i := marked (cb_entries cs ! i)]\<rparr>) \<and>
      obs w' = (if spent (cb_entries cs ! i) then obs w else act (ce_callback (cb_entries cs ! i)) (obs w))"
proof (cases "spent (cb_entries cs ! i)")
  case True
  then show ?thesis
    using cs by (simp add: call_entry_def reading_def skip_def marked_def)
next
  case False
  obtain w' where w': "invoke (ce_callback (cb_entries cs ! i)) w = (Normal, w')"
      "get w' = Some cs" "obs w' = act (ce_callback (cb_entries cs ! i)) (obs w)"
    using quiet [OF cs] by blast
  then show ?thesis
    using cs False
    by (simp add: call_entry_def reading_def effect_def set_called_def marked_def get_put obs_put)
qed

lemma call_loop_quiet:
  assumes quiet: "\<And>f w cs. get w = Some cs \<Longrightarrow>
      \<exists>w'. invoke f w = (Normal, w') \<and> get w' = Some cs \<and> obs w' = act f (obs w)"
  shows "get w = Some cs \<Longrightarrow> i \<le> length (cb_entries cs) \<Longrightarrow>
    \<exists>w'. seqs (call_entry invoke get put (cb_version cs)) [i..<length (cb_entries cs)] w = (Normal, w') \<and>
      get w' = Some (cs\<lparr>cb_entries := take i (cb_entries cs) @ map marked (drop i (cb_entries cs))\<rparr>) \<and>
      obs w' = fold act (map ce_callback (filter (\<lambda>e. \<not> spent e) (drop i (cb_entries cs)))) (obs w)"
proof (induction "length (cb_entries cs) - i" arbitrary: i w cs)
  case 0
  then show ?case by (simp add: skip_def)
next
  case (Suc d)
  let ?es = "cb_entries cs"
  let ?cs = "cs\<lparr>cb_entries := ?es[i := marked (?es ! i)]\<rparr>"
  have i: "i < length ?es" using Suc.hyps(2) by simp
  obtain u where u: "call_entry invoke get put (cb_version cs) i w = (Normal, u)"
      "get u = Some ?cs"
      "obs u = (if spent (?es ! i) then obs w else act (ce_callback (?es ! i)) (obs w))"
    using call_entry_quiet [of invoke act, OF quiet Suc.prems(1) i] by blast
  have "d = length (cb_entries ?cs) - Suc i" using Suc.hyps(2) by simp
  from Suc.hyps(1) [OF this u(2)] i
  obtain w' where w': "seqs (call_entry invoke get put (cb_version cs)) [Suc i..<length ?es] u = (Normal, w')"
      "get w' = Some (?cs\<lparr>cb_entries := take (Suc i) (cb_entries ?cs) @ map marked (drop (Suc i) (cb_entries ?cs))\<rparr>)"
      "obs w' = fold act (map ce_callback (filter (\<lambda>e. \<not> spent e) (drop (Suc i) (cb_entries ?cs)))) (obs u)"
    by auto
  have "drop i ?es = ?es ! i # drop (Suc i) ?es" using i by (rule Cons_nth_drop_Suc [symmetric])
  moreover have "take (Suc i) (?es[i := marked (?es ! i)]) = take i ?es @ [marked (?es ! i)]"
    using i by (simp add: take_Suc_conv_app_nth)
  ultimately show ?case
    using i u w' by (simp add: upt_rec [of i])
qed

lemma call_quiet:
  assumes quiet: "\<And>f w cs. get w = Some cs \<Longrightarrow>
      \<exists>w'. invoke f w = (Normal, w') \<and> get w' = Some cs \<and> obs w' = act f (obs w)"
    and cs: "get w = Some cs"
  shows "\<exists>w' cs'. cb_call invoke get put w = (Normal, w') \<and> get w' = Some cs' \<and>
      cb_entries cs' = map marked (filter (\<lambda>e. \<not> ce_once e) (cb_entries cs)) \<and>
      obs w' = fold act (map ce_callback (filter (\<lambda>e. \<not> spent e) (cb_entries cs))) (obs w)"
proof -
  let ?cs = "cs\<lparr>cb_entries := map marked (cb_entries cs)\<rparr>"
  have loop: "\<exists>u. seqs (call_entry invoke get put (cb_version cs)) [0..<length (cb_entries cs)] w = (Normal, u) \<and>
      get u = Some ?cs \<and>
      obs u = fold act (map ce_callback (filter (\<lambda>e. \<not> spent e) (cb_entries cs))) (obs w)"
    using call_loop_quiet [of invoke act, OF quiet cs, of 0] by auto
  then obtain u where u: "seqs (call_entry invoke get put (cb_version cs)) [0..<length (cb_entries cs)] w = (Normal, u)"
      "get u = Some ?cs"
      "obs u = fold act (map ce_callback (filter (\<lambda>e. \<not> spent e) (cb_entries cs))) (obs w)"
    by blast
  have entries: "filter (\<lambda>e. \<not> spent e) (map marked (cb_entries cs)) = map marked (filter (\<lambda>e. \<not> ce_once e) (cb_entries cs))"
    by (simp add: filter_map comp_def spent_marked)
  show ?thesis
  proof (cases "\<exists>e \<in> set (cb_entries ?cs). spent e")
    case True
    then show ?thesis
      using cs u entries
      by (auto simp: cb_call_def reading_def effect_def get_put obs_put cb_remove_called_once_def erase_if_entries)
  next
    case False
    then have "filter (\<lambda>e. \<not> spent e) (map marked (cb_entries cs)) = map marked (cb_entries cs)"
      by (auto simp: filter_id_conv)
    with False show ?thesis
      using cs u entries by (auto simp: cb_call_def reading_def skip_def)
  qed
qed

text \<open>
  The same for callbacks of which only an invariant \<open>I\<close> is known: the walk returns and keeps \<open>I\<close>
  when single callbacks do and writes of the table keep it.  Only callbacks with \<open>ok\<close> matter, if
  all callbacks of the table have it.
\<close>

lemma call_returns:
  assumes quiet: "\<And>f w cs. I w \<Longrightarrow> get w = Some cs \<Longrightarrow> ok f \<Longrightarrow>
      \<exists>w'. invoke f w = (Normal, w') \<and> get w' = Some cs \<and> I w'"
    and put: "\<And>w cs. I w \<Longrightarrow> get w \<noteq> None \<Longrightarrow> I (put cs w)"
    and start: "I w" "get w = Some cs" and ok: "\<forall>f \<in> ce_callback ` set (cb_entries cs). ok f"
  shows "\<exists>w'. cb_call invoke get put w = (Normal, w') \<and> get w' \<noteq> None \<and> I w'"
proof -
  let ?good = "\<lambda>w v k. I w \<and> (\<exists>cs. get w = Some cs \<and> cb_version cs = v \<and> length (cb_entries cs) = k \<and>
      (\<forall>f \<in> ce_callback ` set (cb_entries cs). ok f))"
  have entry: "\<exists>w'. call_entry invoke get put v i w = (Normal, w') \<and> ?good w' v k"
    if good: "?good w v k" and i: "i < k" for w v i k
  proof -
    from good obtain cs where cs: "get w = Some cs" "cb_version cs = v" "length (cb_entries cs) = k"
        "\<forall>f \<in> ce_callback ` set (cb_entries cs). ok f" and I: "I w" by blast
    show ?thesis
    proof (cases "spent (cb_entries cs ! i)")
      case True
      with cs I show ?thesis by (simp add: call_entry_def reading_def skip_def)
    next
      case False
      have "ok (ce_callback (cb_entries cs ! i))" using cs(3,4) i by simp
      from quiet [OF I cs(1) this] obtain w' where
          w': "invoke (ce_callback (cb_entries cs ! i)) w = (Normal, w')" "get w' = Some cs" "I w'"
        by blast
      have "I (put (set_called i cs) w')" using w' put by blast
      moreover have "\<forall>f \<in> ce_callback ` set (cb_entries (set_called i cs)). ok f"
        using cs(3,4) i set_update_subset_insert [of "cb_entries cs" i] by (fastforce simp: set_called_def)
      ultimately show ?thesis
        using w' cs False
        by (simp add: call_entry_def reading_def effect_def get_put) (simp add: set_called_def)
    qed
  qed
  have loop: "\<exists>w'. seqs (call_entry invoke get put v) is w = (Normal, w') \<and> ?good w' v k"
    if "?good w v k" and "\<forall>i \<in> set is. i < k" for w v k "is"
    using that
  proof (induction "is" arbitrary: w)
    case Nil
    then show ?case by (auto simp: skip_def)
  next
    case (Cons i "is")
    have "i < k" using Cons.prems(2) by simp
    from entry [OF Cons.prems(1) this] obtain u where
        u: "call_entry invoke get put v i w = (Normal, u)" "?good u v k"
      by blast
    have "\<forall>i \<in> set is. i < k" using Cons.prems(2) by simp
    from Cons.IH [OF u(2) this] u show ?case by auto
  qed
  have "?good w (cb_version cs) (length (cb_entries cs))" using start ok by blast
  from loop [OF this, of "[0..<length (cb_entries cs)]"] obtain u cs1 where
      u: "seqs (call_entry invoke get put (cb_version cs)) [0..<length (cb_entries cs)] w = (Normal, u)"
      "get u = Some cs1" "I u"
    by auto
  then have "I (put (cb_remove_called_once cs1) u)" using put by blast
  with start u show ?thesis
    by (auto simp: cb_call_def reading_def effect_def skip_def get_put)
qed

text \<open>
  A callback that changes the table it is called from, as a listener that clears its own
  subscription does, makes the loop undefined.
\<close>

lemma call_entry_self_change:
  assumes "get w = Some cs" and "\<not> spent (cb_entries cs ! i)"
    and "invoke (ce_callback (cb_entries cs ! i)) w = (Normal, w')" and "get w' = Some cs'"
    and "cb_version cs' \<noteq> cb_version cs"
  shows "fst (call_entry invoke get put (cb_version cs) i w) = Undefined"
  using assms by (simp add: call_entry_def reading_def undef_def)

lemma call_self_change:
  assumes cs: "get w = Some cs" and es: "cb_entries cs = e # es" and live: "\<not> spent e"
    and inv: "invoke (ce_callback e) w = (Normal, w')" and cs': "get w' = Some cs'"
    and ch: "cb_version cs' \<noteq> cb_version cs"
  shows "fst (cb_call invoke get put w) = Undefined"
proof -
  have "fst (call_entry invoke get put (cb_version cs) 0 w) = Undefined"
    using call_entry_self_change [OF cs _ _ cs' ch, of 0 invoke] es live inv by simp
  moreover have "[0..<length (cb_entries cs)] = 0 # [1..<length (cb_entries cs)]"
    using es by (simp add: upt_rec)
  ultimately show ?thesis
    using cs by (cases "call_entry invoke get put (cb_version cs) 0 w")
      (simp add: cb_call_def reading_def seq_def)
qed

end

end
