(* ===== verification/Scheduler.thy ===== *)
theory Scheduler imports Prelude
begin

text \<open>
  The timer thread (common/src/scheduler.cpp, scheduler.hpp): a vector of tasks, each with its due
  time, its callback and a shared cancellation flag.  The flag, a
  \<open>shared_ptr<atomic<bool>>\<close>, is a number; \<open>sc_cancelled\<close> holds the flags that are set.
  \<open>sched_turn\<close> is one turn of the loop of \<open>Impl::run\<close>: it says what the worker does next, and a
  callback to run is handed out to be run without the lock.
\<close>

record 'c task =
  tk_due :: int
  tk_callback :: 'c
  tk_flag :: nat

record 'c sched =
  sc_tasks :: "'c task list"
  sc_cancelled :: "nat \<Rightarrow> bool"
  sc_next_flag :: nat
  sc_stopping :: bool

type_synonym timer_handle = "nat option"

definition sched_init :: "'c sched" where
  "sched_init = \<lparr>sc_tasks = [], sc_cancelled = (\<lambda>_. False), sc_next_flag = 0, sc_stopping = False\<rparr>"

definition set_timeout :: "int \<Rightarrow> int \<Rightarrow> 'c \<Rightarrow> 'c sched \<Rightarrow> timer_handle \<times> 'c sched" where
  "set_timeout now delay f s =
     (let fl = sc_next_flag s in
      (Some fl, s\<lparr>sc_tasks := sc_tasks s @ [\<lparr>tk_due = now + delay, tk_callback = f, tk_flag = fl\<rparr>],
                  sc_next_flag := Suc fl\<rparr>))"

text \<open>\<open>TimerHandle::clear\<close>: an empty handle does nothing.\<close>

fun timer_clear :: "timer_handle \<Rightarrow> 'c sched \<Rightarrow> 'c sched" where
  "timer_clear None s = s"
| "timer_clear (Some fl) s = s\<lparr>sc_cancelled := (sc_cancelled s)(fl := True)\<rparr>"

text \<open>\<open>std::min_element\<close> with the comparison by due time: the first smallest.\<close>

fun min_task :: "'c task \<Rightarrow> 'c task list \<Rightarrow> 'c task" where
  "min_task best [] = best"
| "min_task best (t # ts) = (if tk_due t < tk_due best then min_task t ts else min_task best ts)"

datatype 'c turn = Stop | Wait | WaitUntil int | Dropped "'c task" | Run "'c task"

definition sched_turn :: "int \<Rightarrow> 'c sched \<Rightarrow> 'c turn \<times> 'c sched" where
  "sched_turn now s =
     (if sc_stopping s then (Stop, s)
      else (case sc_tasks s of
          [] \<Rightarrow> (Wait, s)
        | t # ts \<Rightarrow>
            let next = min_task t ts in
            if tk_due next > now then (WaitUntil (tk_due next), s)
            else
              let s' = s\<lparr>sc_tasks := remove1 next (sc_tasks s)\<rparr> in
              if sc_cancelled s (tk_flag next) then (Dropped next, s') else (Run next, s')))"

definition request_stop :: "'c sched \<Rightarrow> 'c sched" where
  "request_stop s = s\<lparr>sc_stopping := True\<rparr>"

subsection \<open>The task that is chosen\<close>

lemma min_task_in: "min_task b ts \<in> set (b # ts)"
  by (induction b ts rule: min_task.induct) auto

lemma min_task_least: "\<forall>t \<in> set (b # ts). tk_due (min_task b ts) \<le> tk_due t"
proof (induction b ts rule: min_task.induct)
  case (2 best t ts)
  then show ?case by (cases "tk_due t < tk_due best") fastforce+
qed simp

text \<open>
  The chosen task is the first of its due time: every task before it in the vector is due later.
\<close>

lemma min_task_first:
  "\<exists>xs ys. b # ts = xs @ min_task b ts # ys \<and> (\<forall>x \<in> set xs. tk_due (min_task b ts) < tk_due x)"
proof (induction b ts rule: min_task.induct)
  case (1 best)
  show ?case by (rule exI [of _ "[]"]) simp
next
  case (2 best t ts)
  show ?case
  proof (cases "tk_due t < tk_due best")
    case True
    with 2(1) obtain xs ys where xs: "t # ts = xs @ min_task t ts # ys"
        "\<forall>x \<in> set xs. tk_due (min_task t ts) < tk_due x" by blast
    have "tk_due (min_task t ts) < tk_due best"
      using min_task_least [of t ts] True by simp
    with xs have "best # t # ts = (best # xs) @ min_task t ts # ys"
        "\<forall>x \<in> set (best # xs). tk_due (min_task t ts) < tk_due x" by simp_all
    with True show ?thesis by (metis min_task.simps(2))
  next
    case False
    with 2(2) obtain xs ys where xs: "best # ts = xs @ min_task best ts # ys"
        "\<forall>x \<in> set xs. tk_due (min_task best ts) < tk_due x" by blast
    show ?thesis
    proof (cases xs)
      case Nil
      from xs(1) [unfolded Nil] have "min_task best ts = best" "ys = ts" by auto
      then have "best # t # ts = [] @ min_task best ts # t # ys" by simp
      with False show ?thesis by (metis empty_iff list.set(1) min_task.simps(2))
    next
      case (Cons x xs')
      have "tk_due (min_task best ts) < tk_due best" using xs Cons by simp
      with False xs Cons have "best # t # ts = (best # t # xs') @ min_task best ts # ys"
          "\<forall>x \<in> set (best # t # xs'). tk_due (min_task best ts) < tk_due x" by auto
      with False show ?thesis by (metis min_task.simps(2))
    qed
  qed
qed

lemma turn_tasks:
  assumes "sched_turn now s = (tu, s')"
  shows "set (sc_tasks s') \<subseteq> set (sc_tasks s)" "sc_cancelled s' = sc_cancelled s"
    "tu = Run t \<Longrightarrow> t \<in> set (sc_tasks s) \<and> \<not> sc_cancelled s (tk_flag t)"
  using assms min_task_in set_remove1_subset
  by (fastforce simp: sched_turn_def Let_def split: if_splits list.splits simp del: remove1.simps)+

lemma turn_cases:
  assumes "sched_turn now s = (tu, s')"
  obtains (stop) "sc_stopping s" "tu = Stop" "s' = s"
    | (wait) "\<not> sc_stopping s" "sc_tasks s = []" "tu = Wait" "s' = s"
    | (until) t ts where "\<not> sc_stopping s" "sc_tasks s = t # ts" "tk_due (min_task t ts) > now"
        "tu = WaitUntil (tk_due (min_task t ts))" "s' = s"
    | (drop) t ts where "\<not> sc_stopping s" "sc_tasks s = t # ts" "tk_due (min_task t ts) \<le> now"
        "sc_cancelled s (tk_flag (min_task t ts))" "tu = Dropped (min_task t ts)"
        "s' = s\<lparr>sc_tasks := remove1 (min_task t ts) (t # ts)\<rparr>"
    | (run) t ts where "\<not> sc_stopping s" "sc_tasks s = t # ts" "tk_due (min_task t ts) \<le> now"
        "\<not> sc_cancelled s (tk_flag (min_task t ts))" "tu = Run (min_task t ts)"
        "s' = s\<lparr>sc_tasks := remove1 (min_task t ts) (t # ts)\<rparr>"
  using assms
  by (auto simp: sched_turn_def Let_def split: if_splits list.splits)

lemma length_remove_min: "length (remove1 (min_task t ts) (t # ts)) < length (t # ts)"
proof -
  have "min_task t ts \<in> set (t # ts)" by (rule min_task_in)
  then have "length (remove1 (min_task t ts) (t # ts)) = length (t # ts) - 1"
    by (simp only: length_remove1 if_True)
  then show ?thesis by simp
qed

lemma turn_shrinks:
  assumes "sched_turn now s = (tu, s')" and "tu = Run k \<or> tu = Dropped k"
  shows "length (sc_tasks s') < length (sc_tasks s)"
  using assms(1)
proof (cases rule: turn_cases)
  case (drop t ts)
  then show ?thesis using length_remove_min [of t ts] by (simp del: remove1.simps)
next
  case (run t ts)
  then show ?thesis using length_remove_min [of t ts] by (simp del: remove1.simps)
qed (use assms(2) in simp_all)

subsection \<open>Serving everything that is due\<close>

text \<open>
  Turns at one moment of the clock until the worker stops or waits, the callbacks run collected in
  order; callbacks that schedule or cancel tasks are the subject of the turn-level facts above.
\<close>

function serve :: "int \<Rightarrow> 'c sched \<Rightarrow> 'c task list" where
  "serve now s =
     (case sched_turn now s of
        (Run k, s') \<Rightarrow> k # serve now s'
      | (Dropped k, s') \<Rightarrow> serve now s'
      | _ \<Rightarrow> [])"
  by pat_completeness auto
termination
  by (relation "measure (\<lambda>(now, s). length (sc_tasks s))") (auto dest: turn_shrinks [OF sym])

declare serve.simps [simp del]

lemma remove1_split: "x \<notin> set xs \<Longrightarrow> remove1 x (xs @ x # ys) = xs @ ys"
  by (induction xs) auto

lemma sort_key_first_min:
  "\<forall>x \<in> set xs. f m < f x \<Longrightarrow> \<forall>x \<in> set ys. f m \<le> f x \<Longrightarrow>
   sort_key f (xs @ m # ys) = m # sort_key f (xs @ ys)"
  by (induction xs) (auto simp: insort_is_Cons)

definition live_due :: "int \<Rightarrow> 'c sched \<Rightarrow> 'c task list" where
  "live_due now s =
     filter (\<lambda>k. \<not> sc_cancelled s (tk_flag k)) (sort_key tk_due (filter (\<lambda>k. tk_due k \<le> now) (sc_tasks s)))"

text \<open>Taking the chosen task out of the vector takes the head off the sorted list of due tasks.\<close>

lemma due_sorted_step:
  assumes "tk_due (min_task t ts) \<le> now"
  shows "sort_key tk_due (filter (\<lambda>k. tk_due k \<le> now) (t # ts)) =
     min_task t ts # sort_key tk_due (filter (\<lambda>k. tk_due k \<le> now) (remove1 (min_task t ts) (t # ts)))"
proof -
  let ?m = "min_task t ts" and ?F = "filter (\<lambda>k. tk_due k \<le> now)"
  obtain xs ys where xs: "t # ts = xs @ ?m # ys" "\<forall>x \<in> set xs. tk_due ?m < tk_due x"
    using min_task_first by blast
  have ys: "\<forall>y \<in> set (?F ys). tk_due ?m \<le> tk_due y"
    using min_task_least [of t ts] unfolding xs(1) by simp
  have "?m \<notin> set xs" using xs(2) by auto
  then have "remove1 ?m (t # ts) = xs @ ys"
    by (metis xs(1) remove1_split)
  moreover have "sort_key tk_due (?F (xs @ ?m # ys)) = ?m # sort_key tk_due (?F (xs @ ys))"
    using sort_key_first_min [of "?F xs" tk_due ?m "?F ys"] xs(2) ys assms by simp
  ultimately show ?thesis
    by (metis xs(1))
qed

lemma live_due_step:
  assumes "sc_tasks s = t # ts" and "tk_due (min_task t ts) \<le> now"
  shows "live_due now s =
    (if sc_cancelled s (tk_flag (min_task t ts)) then [] else [min_task t ts]) @
    live_due now (s\<lparr>sc_tasks := remove1 (min_task t ts) (t # ts)\<rparr>)"
  unfolding live_due_def assms(1) due_sorted_step [OF assms(2)]
  by (simp del: remove1.simps)

lemma serve_live_due: "\<not> sc_stopping s \<Longrightarrow> serve now s = live_due now s"
proof (induction now s rule: serve.induct)
  case (1 now s)
  obtain tu s' where turn: "sched_turn now s = (tu, s')" by (cases "sched_turn now s")
  from turn show ?case
  proof (cases rule: turn_cases)
    case wait
    with turn show ?thesis by (simp add: serve.simps [of now s] live_due_def)
  next
    case (until t ts)
    then have "filter (\<lambda>k. tk_due k \<le> now) (t # ts) = []"
      using min_task_least [of t ts] by (fastforce simp: filter_empty_conv)
    then have "live_due now s = []"
      using until(2) by (simp only: live_due_def sort_key_simps filter.simps)
    with until turn show ?thesis by (simp add: serve.simps [of now s])
  next
    case (drop t ts)
    let ?s = "s\<lparr>sc_tasks := remove1 (min_task t ts) (t # ts)\<rparr>"
    have "serve now s = serve now ?s" using turn drop(5,6) by (simp add: serve.simps [of now s] del: remove1.simps)
    also have "\<dots> = live_due now ?s" using 1 turn drop by (simp del: remove1.simps)
    also have "\<dots> = live_due now s"
      using live_due_step [OF drop(2,3)] drop(4) by simp
    finally show ?thesis .
  next
    case (run t ts)
    let ?s = "s\<lparr>sc_tasks := remove1 (min_task t ts) (t # ts)\<rparr>"
    have "serve now s = min_task t ts # serve now ?s"
      using turn run(5,6) by (simp add: serve.simps [of now s] del: remove1.simps)
    also have "serve now ?s = live_due now ?s" using 1 turn run by (simp del: remove1.simps)
    also have "min_task t ts # live_due now ?s = live_due now s"
      using live_due_step [OF run(2,3)] run(4) by simp
    finally show ?thesis .
  qed (use 1 in simp)
qed

end
