(* ===== verification/World.thy ===== *)
theory World imports Registry Game_Values Pubsub Callbacks Scheduler
begin

text \<open>
  The state of a running server process as the code under the game lock sees it: the heap of
  \<open>Room\<close> objects, the tables of \<open>Server\<close> (server/include/blueboat/server.hpp), the storage, the
  listener table and the timers, and the parameters that stand for code outside the repository.

  A \<open>Room\<close> object has an address.  The pub/sub handlers and the timer callbacks, closures that
  capture \<open>this\<close>, are constructors that carry the address; using an address whose object has been
  destroyed is undefined behaviour.
\<close>

subsection \<open>Rooms\<close>

text \<open>
  The join listeners: the closure installed by \<open>allow_reconnection\<close> for a client identifier and a
  pending reconnection, or a callback of the user's.  Leave listeners are the user's only.
\<close>

datatype join_cb = Reconnect string nat | UserJoin nat

record room =
  rm_id :: string
  rm_type :: string
  rm_owner :: simple_client
  rm_options :: json
  rm_creator_options :: json
  rm_initial_game_values :: json
  rm_state :: json
  rm_metadata :: json
  rm_clients :: "simple_client list"
  rm_disposing :: bool
  rm_join_listeners :: "join_cb callbacks"
  rm_leave_listeners :: "nat callbacks"
  rm_game_message_sub :: subscription
  rm_player_left_sub :: subscription
  rm_auto_dispose_timer :: timer_handle

text \<open>
  What code in a subclass of \<open>Room\<close> can do through the public interface of \<open>Room\<close> and \<open>Client\<close>.
  A hook is a list of such calls, each chosen from the room as it is at that moment;
  \<open>NoAct\<close> is a branch not taken.  (\<open>allow_reconnection\<close>, which blocks, is modelled apart, as the
  two halves before and after the wait.)
\<close>

datatype act =
    SetState json
  | Broadcast string json
  | SetMetadata json
  | Dispose
  | SendTo string string json
  | RemoveFromRoom string
  | ThrowExn jexn
  | NoAct

type_synonym prog = "(room \<Rightarrow> act) list"

record hooks =
  hk_create :: "json \<Rightarrow> prog"
  hk_can_join :: "simple_client \<Rightarrow> json \<Rightarrow> prog"
  hk_join :: "simple_client \<Rightarrow> json \<Rightarrow> prog"
  hk_message :: "simple_client \<Rightarrow> string \<Rightarrow> json \<Rightarrow> prog"
  hk_leave :: "simple_client \<Rightarrow> bool \<Rightarrow> prog"
  hk_before_dispose :: prog
  hk_dispose :: prog
  hk_external :: "string \<Rightarrow> json \<Rightarrow> prog"
  hk_join_cb :: "nat \<Rightarrow> simple_client \<Rightarrow> prog"
  hk_leave_cb :: "nat \<Rightarrow> simple_client \<Rightarrow> bool \<Rightarrow> prog"

datatype hook_name =
  OnCreate | CanClientJoin | OnJoin | OnMessage | OnLeave | BeforeDispose | OnDispose | OnExternalMessage

subsection \<open>Closures stored outside a room\<close>

datatype handler = GameMessage nat | PlayerLeft nat | AdminInfo nat

datatype timer_cb = AutoDispose nat | ReconnectTimeout nat string nat

text \<open>The promise, the \<open>resolved\<close> flag, the listener and the timer of one \<open>allow_reconnection\<close>.\<close>

record pending =
  pd_resolved :: bool
  pd_result :: "bool option"
  pd_join_sub :: "string option"
  pd_timer :: timer_handle

text \<open>The arguments of \<open>http::write_response\<close>, for the request of one connection thread.\<close>

record reply =
  rp_status :: nat
  rp_status_text :: string
  rp_content_type :: string
  rp_body :: string
  rp_extra_headers :: "(string \<times> string) list"

subsection \<open>The world\<close>

record world =
  w_storage :: mem_storage
  w_pubsub :: "handler pubsub"
  w_sched :: "timer_cb sched"
  w_rooms :: "nat \<Rightarrow> room option"
  w_next_room :: nat
  w_managing :: "(string \<times> nat) list"
  w_registered :: "(string \<times> json) list"
  w_connections :: "(string \<times> simple_client) list"
  w_activity :: "(string \<times> int) list"
  w_ws_closed :: "string list"
  w_frames :: "(string \<times> string \<times> json) list"
  w_admin :: "(nat \<times> json) list"
  w_pending :: "nat \<Rightarrow> pending option"
  w_next_pending :: nat
  w_log :: "(nat \<times> hook_name) list"
  w_ids :: nat
  w_now :: int
  w_wall_ms :: "64 word"
  w_texts :: "(string \<times> string) list"
  w_replies :: "(nat \<times> reply) list"
  w_raw :: "(nat \<times> string) list"

text \<open>
  \<open>e_rid i\<close> is the \<open>i\<close>-th identifier drawn from \<open>random_id()\<close>; \<open>e_hooks\<close> the virtual methods of
  the room class registered under a name; \<open>e_idgen\<close> the optional \<open>custom_room_id_generator_\<close>, which
  may throw, and may answer differently each time (its last argument counts the identifiers drawn).
\<close>

record env =
  e_json :: json_lib
  e_rid :: "nat \<Rightarrow> string"
  e_hooks :: "string \<Rightarrow> hooks"
  e_idgen :: "(string \<Rightarrow> json \<Rightarrow> json \<Rightarrow> nat \<Rightarrow> string jres) option"

type_synonym wstep = "world jstep"

definition empty_world :: world where
  "empty_world = \<lparr>w_storage = [], w_pubsub = [], w_sched = sched_init, w_rooms = (\<lambda>_. None),
     w_next_room = 0, w_managing = [], w_registered = [], w_connections = [], w_activity = [],
     w_ws_closed = [], w_frames = [], w_admin = [], w_pending = (\<lambda>_. None), w_next_pending = 0,
     w_log = [], w_ids = 0, w_now = 0, w_wall_ms = 0, w_texts = [], w_replies = [], w_raw = []\<rparr>"

text \<open>The storage as \<open>RoomFetcher\<close> and \<open>GameValues\<close> see it at the current time.\<close>

abbreviation sops :: "world \<Rightarrow> mem_storage storage_ops" where
  "sops w \<equiv> mem_ops (w_now w)"

subsection \<open>Access to a room object\<close>

definition with_room :: "nat \<Rightarrow> (room \<Rightarrow> wstep) \<Rightarrow> wstep" where
  "with_room a f = reading (\<lambda>w. case w_rooms w a of None \<Rightarrow> undef | Some r \<Rightarrow> f r)"

definition set_room :: "nat \<Rightarrow> (room \<Rightarrow> room) \<Rightarrow> wstep" where
  "set_room a f = with_room a (\<lambda>r. effect (\<lambda>w. w\<lparr>w_rooms := (w_rooms w)(a \<mapsto> f r)\<rparr>))"

definition log_hook :: "nat \<Rightarrow> hook_name \<Rightarrow> wstep" where
  "log_hook a h = effect (\<lambda>w. w\<lparr>w_log := w_log w @ [(a, h)]\<rparr>)"

text \<open>\<open>random_id()\<close>\<close>

definition random_id :: "env \<Rightarrow> (string \<Rightarrow> wstep) \<Rightarrow> wstep" where
  "random_id E k = reading (\<lambda>w. seq (effect (\<lambda>w. w\<lparr>w_ids := Suc (w_ids w)\<rparr>)) (k (e_rid E (w_ids w))))"

text \<open>\<open>Server::send_frame_to_client\<close>: a frame to a session that is no longer connected is dropped.\<close>

definition send_frame_to_client :: "string \<Rightarrow> string \<Rightarrow> json \<Rightarrow> wstep" where
  "send_frame_to_client sid event data =
     reading (\<lambda>w. case map_of (w_connections w) sid of
         None \<Rightarrow> skip
       | Some conn \<Rightarrow> effect (\<lambda>w. w\<lparr>w_frames := w_frames w @ [(sid, event, data)]\<rparr>))"

text \<open>\<open>Server::on_room_disposed\<close>: erasing the \<open>unique_ptr\<close> destroys the room it owns.\<close>

definition on_room_disposed :: "string \<Rightarrow> wstep" where
  "on_room_disposed i =
     reading (\<lambda>w. case map_of (w_managing w) i of
         None \<Rightarrow> skip
       | Some b \<Rightarrow> effect (\<lambda>w. w\<lparr>w_managing := AList.delete i (w_managing w),
                                 w_rooms := (w_rooms w)(b := None)\<rparr>))"

lemma with_room_Some [simp]: "w_rooms w a = Some r \<Longrightarrow> with_room a f w = f r w"
  by (simp add: with_room_def reading_def)

lemma with_room_None [simp]: "w_rooms w a = None \<Longrightarrow> with_room a f w = (Undefined, w)"
  by (simp add: with_room_def reading_def undef_def)

lemma set_room_Some [simp]:
  "w_rooms w a = Some r \<Longrightarrow> set_room a f w = (Normal, w\<lparr>w_rooms := (w_rooms w)(a \<mapsto> f r)\<rparr>)"
  by (simp add: set_room_def effect_def)

lemma set_room_None [simp]: "w_rooms w a = None \<Longrightarrow> set_room a f w = (Undefined, w)"
  by (simp add: set_room_def)

lemma keeps_with_room [keeps_rules]: "(\<And>r. keeps P (f r)) \<Longrightarrow> keeps P (with_room a f)"
  by (auto simp: with_room_def intro!: keeps_rules)

lemma keeps_set_room:
  "(\<And>w r. P w \<Longrightarrow> w_rooms w a = Some r \<Longrightarrow> P (w\<lparr>w_rooms := (w_rooms w)(a \<mapsto> f r)\<rparr>)) \<Longrightarrow>
   keeps P (set_room a f)"
  unfolding keeps_def by (metis not_None_eq set_room_None set_room_Some snd_conv)

end
