(* ===== verification/Room.thy ===== *)
theory Room imports World
begin

text \<open>
  \<open>Room\<close> (server/src/room.cpp, server/include/blueboat/room.hpp): joining, leaving, messages and
  disposal, with the user's hooks run where the code calls them.  Hooks can call back into the room
  (a hook that disposes the room, a hook that removes a client), so \<open>run_prog\<close>, \<open>remove_client\<close> and
  \<open>dispose\<close> are mutually recursive; their first number is the recursion bound, and
  \<open>room_ops_fuel\<close> shows how much is enough.

  A room is always created through \<open>Server::create_new_room\<close>, which sets \<open>room_fetcher_\<close>,
  \<open>pubsub_\<close>, \<open>on_room_disposed_\<close> and \<open>send_frame_to_client_\<close>, so the null checks on them succeed.
\<close>

subsection \<open>Sending and metadata\<close>

text \<open>\<open>Client::send\<close>: the closure of \<open>add_client\<close> wraps the message and uses the room's id.\<close>

definition client_send :: "nat \<Rightarrow> string \<Rightarrow> string \<Rightarrow> json \<Rightarrow> wstep" where
  "client_send a sid key data =
     with_room a (\<lambda>r. send_frame_to_client sid (''message-'' @ rm_id r)
                        (jobj [(''key'', JString key), (''data'', data)]))"

definition broadcast :: "nat \<Rightarrow> string \<Rightarrow> json \<Rightarrow> wstep" where
  "broadcast a key data =
     with_room a (\<lambda>r. seqs (\<lambda>c. client_send a (sc_session_id c) key data) (rm_clients r))"

definition set_metadata :: "env \<Rightarrow> nat \<Rightarrow> json \<Rightarrow> wstep" where
  "set_metadata E a m =
     seq (with_room a (\<lambda>r. reading (\<lambda>w.
            from_res (set_room_metadata (sops w) (e_json E) (w_storage w) (rm_id r) m)
              (\<lambda>s. effect (\<lambda>w. w\<lparr>w_storage := s\<rparr>)))))
         (set_room a (\<lambda>r. r\<lparr>rm_metadata := m\<rparr>))"

subsection \<open>Listener tables of a room\<close>

definition get_leave :: "nat \<Rightarrow> world \<Rightarrow> nat callbacks option" where
  "get_leave a w = map_option rm_leave_listeners (w_rooms w a)"

definition put_leave :: "nat \<Rightarrow> nat callbacks \<Rightarrow> world \<Rightarrow> world" where
  "put_leave a cs w =
     w\<lparr>w_rooms := (w_rooms w)(a := map_option (\<lambda>r. r\<lparr>rm_leave_listeners := cs\<rparr>) (w_rooms w a))\<rparr>"

definition get_join :: "nat \<Rightarrow> world \<Rightarrow> join_cb callbacks option" where
  "get_join a w = map_option rm_join_listeners (w_rooms w a)"

definition put_join :: "nat \<Rightarrow> join_cb callbacks \<Rightarrow> world \<Rightarrow> world" where
  "put_join a cs w =
     w\<lparr>w_rooms := (w_rooms w)(a := map_option (\<lambda>r. r\<lparr>rm_join_listeners := cs\<rparr>) (w_rooms w a))\<rparr>"

subsection \<open>Leaving and disposal\<close>

text \<open>\<open>std::find_if\<close> by session, and \<open>erase\<close> of what it found.\<close>

definition find_session :: "string \<Rightarrow> simple_client list \<Rightarrow> simple_client option" where
  "find_session sid cs = find (\<lambda>c. sc_session_id c = sid) cs"

fun erase_session :: "string \<Rightarrow> simple_client list \<Rightarrow> simple_client list" where
  "erase_session sid [] = []"
| "erase_session sid (c # cs) = (if sc_session_id c = sid then cs else c # erase_session sid cs)"

definition clear_auto_dispose :: "nat \<Rightarrow> wstep" where
  "clear_auto_dispose a =
     with_room a (\<lambda>r. effect (\<lambda>w. w\<lparr>w_sched := timer_clear (rm_auto_dispose_timer r) (w_sched w)\<rparr>))"

definition forget_room :: "nat \<Rightarrow> wstep" where
  "forget_room a =
     with_room a (\<lambda>r. effect (\<lambda>w. w\<lparr>w_storage := remove_room (sops w) (w_storage w) (rm_id r)\<rparr>))"

definition unsubscribe_game_message :: "nat \<Rightarrow> wstep" where
  "unsubscribe_game_message a =
     seq (with_room a (\<lambda>r. effect (\<lambda>w. w\<lparr>w_pubsub := snd (ps_unsubscribe (rm_game_message_sub r) (w_pubsub w))\<rparr>)))
         (set_room a (\<lambda>r. r\<lparr>rm_game_message_sub := None\<rparr>))"

definition unsubscribe_player_left :: "nat \<Rightarrow> wstep" where
  "unsubscribe_player_left a =
     seq (with_room a (\<lambda>r. effect (\<lambda>w. w\<lparr>w_pubsub := snd (ps_unsubscribe (rm_player_left_sub r) (w_pubsub w))\<rparr>)))
         (set_room a (\<lambda>r. r\<lparr>rm_player_left_sub := None\<rparr>))"

abbreviation hooks_of :: "env \<Rightarrow> room \<Rightarrow> hooks" where
  "hooks_of E r \<equiv> e_hooks E (rm_type r)"

function run_prog :: "env \<Rightarrow> nat \<Rightarrow> nat \<Rightarrow> prog \<Rightarrow> wstep"
  and do_act :: "env \<Rightarrow> nat \<Rightarrow> nat \<Rightarrow> act \<Rightarrow> wstep"
  and remove_client :: "env \<Rightarrow> nat \<Rightarrow> nat \<Rightarrow> string \<Rightarrow> bool \<Rightarrow> wstep"
  and dispose :: "env \<Rightarrow> nat \<Rightarrow> nat \<Rightarrow> wstep" where
  "run_prog E n a [] = skip"
| "run_prog E n a (g # gs) = seq (with_room a (\<lambda>r. do_act E n a (g r))) (run_prog E n a gs)"
| "do_act E n a (SetState v) = set_room a (\<lambda>r. r\<lparr>rm_state := v\<rparr>)"
| "do_act E n a (Broadcast key data) = broadcast a key data"
| "do_act E n a (SetMetadata m) = set_metadata E a m"
| "do_act E n a Dispose = dispose E n a"
| "do_act E n a (SendTo sid key data) = client_send a sid key data"
| "do_act E n a (RemoveFromRoom sid) = remove_client E n a sid True"
| "do_act E n a (ThrowExn e) = throw e"
| "do_act E n a NoAct = skip"
| "remove_client E 0 a sid intentional = nofuel"
| "remove_client E (Suc n) a sid intentional =
     with_room a (\<lambda>r. case find_session sid (rm_clients r) of
         None \<Rightarrow> skip
       | Some c \<Rightarrow>
           seq (set_room a (\<lambda>r. r\<lparr>rm_clients := erase_session sid (rm_clients r)\<rparr>))
          (seq (client_send a (sc_session_id c) removedFromRoom JNull)
          (seq (cb_call (\<lambda>l. run_prog E n a (hk_leave_cb (hooks_of E r) l c intentional))
                  (get_leave a) (put_leave a))
          (seq (log_hook a OnLeave)
          (seq (run_prog E n a (hk_leave (hooks_of E r) c intentional))
               (with_room a (\<lambda>r. if rm_clients r = [] then dispose E n a else skip)))))))"
| "dispose E 0 a = nofuel"
| "dispose E (Suc n) a =
     with_room a (\<lambda>r. if rm_disposing r then skip
       else
         seq (set_room a (\<lambda>r. r\<lparr>rm_disposing := True\<rparr>))
        (seq (seqs (\<lambda>sid. remove_client E n a sid True) (map sc_session_id (rm_clients r)))
        (seq (log_hook a BeforeDispose)
        (seq (run_prog E n a (hk_before_dispose (hooks_of E r)))
        (seq (clear_auto_dispose a)
        (seq (forget_room a)
        (seq (unsubscribe_game_message a)
        (seq (unsubscribe_player_left a)
        (seq (log_hook a OnDispose)
        (seq (run_prog E n a (hk_dispose (hooks_of E r)))
             (with_room a (\<lambda>r. on_room_disposed (rm_id r)))))))))))))"
  by pat_completeness auto
termination
  by lexicographic_order

declare remove_client.simps(2) [simp del] dispose.simps(2) [simp del]

subsection \<open>Joining and reconnection\<close>

definition set_pending :: "nat \<Rightarrow> (pending \<Rightarrow> pending) \<Rightarrow> wstep" where
  "set_pending t f = effect (\<lambda>w. w\<lparr>w_pending := (w_pending w)(t := map_option f (w_pending w t))\<rparr>)"

text \<open>\<open>if (!resolved->exchange(true)) promise->set_value(b)\<close>\<close>

definition resolve :: "nat \<Rightarrow> bool \<Rightarrow> wstep" where
  "resolve t b =
     set_pending t (\<lambda>p. if pd_resolved p then p else p\<lparr>pd_resolved := True, pd_result := Some b\<rparr>)"

definition clear_pending_timer :: "nat \<Rightarrow> wstep" where
  "clear_pending_timer t =
     effect (\<lambda>w. case w_pending w t of None \<Rightarrow> w
       | Some p \<Rightarrow> w\<lparr>w_sched := timer_clear (pd_timer p) (w_sched w)\<rparr>)"

text \<open>\<open>join_sub->clear()\<close>: removes the listener from the room's table, once.\<close>

definition clear_join_sub :: "nat \<Rightarrow> nat \<Rightarrow> wstep" where
  "clear_join_sub a t =
     reading (\<lambda>w. case w_pending w t of None \<Rightarrow> skip
       | Some p \<Rightarrow> (case pd_join_sub p of None \<Rightarrow> skip
           | Some i \<Rightarrow>
               seq (set_room a (\<lambda>r. r\<lparr>rm_join_listeners := snd (sub_clear (Some i) (rm_join_listeners r))\<rparr>))
                   (set_pending t (\<lambda>p. p\<lparr>pd_join_sub := None\<rparr>))))"

fun run_join_cb :: "env \<Rightarrow> nat \<Rightarrow> nat \<Rightarrow> simple_client \<Rightarrow> join_cb \<Rightarrow> wstep" where
  "run_join_cb E n a c (UserJoin l) =
     with_room a (\<lambda>r. run_prog E n a (hk_join_cb (hooks_of E r) l c))"
| "run_join_cb E n a c (Reconnect client_id t) =
     (if sc_id c \<noteq> client_id then skip
      else seq (resolve t True) (seq (clear_pending_timer t) (clear_join_sub a t)))"

definition client_has_joined :: "env \<Rightarrow> nat \<Rightarrow> nat \<Rightarrow> simple_client \<Rightarrow> json \<Rightarrow> wstep" where
  "client_has_joined E n a c opts =
     seq (set_room a (\<lambda>r. if sc_id (rm_owner r) \<noteq> [] \<and> sc_id c = sc_id (rm_owner r)
                          then r\<lparr>rm_owner := (rm_owner r)\<lparr>sc_session_id := sc_session_id c\<rparr>\<rparr> else r))
    (seq (client_send a (sc_session_id c) joinedRoom JNull)
    (seq (cb_call (run_join_cb E n a c) (get_join a) (put_join a))
    (seq (log_hook a OnJoin)
         (with_room a (\<lambda>r. run_prog E n a (hk_join (hooks_of E r) c opts))))))"

definition add_client :: "env \<Rightarrow> nat \<Rightarrow> nat \<Rightarrow> simple_client \<Rightarrow> json \<Rightarrow> wstep" where
  "add_client E n a c opts =
     seq (set_room a (\<lambda>r. r\<lparr>rm_clients := rm_clients r @ [c]\<rparr>)) (client_has_joined E n a c opts)"

text \<open>
  \<open>allow_reconnection\<close> up to the wait: the early answer \<open>false\<close> of a room that is being disposed
  (\<open>None\<close> to the continuation), or the number of the pending reconnection the caller then waits on.
\<close>

definition begin_reconnection :: "env \<Rightarrow> nat \<Rightarrow> simple_client \<Rightarrow> int \<Rightarrow> (nat option \<Rightarrow> wstep) \<Rightarrow> wstep" where
  "begin_reconnection E a c seconds k =
     with_room a (\<lambda>r. if rm_disposing r then k None
       else reading (\<lambda>w. let t = w_next_pending w in
         seq (effect (\<lambda>w. w\<lparr>w_next_pending := Suc t,
                w_pending := (w_pending w)(t \<mapsto> \<lparr>pd_resolved = False, pd_result = None,
                                                pd_join_sub = None, pd_timer = None\<rparr>)\<rparr>))
        (seq (random_id E (\<lambda>i.
                seq (set_room a (\<lambda>r. r\<lparr>rm_join_listeners :=
                       snd (cb_add i (Reconnect (sc_id c) t) False (rm_join_listeners r))\<rparr>))
                    (set_pending t (\<lambda>p. p\<lparr>pd_join_sub := Some i\<rparr>))))
        (seq (effect (\<lambda>w. let (h, s) = set_timeout (w_now w) (seconds * 1000) (ReconnectTimeout a (sc_id c) t) (w_sched w)
                 in w\<lparr>w_sched := s, w_pending := (w_pending w)(t := map_option (\<lambda>p. p\<lparr>pd_timer := h\<rparr>) (w_pending w t))\<rparr>))
             (k (Some t))))))"

text \<open>The timer callback of \<open>allow_reconnection\<close>.\<close>

definition reconnect_timeout :: "nat \<Rightarrow> string \<Rightarrow> nat \<Rightarrow> wstep" where
  "reconnect_timeout a client_id t =
     with_room a (\<lambda>r. seq (resolve t (\<exists>c \<in> set (rm_clients r). sc_id c = client_id)) (clear_join_sub a t))"

subsection \<open>Messages from the listener table\<close>

text \<open>
  The handler subscribed under the room's id.  \<open>pub\<close> is \<open>pubsub_->publish\<close>.
\<close>

definition join_request :: "env \<Rightarrow> nat \<Rightarrow> nat \<Rightarrow> simple_client \<Rightarrow> json \<Rightarrow> wstep" where
  "join_request E n a client opts =
     catch_std
       (seq (log_hook a CanClientJoin)
       (seq (with_room a (\<lambda>r. run_prog E n a (hk_can_join (hooks_of E r) client opts)))
            (add_client E n a client opts)))
       (\<lambda>e. with_room a (\<lambda>r. send_frame_to_client (sc_session_id client) (rm_id r @ ''-error'')
              (jobj [(''message'', JString (what (e_json E) e))])))"

definition message_request :: "env \<Rightarrow> nat \<Rightarrow> nat \<Rightarrow> simple_client \<Rightarrow> json \<Rightarrow> wstep" where
  "message_request E n a client payload =
     with_room a (\<lambda>r. case find_session (sc_session_id client) (rm_clients r) of
         None \<Rightarrow> skip
       | Some c \<Rightarrow>
           from_res (jvalue get_json ''data'' empty_object payload) (\<lambda>data.
           from_res (jvalue get_string ''key'' [] data) (\<lambda>key.
           from_res (jvalue get_json ''data'' JNull data) (\<lambda>d.
             seq (log_hook a OnMessage) (run_prog E n a (hk_message (hooks_of E r) c key d))))))"

definition external_request :: "env \<Rightarrow> nat \<Rightarrow> nat \<Rightarrow> json \<Rightarrow> wstep" where
  "external_request E n a payload =
     from_res (jvalue get_json ''data'' empty_object payload) (\<lambda>data.
       if jcontains ''key'' data then
         from_res (rbind (jat ''key'' data) get_string) (\<lambda>key.
         from_res (jvalue get_json ''data'' JNull data) (\<lambda>d.
           with_room a (\<lambda>r. seq (log_hook a OnExternalMessage)
             (run_prog E n a (hk_external (hooks_of E r) key d)))))
       else skip)"

definition info_reply :: "room \<Rightarrow> json" where
  "info_reply r = jobj [(''clients'', JArray (map client_to_json (rm_clients r))), (''state'', rm_state r)]"

definition game_message :: "env \<Rightarrow> nat \<Rightarrow> (string \<Rightarrow> json \<Rightarrow> wstep) \<Rightarrow> nat \<Rightarrow> json \<Rightarrow> wstep" where
  "game_message E n pub a payload =
     (if \<not> is_object payload \<or> \<not> jcontains ''action'' payload then skip
      else from_res (rbind (jat ''action'' payload) get_string) (\<lambda>action.
        if action = REQUEST_INFO then with_room a (\<lambda>r. pub REQUEST_INFO (info_reply r))
        else if action = EXTERNAL_MESSAGE then external_request E n a payload
        else if \<not> jcontains ''client'' payload then skip
        else from_res (rbind (jat ''client'' payload) client_from_json) (\<lambda>client.
          if action = joinRoom then
            from_res (rbind (jvalue get_json ''data'' empty_object payload)
                        (jvalue get_json ''options'' empty_object))
              (join_request E n a client)
          else if action = sendMessage then message_request E n a client payload
          else skip)))"

text \<open>
  Running a handler of the listener table.  The first number bounds the depth of publications made
  inside handlers (a request for a room's information publishes the answer).
\<close>

fun invoke :: "env \<Rightarrow> nat \<Rightarrow> nat \<Rightarrow> handler \<Rightarrow> json \<Rightarrow> wstep" where
  "invoke E n d (AdminInfo q) payload = effect (\<lambda>w. w\<lparr>w_admin := AList.update q payload (w_admin w)\<rparr>)"
| "invoke E n d (PlayerLeft a) payload = from_res (get_string payload) (\<lambda>sid. remove_client E n a sid False)"
| "invoke E n 0 (GameMessage a) payload = nofuel"
| "invoke E n (Suc d) (GameMessage a) payload =
     game_message E n (ps_publish (invoke E n d) w_pubsub) a payload"

definition publish :: "env \<Rightarrow> nat \<Rightarrow> nat \<Rightarrow> string \<Rightarrow> json \<Rightarrow> wstep" where
  "publish E n d key data = ps_publish (invoke E n d) w_pubsub key data"

definition pub_sub_listener :: "env \<Rightarrow> nat \<Rightarrow> wstep" where
  "pub_sub_listener E a =
     seq (random_id E (\<lambda>i. with_room a (\<lambda>r. reading (\<lambda>w.
            let (h, ps) = ps_on i (rm_id r) (GameMessage a) (w_pubsub w) in
            seq (effect (\<lambda>w. w\<lparr>w_pubsub := ps\<rparr>)) (set_room a (\<lambda>r. r\<lparr>rm_game_message_sub := h\<rparr>))))))
         (random_id E (\<lambda>i. reading (\<lambda>w.
            let (h, ps) = ps_on i PLAYER_LEFT (PlayerLeft a) (w_pubsub w) in
            seq (effect (\<lambda>w. w\<lparr>w_pubsub := ps\<rparr>)) (set_room a (\<lambda>r. r\<lparr>rm_player_left_sub := h\<rparr>)))))"

subsection \<open>Initialisation and timers\<close>

definition AUTO_DISPOSE_AFTER :: int where
  "AUTO_DISPOSE_AFTER = 2 * 60 * 60 * 1000 + 30 * 60 * 1000"

definition start_auto_dispose :: "nat \<Rightarrow> wstep" where
  "start_auto_dispose a =
     reading (\<lambda>w. let (h, s) = set_timeout (w_now w) AUTO_DISPOSE_AFTER (AutoDispose a) (w_sched w) in
       seq (effect (\<lambda>w. w\<lparr>w_sched := s\<rparr>)) (set_room a (\<lambda>r. r\<lparr>rm_auto_dispose_timer := h\<rparr>)))"

definition initialize :: "env \<Rightarrow> nat \<Rightarrow> nat \<Rightarrow> wstep" where
  "initialize E n a =
     seq (catch_rethrow
            (seq (log_hook a OnCreate)
                 (with_room a (\<lambda>r. run_prog E n a (hk_create (hooks_of E r) (rm_options r)))))
            (dispose E n a))
    (seq (start_auto_dispose a) (pub_sub_listener E a))"

text \<open>A timer callback taken by the worker, run under the game lock.\<close>

fun run_timer :: "env \<Rightarrow> nat \<Rightarrow> timer_cb \<Rightarrow> wstep" where
  "run_timer E n (AutoDispose a) = dispose E n a"
| "run_timer E n (ReconnectTimeout a client_id t) = reconnect_timeout a client_id t"

end
