(* ===== verification/Server.thy ===== *)
theory Server imports Room
begin

text \<open>
  \<open>Server\<close> (server/src/server.cpp): registering room types, creating rooms, the three client
  messages, disconnection, the queries and the shutdown, as steps on the world.  Each handler runs
  under the game lock from its first line to its last, which makes it one step here.
\<close>

subsection \<open>Registration and queries\<close>

text \<open>A second registration of a name is ignored; the hooks of the class are \<open>e_hooks E name\<close>.\<close>

definition register_room :: "string \<Rightarrow> json \<Rightarrow> wstep" where
  "register_room name opts =
     reading (\<lambda>w. if map_of (w_registered w) name \<noteq> None then skip
       else effect (\<lambda>w. w\<lparr>w_registered := AList.update name opts (w_registered w)\<rparr>))"

definition list_rooms :: "(string list \<Rightarrow> wstep) \<Rightarrow> wstep" where
  "list_rooms k = reading (\<lambda>w. let (ids, s) = get_list_of_rooms (sops w) (w_storage w) in
     seq (effect (\<lambda>w. w\<lparr>w_storage := s\<rparr>)) (k ids))"

definition get_room_count :: "(nat \<Rightarrow> wstep) \<Rightarrow> wstep" where
  "get_room_count k = list_rooms (\<lambda>ids. k (length ids))"

definition get_rooms :: "env \<Rightarrow> (room_snapshot list \<Rightarrow> wstep) \<Rightarrow> wstep" where
  "get_rooms E k = reading (\<lambda>w.
     let (rooms, s) = get_list_of_rooms_with_data (sops w) (e_json E) (w_storage w) in
     seq (effect (\<lambda>w. w\<lparr>w_storage := s\<rparr>)) (k rooms))"

definition get_number_of_connected_clients :: "world \<Rightarrow> nat" where
  "get_number_of_connected_clients w = length (w_connections w)"

subsection \<open>Creating a room\<close>

text \<open>One candidate: the custom generator if there is one, else \<open>random_id()\<close>.\<close>

definition room_id_candidate :: "env \<Rightarrow> string \<Rightarrow> json \<Rightarrow> json \<Rightarrow> (string \<Rightarrow> wstep) \<Rightarrow> wstep" where
  "room_id_candidate E name opts creator k =
     (case e_idgen E of
        None \<Rightarrow> random_id E k
      | Some g \<Rightarrow> reading (\<lambda>w. seq (effect (\<lambda>w. w\<lparr>w_ids := Suc (w_ids w)\<rparr>))
                                (from_res (g name opts creator (w_ids w)) k)))"

text \<open>
  The loop \<open>for (i = 0; i < 3 \&\& room_id.empty(); i++)\<close>, by the number of tries left; the
  continuation gets the empty string when no try succeeded.
\<close>

fun pick_room_id ::
  "env \<Rightarrow> string \<Rightarrow> json \<Rightarrow> json \<Rightarrow> string list \<Rightarrow> nat \<Rightarrow> (string \<Rightarrow> wstep) \<Rightarrow> wstep" where
  "pick_room_id E name opts creator existing 0 k = k []"
| "pick_room_id E name opts creator existing (Suc i) k =
     room_id_candidate E name opts creator (\<lambda>cand.
       if cand \<notin> set existing \<and> cand \<noteq> [] then k cand
       else pick_room_id E name opts creator existing i k)"

definition choose_room_id ::
  "env \<Rightarrow> string \<Rightarrow> json \<Rightarrow> json \<Rightarrow> string \<Rightarrow> string list \<Rightarrow> (string \<Rightarrow> wstep) \<Rightarrow> wstep" where
  "choose_room_id E name opts creator override existing k =
     (if override \<noteq> [] then
        (if override \<in> set existing then throw (RuntimeError (''Room ID already in use: '' @ override))
         else k override)
      else pick_room_id E name opts creator existing 3 (\<lambda>i.
        if i = [] then throw (RuntimeError ''Failed to create room with unique ID'') else k i))"

text \<open>The object made by the factory, with the fields that \<open>Room::initialize\<close> copies from its argument.\<close>

definition new_room :: "string \<Rightarrow> string \<Rightarrow> simple_client \<Rightarrow> json \<Rightarrow> json \<Rightarrow> json \<Rightarrow> room" where
  "new_room i name owner opts creator values =
     \<lparr>rm_id = i, rm_type = name, rm_owner = owner, rm_options = opts, rm_creator_options = creator,
      rm_initial_game_values = values, rm_state = empty_object, rm_metadata = empty_object,
      rm_clients = [], rm_disposing = False, rm_join_listeners = cb_empty, rm_leave_listeners = cb_empty,
      rm_game_message_sub = None, rm_player_left_sub = None, rm_auto_dispose_timer = None\<rparr>"

text \<open>Unwinding destroys the room that the local \<open>unique_ptr\<close> still owns.\<close>

definition destroy_room :: "nat \<Rightarrow> wstep" where
  "destroy_room a = effect (\<lambda>w. w\<lparr>w_rooms := (w_rooms w)(a := None)\<rparr>)"

definition register_snapshot :: "env \<Rightarrow> string \<Rightarrow> string \<Rightarrow> simple_client \<Rightarrow> wstep" where
  "register_snapshot E i name client = reading (\<lambda>w.
     from_res (add_room (sops w) (e_json E) (w_storage w)
        \<lparr>rs_id = i, rs_type = name, rs_owner = client, rs_metadata = empty_object,
         rs_created_at = w_wall_ms w\<rparr>)
       (\<lambda>s. effect (\<lambda>w. w\<lparr>w_storage := s\<rparr>)))"

text \<open>\<open>managing_rooms_[room_id] = std::move(room)\<close>: a room that was there is destroyed.\<close>

definition manage_room :: "string \<Rightarrow> nat \<Rightarrow> wstep" where
  "manage_room i a = effect (\<lambda>w.
     (case map_of (w_managing w) i of None \<Rightarrow> w
      | Some old \<Rightarrow> w\<lparr>w_rooms := (w_rooms w)(old := None)\<rparr>)
     \<lparr>w_managing := AList.update i a (w_managing w)\<rparr>)"

definition create_new_room ::
  "env \<Rightarrow> nat \<Rightarrow> simple_client \<Rightarrow> string \<Rightarrow> json \<Rightarrow> string \<Rightarrow> (nat \<Rightarrow> wstep) \<Rightarrow> wstep" where
  "create_new_room E n client name creator override k =
     reading (\<lambda>w. case map_of (w_registered w) name of
         None \<Rightarrow> throw (RuntimeError (name @ '' does not have a room handler''))
       | Some opts \<Rightarrow> list_rooms (\<lambda>existing.
           choose_room_id E name opts creator override existing (\<lambda>i.
           reading (\<lambda>w. let a = w_next_room w in
             seq (effect (\<lambda>w. w\<lparr>w_next_room := Suc a,
                    w_rooms := (w_rooms w)(a \<mapsto> new_room i name client opts creator
                                 (gv_get_all (sops w) (e_json E) (w_storage w)))\<rparr>))
            (seq (catch_rethrow (seq (initialize E n a) (register_snapshot E i name client))
                                (destroy_room a))
            (seq (manage_room i a) (k a)))))))"

definition create_room ::
  "env \<Rightarrow> nat \<Rightarrow> string \<Rightarrow> string \<Rightarrow> json \<Rightarrow> (string \<Rightarrow> wstep) \<Rightarrow> wstep" where
  "create_room E n name i creator k =
     create_new_room E n no_client name creator i (\<lambda>a. with_room a (\<lambda>r. k (rm_id r)))"

subsection \<open>Client messages\<close>

definition error_frame :: "env \<Rightarrow> simple_client \<Rightarrow> string \<Rightarrow> jexn \<Rightarrow> wstep" where
  "error_frame E client prefix_id e =
     send_frame_to_client (sc_session_id client) (prefix_id @ ''-error'')
       (jobj [(''message'', JString (what (e_json E) e))])"

definition join_payload :: "simple_client \<Rightarrow> json \<Rightarrow> json" where
  "join_payload client opts =
     jobj [(''action'', JString joinRoom), (''client'', client_to_json client),
           (''data'', jobj [(''options'', opts)])]"

definition message_payload :: "simple_client \<Rightarrow> json \<Rightarrow> json \<Rightarrow> json" where
  "message_payload client key d =
     jobj [(''client'', client_to_json client), (''action'', JString sendMessage),
           (''data'', jobj [(''key'', key), (''data'', d)])]"

definition handle_create :: "env \<Rightarrow> nat \<Rightarrow> simple_client \<Rightarrow> json \<Rightarrow> wstep" where
  "handle_create E n client data =
     from_res (jvalue get_string ''uniqueRequestId'' [] data) (\<lambda>uid.
     from_res (jvalue get_string ''type'' [] data) (\<lambda>name.
       if name = [] \<or> uid = [] then skip
       else catch_std
         (from_res (jvalue get_json ''options'' empty_object data) (\<lambda>opts.
            create_new_room E n client name opts [] (\<lambda>a.
              with_room a (\<lambda>r. send_frame_to_client (sc_session_id client) (uid @ ''-create'')
                                 (JString (rm_id r))))))
         (error_frame E client uid)))"

definition handle_join :: "env \<Rightarrow> nat \<Rightarrow> nat \<Rightarrow> simple_client \<Rightarrow> json \<Rightarrow> wstep" where
  "handle_join E n d client data =
     from_res (jvalue get_string ''roomId'' [] data) (\<lambda>i.
       if i = [] then skip
       else catch_std
         (seq (reading (\<lambda>w. from_res (find_room_by_id (sops w) (e_json E) (w_storage w) i) (\<lambda>_. skip)))
              (from_res (jvalue get_json ''options'' empty_object data) (\<lambda>opts.
                 publish E n d i (join_payload client opts))))
         (error_frame E client i))"

definition handle_send :: "env \<Rightarrow> nat \<Rightarrow> nat \<Rightarrow> simple_client \<Rightarrow> json \<Rightarrow> wstep" where
  "handle_send E n d client data =
     from_res (jvalue get_string ''room'' [] data) (\<lambda>i.
       if i = [] \<or> \<not> jcontains ''key'' data then skip
       else from_res (jat ''key'' data) (\<lambda>key.
            from_res (jvalue get_json ''data'' JNull data) (\<lambda>v.
              publish E n d i (message_payload client key v))))"

definition handle_client_message ::
  "env \<Rightarrow> nat \<Rightarrow> nat \<Rightarrow> simple_client \<Rightarrow> string \<Rightarrow> json \<Rightarrow> wstep" where
  "handle_client_message E n d client event data_in =
     (let data = (if is_object data_in then data_in else empty_object) in
      if event = createNewRoom then handle_create E n client data
      else if event = joinRoom then handle_join E n d client data
      else if event = sendMessage then handle_send E n d client data
      else skip)"

definition handle_client_disconnect :: "env \<Rightarrow> nat \<Rightarrow> nat \<Rightarrow> string \<Rightarrow> wstep" where
  "handle_client_disconnect E n d sid =
     seq (effect (\<lambda>w. w\<lparr>w_connections := AList.delete sid (w_connections w)\<rparr>))
         (publish E n d PLAYER_LEFT (JString sid))"

subsection \<open>Shutdown\<close>

text \<open>
  The part of \<open>shutdown\<close> under the lock: every connection is closed, then every room that is still
  managed when its turn comes is disposed.
\<close>

definition shutdown_rooms :: "env \<Rightarrow> nat \<Rightarrow> wstep" where
  "shutdown_rooms E n =
     seq (effect (\<lambda>w. w\<lparr>w_ws_closed := w_ws_closed w @ map fst (w_connections w)\<rparr>))
         (reading (\<lambda>w. seqs (\<lambda>i. reading (\<lambda>w. case map_of (w_managing w) i of
              None \<Rightarrow> skip | Some a \<Rightarrow> dispose E n a)) (map fst (w_managing w))))"

end
