(* ===== verification/Room_Facts.thy ===== *)
theory Room_Facts imports Room
begin

text \<open>
  What the operations of a room can do to the world, as a step relation: \<open>calm_step\<close> has one rule
  for each primitive change made outside the tail of \<open>dispose\<close>, \<open>tail_step\<close> one for each change
  made in it.  Every run of \<open>run_prog\<close>, \<open>do_act\<close>, \<open>remove_client\<close> and \<open>dispose\<close>, however it ends, is a
  sequence of these steps (\<open>room_ops_keep\<close>), and only of calm ones once the room is being disposed
  (\<open>calm_ops_keep\<close>), so a property of the room is proved one primitive at a time.
\<close>

subsection \<open>The step relations\<close>

text \<open>The fields that hooks and departures may change in a room object.\<close>

definition mild :: "room \<Rightarrow> room \<Rightarrow> bool" where
  "mild r r' \<longleftrightarrow> subseq (rm_clients r') (rm_clients r) \<and>
     rm_id r' = rm_id r \<and> rm_type r' = rm_type r \<and> rm_owner r' = rm_owner r \<and>
     rm_options r' = rm_options r \<and> rm_creator_options r' = rm_creator_options r \<and>
     rm_initial_game_values r' = rm_initial_game_values r \<and> rm_disposing r' = rm_disposing r \<and>
     rm_join_listeners r' = rm_join_listeners r \<and>
     rm_game_message_sub r' = rm_game_message_sub r \<and> rm_player_left_sub r' = rm_player_left_sub r \<and>
     rm_auto_dispose_timer r' = rm_auto_dispose_timer r"

inductive calm_step :: "env \<Rightarrow> nat \<Rightarrow> world \<Rightarrow> world \<Rightarrow> bool" for E a where
  frame: "calm_step E a w (w\<lparr>w_frames := fs\<rparr>)"
| log: "calm_step E a w (w\<lparr>w_log := l\<rparr>)"
| store_metadata: "w_rooms w a = Some r \<Longrightarrow>
    set_room_metadata (sops w) (e_json E) (w_storage w) (rm_id r) m = Inr s \<Longrightarrow>
    calm_step E a w (w\<lparr>w_storage := s\<rparr>)"
| change: "w_rooms w a = Some r \<Longrightarrow> mild r r' \<Longrightarrow>
    calm_step E a w (w\<lparr>w_rooms := (w_rooms w)(a \<mapsto> r')\<rparr>)"

inductive tail_step :: "nat \<Rightarrow> world \<Rightarrow> world \<Rightarrow> bool" for a where
  mark: "w_rooms w a = Some r \<Longrightarrow>
    tail_step a w (w\<lparr>w_rooms := (w_rooms w)(a \<mapsto> r\<lparr>rm_disposing := True\<rparr>)\<rparr>)"
| timer: "w_rooms w a = Some r \<Longrightarrow>
    tail_step a w (w\<lparr>w_sched := timer_clear (rm_auto_dispose_timer r) (w_sched w)\<rparr>)"
| forget: "w_rooms w a = Some r \<Longrightarrow>
    tail_step a w (w\<lparr>w_storage := remove_room (sops w) (w_storage w) (rm_id r)\<rparr>)"
| unsub_game: "w_rooms w a = Some r \<Longrightarrow>
    tail_step a w (w\<lparr>w_pubsub := snd (ps_unsubscribe (rm_game_message_sub r) (w_pubsub w)),
                     w_rooms := (w_rooms w)(a \<mapsto> r\<lparr>rm_game_message_sub := None\<rparr>)\<rparr>)"
| unsub_left: "w_rooms w a = Some r \<Longrightarrow>
    tail_step a w (w\<lparr>w_pubsub := snd (ps_unsubscribe (rm_player_left_sub r) (w_pubsub w)),
                     w_rooms := (w_rooms w)(a \<mapsto> r\<lparr>rm_player_left_sub := None\<rparr>)\<rparr>)"
| free: "w_rooms w a = Some r \<Longrightarrow> map_of (w_managing w) (rm_id r) = Some b \<Longrightarrow>
    tail_step a w (w\<lparr>w_managing := AList.delete (rm_id r) (w_managing w),
                     w_rooms := (w_rooms w)(b := None)\<rparr>)"

inductive_cases calm_stepE: "calm_step E a w w'"
inductive_cases tail_stepE: "tail_step a w w'"

definition room_step :: "env \<Rightarrow> nat \<Rightarrow> world \<Rightarrow> world \<Rightarrow> bool" where
  "room_step E a w w' \<longleftrightarrow> calm_step E a w w' \<or> tail_step a w w'"

definition closed :: "(world \<Rightarrow> world \<Rightarrow> bool) \<Rightarrow> (world \<Rightarrow> bool) \<Rightarrow> bool" where
  "closed R P \<longleftrightarrow> (\<forall>w w'. P w \<longrightarrow> R w w' \<longrightarrow> P w')"

lemma closedD: "closed R P \<Longrightarrow> P w \<Longrightarrow> R w w' \<Longrightarrow> P w'"
  by (auto simp: closed_def)

lemma closed_room_stepD:
  "closed (room_step E a) P \<Longrightarrow> closed (calm_step E a) P"
  "closed (room_step E a) P \<Longrightarrow> closed (tail_step a) P"
  unfolding closed_def room_step_def by blast+

subsection \<open>The primitive steps keep a closed predicate\<close>

lemma mild_intros:
  "mild r (r\<lparr>rm_state := v\<rparr>)"
  "mild r (r\<lparr>rm_metadata := m\<rparr>)"
  "mild r (r\<lparr>rm_leave_listeners := ls\<rparr>)"
  "subseq cs (rm_clients r) \<Longrightarrow> mild r (r\<lparr>rm_clients := cs\<rparr>)"
  by (simp_all add: mild_def)

lemma mild_fields:
  assumes "mild r r'"
  shows "rm_id r' = rm_id r" "rm_type r' = rm_type r" "rm_disposing r' = rm_disposing r"
    "rm_game_message_sub r' = rm_game_message_sub r" "rm_player_left_sub r' = rm_player_left_sub r"
    "rm_auto_dispose_timer r' = rm_auto_dispose_timer r" "rm_join_listeners r' = rm_join_listeners r"
    "subseq (rm_clients r') (rm_clients r)"
  using assms by (auto simp: mild_def)

lemma subseq_erase_session: "subseq (erase_session sid cs) cs"
  by (induction cs) auto

lemma keeps_calm_room:
  "closed (calm_step E a) P \<Longrightarrow> (\<And>r. mild r (f r)) \<Longrightarrow> keeps P (set_room a f)"
  by (rule keeps_set_room) (auto intro: closedD calm_step.change)

lemma keeps_log_hook: "closed (calm_step E a) P \<Longrightarrow> keeps P (log_hook b h)"
  by (auto simp: log_hook_def intro!: keeps_effect intro: closedD calm_step.log)

lemma keeps_send_frame: "closed (calm_step E a) P \<Longrightarrow> keeps P (send_frame_to_client sid event data)"
  by (auto simp: send_frame_to_client_def intro!: keeps_rules keeps_effect intro: closedD calm_step.frame)

lemma keeps_client_send: "closed (calm_step E a) P \<Longrightarrow> keeps P (client_send b sid key data)"
  by (auto simp: client_send_def intro!: keeps_rules intro: keeps_send_frame)

lemma keeps_broadcast: "closed (calm_step E a) P \<Longrightarrow> keeps P (broadcast b key data)"
  by (auto simp: broadcast_def intro!: keeps_rules intro: keeps_client_send)

lemma keeps_set_metadata:
  assumes "closed (calm_step E a) P"
  shows "keeps P (set_metadata E a m)"
proof -
  have "keeps P (with_room a (\<lambda>r. reading (\<lambda>w.
            from_res (set_room_metadata (sops w) (e_json E) (w_storage w) (rm_id r) m)
              (\<lambda>s. effect (\<lambda>w. w\<lparr>w_storage := s\<rparr>)))))" (is "keeps P ?f")
  proof (rule keepsI)
    fix w assume P: "P w"
    show "P (snd (?f w))"
    proof (cases "w_rooms w a")
      case (Some r)
      show ?thesis
      proof (cases "set_room_metadata (sops w) (e_json E) (w_storage w) (rm_id r) m")
        case (Inr s)
        with Some P show ?thesis
          by (auto simp: reading_def effect_def intro: closedD [OF assms] calm_step.store_metadata)
      qed (use Some P in \<open>simp add: reading_def throw_def\<close>)
    qed (use P in simp)
  qed
  then show ?thesis
    unfolding set_metadata_def
    by (intro keeps_seq keeps_calm_room [OF assms]) (auto intro: mild_intros)
qed

lemma keeps_call_entry:
  assumes "\<And>f. keeps P (invk f)" and put: "\<And>w cs. P w \<Longrightarrow> get w \<noteq> None \<Longrightarrow> P (put cs w)"
  shows "keeps P (call_entry invk get put v i)"
proof -
  have rest: "keeps P (reading (\<lambda>w'. case get w' of None \<Rightarrow> undef
                | Some cs' \<Rightarrow> if cb_version cs' \<noteq> v then undef else effect (put (set_called i cs'))))"
    by (rule keeps_reading) (auto simp: undef_def effect_def put split: option.splits)
  show ?thesis
    unfolding call_entry_def
    by (rule keeps_reading_all, rule keeps_case_option, rule keeps_undef, rule keeps_if, rule keeps_skip)
       (rule keeps_seq [OF assms(1) rest])
qed

lemma keeps_cb_call:
  assumes "\<And>f. keeps P (invk f)" and put: "\<And>w cs. P w \<Longrightarrow> get w \<noteq> None \<Longrightarrow> P (put cs w)"
  shows "keeps P (cb_call invk get put)"
proof -
  have rest: "keeps P (reading (\<lambda>w'. case get w' of None \<Rightarrow> undef
                | Some cs' \<Rightarrow> if \<exists>e \<in> set (cb_entries cs'). spent e
                              then effect (put (cb_remove_called_once cs')) else skip))"
    by (rule keeps_reading) (auto simp: undef_def effect_def skip_def put split: option.splits)
  show ?thesis
    unfolding cb_call_def
    by (rule keeps_reading_all, rule keeps_case_option, rule keeps_undef)
       (rule keeps_seq [OF keeps_seqs [OF keeps_call_entry [OF assms]] rest])
qed

lemma keeps_leave_callbacks:
  assumes "closed (calm_step E a) P" and "\<And>f. keeps P (invk f)"
  shows "keeps P (cb_call invk (get_leave a) (put_leave a))"
proof (rule keeps_cb_call [OF assms(2)])
  fix w cs assume P: "P w" and "get_leave a w \<noteq> None"
  then obtain r where r: "w_rooms w a = Some r" by (auto simp: get_leave_def)
  from closedD [OF assms(1) P calm_step.change [OF r mild_intros(3)]]
  show "P (put_leave a cs w)"
    by (simp add: put_leave_def r)
qed

subsection \<open>The operations keep a closed predicate\<close>

lemma keeps_tail:
  assumes "closed (tail_step a) P"
  shows "keeps P (set_room a (\<lambda>r. r\<lparr>rm_disposing := True\<rparr>))"
    "keeps P (clear_auto_dispose a)" "keeps P (forget_room a)"
    "keeps P (unsubscribe_game_message a)" "keeps P (unsubscribe_player_left a)"
    "keeps P (with_room a (\<lambda>r. on_room_disposed (rm_id r)))"
proof -
  have step: "keeps P f" if f: "\<And>w r. w_rooms w a = Some r \<Longrightarrow> snd (f w) = w \<or> tail_step a w (snd (f w))"
    and none: "\<And>w. w_rooms w a = None \<Longrightarrow> snd (f w) = w" for f :: wstep
  proof (rule keepsI)
    fix w assume P: "P w"
    show "P (snd (f w))"
      using f [of w] none [of w] P closedD [OF assms P] by (cases "w_rooms w a") auto
  qed
  show "keeps P (set_room a (\<lambda>r. r\<lparr>rm_disposing := True\<rparr>))"
    by (rule step) (auto intro: tail_step.mark)
  show "keeps P (clear_auto_dispose a)"
    by (rule step) (auto simp: clear_auto_dispose_def effect_def intro: tail_step.timer)
  show "keeps P (forget_room a)"
    by (rule step) (auto simp: forget_room_def effect_def intro: tail_step.forget)
  show "keeps P (unsubscribe_game_message a)"
  proof (rule step)
    fix w :: world and r assume r: "w_rooms w a = Some r"
    from tail_step.unsub_game [OF this] this
    show "snd (unsubscribe_game_message a w) = w \<or> tail_step a w (snd (unsubscribe_game_message a w))"
      by (simp add: unsubscribe_game_message_def seq_def effect_def)
  qed (simp add: unsubscribe_game_message_def seq_def)
  show "keeps P (unsubscribe_player_left a)"
  proof (rule step)
    fix w :: world and r assume r: "w_rooms w a = Some r"
    from tail_step.unsub_left [OF this] this
    show "snd (unsubscribe_player_left a w) = w \<or> tail_step a w (snd (unsubscribe_player_left a w))"
      by (simp add: unsubscribe_player_left_def seq_def effect_def)
  qed (simp add: unsubscribe_player_left_def seq_def)
  show "keeps P (with_room a (\<lambda>r. on_room_disposed (rm_id r)))"
  proof (rule step)
    fix w :: world and r assume r: "w_rooms w a = Some r"
    from tail_step.free [OF this] this
    show "snd (with_room a (\<lambda>r. on_room_disposed (rm_id r)) w) = w \<or>
        tail_step a w (snd (with_room a (\<lambda>r. on_room_disposed (rm_id r)) w))"
      by (cases "map_of (w_managing w) (rm_id r)")
        (simp_all add: on_room_disposed_def reading_def skip_def effect_def)
  qed simp
qed

text \<open>
  The second alternative is the case of a room already marked: \<open>dispose\<close> then returns at once, so
  the tail is not run and only the calm steps matter.
\<close>

definition tail_ok :: "nat \<Rightarrow> (world \<Rightarrow> bool) \<Rightarrow> bool" where
  "tail_ok a P \<longleftrightarrow> closed (tail_step a) P \<or> (\<forall>w r. P w \<longrightarrow> w_rooms w a = Some r \<longrightarrow> rm_disposing r)"

lemma keeps_dispose_body:
  assumes "tail_ok a P" and "closed (tail_step a) P \<Longrightarrow> (\<And>r. \<not> rm_disposing r \<Longrightarrow> keeps P (f r))"
  shows "keeps P (with_room a (\<lambda>r. if rm_disposing r then skip else f r))"
proof (rule keepsI)
  fix w assume P: "P w"
  show "P (snd (with_room a (\<lambda>r. if rm_disposing r then skip else f r) w))"
  proof (cases "w_rooms w a")
    case (Some r)
    with assms P show ?thesis
      by (auto simp: skip_def tail_ok_def intro: keepsD)
  qed (use P in simp)
qed

lemma ops_keep_aux:
  "closed (calm_step E a) P \<Longrightarrow> tail_ok a P \<Longrightarrow> keeps P (run_prog E n a p)"
  "closed (calm_step E a) P \<Longrightarrow> tail_ok a P \<Longrightarrow> keeps P (do_act E n a x)"
  "closed (calm_step E a) P \<Longrightarrow> tail_ok a P \<Longrightarrow> keeps P (remove_client E n a sid b)"
  "closed (calm_step E a) P \<Longrightarrow> tail_ok a P \<Longrightarrow> keeps P (dispose E n a)"
proof (induction E n a p and E n a x and E n a sid b and E n a
    rule: run_prog_do_act_remove_client_dispose.induct)
  case (12 E n a sid intentional)
  note calm = 12(4)
  note leave = keeps_leave_callbacks [OF calm]
  show ?case
    unfolding remove_client.simps
    by (auto intro!: keeps_rules leave 12 keeps_calm_room [OF calm] mild_intros subseq_erase_session
        keeps_client_send [OF calm] keeps_log_hook [OF calm])
next
  case (14 E n a)
  note calm = 14(4)
  show ?case
    unfolding dispose.simps
    by (rule keeps_dispose_body [OF 14(5)])
      (intro keeps_seq keeps_seqs keeps_tail 14 keeps_log_hook [OF calm] keeps_with_room; assumption)
qed (auto intro!: keeps_rules keeps_calm_room mild_intros keeps_broadcast keeps_set_metadata keeps_client_send)

lemma room_ops_keep:
  assumes "closed (room_step E a) P"
  shows "keeps P (run_prog E n a p)" "keeps P (do_act E n a x)"
    "keeps P (remove_client E n a sid b)" "keeps P (dispose E n a)"
  using ops_keep_aux [OF closed_room_stepD(1) [OF assms]] closed_room_stepD(2) [OF assms]
  by (simp_all add: tail_ok_def)

lemma calm_ops_keep:
  assumes "closed (calm_step E a) P" and "\<And>w r. P w \<Longrightarrow> w_rooms w a = Some r \<Longrightarrow> rm_disposing r"
  shows "keeps P (run_prog E n a p)" "keeps P (do_act E n a x)"
    "keeps P (remove_client E n a sid b)" "keeps P (dispose E n a)"
  using ops_keep_aux [OF assms(1)] assms(2) by (simp_all add: tail_ok_def)

end
