(* ===== verification/Room_Fuel.thy ===== *)
theory Room_Fuel imports Room_Facts
begin

text \<open>
  The recursion of a room's operations is bounded by its state: every nested departure removes a
  client and every nested disposal that does anything marks the room, so \<open>length clients + 1\<close> levels
  are enough, whatever the hooks do.  The bound is never reached by an operation that starts with
  more fuel than \<open>room_depth\<close>.
\<close>

definition room_depth :: "nat \<Rightarrow> world \<Rightarrow> nat" where
  "room_depth a w = (case w_rooms w a of None \<Rightarrow> 0
     | Some r \<Rightarrow> length (rm_clients r) + (if rm_disposing r then 0 else 1))"

abbreviation shallow :: "nat \<Rightarrow> nat \<Rightarrow> world \<Rightarrow> bool" where
  "shallow a n w \<equiv> room_depth a w < n"

lemma closed_shallow: "closed (room_step E a) (shallow a n)"
proof -
  have "room_depth a w' \<le> room_depth a w" if "room_step E a w w'" for w w'
    using that unfolding room_step_def
    by (auto simp: room_depth_def mild_def list_emb_length elim!: calm_stepE tail_stepE
        split: option.splits if_splits)
  then show ?thesis
    unfolding closed_def by (meson le_less_trans)
qed

lemmas shallow_calm = closed_room_stepD(1) [OF closed_shallow]
lemmas shallow_tail = closed_room_stepD(2) [OF closed_shallow]

subsection \<open>The primitive operations do not recurse\<close>

lemma safe_NoFuelI: "keeps P f \<Longrightarrow> (\<And>w. fst (f w) \<noteq> NoFuel) \<Longrightarrow> safe {NoFuel} P f"
  by (simp add: safe_def keeps_def)

lemma fst_with_room:
  "(\<And>r. w_rooms w a = Some r \<Longrightarrow> fst (f r w) \<noteq> NoFuel) \<Longrightarrow> fst (with_room a f w) \<noteq> NoFuel"
  by (cases "w_rooms w a") auto

lemma no_fuel_basic:
  "fst (set_room a f w) \<noteq> NoFuel" "fst (log_hook a h w) \<noteq> NoFuel"
  "fst (send_frame_to_client sid e d w) \<noteq> NoFuel" "fst (client_send a sid e d w) \<noteq> NoFuel"
  "fst (clear_auto_dispose a w) \<noteq> NoFuel" "fst (forget_room a w) \<noteq> NoFuel"
  "fst (on_room_disposed i w) \<noteq> NoFuel"
  by (cases "w_rooms w a";
      simp add: log_hook_def effect_def send_frame_to_client_def reading_def skip_def client_send_def
        clear_auto_dispose_def forget_room_def on_room_disposed_def split: option.splits)+

lemma no_fuel_seq:
  "(\<And>w. fst (f w) \<noteq> NoFuel) \<Longrightarrow> (\<And>w. fst (g w) \<noteq> NoFuel) \<Longrightarrow> fst (seq f g w) \<noteq> NoFuel"
  by (cases "f w"; cases "fst (f w)") (auto simp: seq_def, metis fst_conv)

lemma safe_with_room [safe_rules]:
  "Undefined \<notin> B \<Longrightarrow> (\<And>r. safe B P (f r)) \<Longrightarrow> safe B P (with_room a f)"
  by (rule safeI) (metis option.exhaust fst_conv snd_conv safeD with_room_None with_room_Some)

lemma safe_set_metadata: "closed (calm_step E a) P \<Longrightarrow> safe {NoFuel} P (set_metadata E a m)"
  unfolding set_metadata_def
  by (rule safe_NoFuelI [OF keeps_set_metadata [unfolded set_metadata_def]], assumption)
    (intro no_fuel_seq fst_with_room no_fuel_basic;
      simp add: reading_def from_res_def throw_def effect_def split: sum.splits)

lemma safe_broadcast: "closed (calm_step E a) P \<Longrightarrow> safe {NoFuel} P (broadcast a key data)"
  unfolding broadcast_def
  by (intro safe_with_room safe_seqs safe_NoFuelI keeps_client_send no_fuel_basic) simp_all

lemma safe_unsubscribe:
  assumes "closed (tail_step a) P"
  shows "safe {NoFuel} P (unsubscribe_game_message a)" "safe {NoFuel} P (unsubscribe_player_left a)"
  by (rule safe_NoFuelI, rule keeps_tail [OF assms],
      simp add: unsubscribe_game_message_def unsubscribe_player_left_def,
      intro no_fuel_seq fst_with_room no_fuel_basic, simp add: effect_def)+

lemma safe_call_entry:
  assumes "\<And>f. safe {NoFuel} P (invk f)" and put: "\<And>w cs. P w \<Longrightarrow> get w \<noteq> None \<Longrightarrow> P (put cs w)"
  shows "safe {NoFuel} P (call_entry invk get put v i)"
proof -
  have rest: "safe {NoFuel} P (reading (\<lambda>w'. case get w' of None \<Rightarrow> undef
                | Some cs' \<Rightarrow> if cb_version cs' \<noteq> v then undef else effect (put (set_called i cs'))))"
    by (rule safe_reading) (auto simp: undef_def effect_def put split: option.splits)
  show ?thesis
    unfolding call_entry_def
    by (rule safe_reading_all, rule safe_case_option, simp add: safe_def undef_def, rule safe_if,
        simp add: safe_skip) (rule safe_seq [OF assms(1) rest])
qed

lemma safe_cb_call:
  assumes "\<And>f. safe {NoFuel} P (invk f)" and put: "\<And>w cs. P w \<Longrightarrow> get w \<noteq> None \<Longrightarrow> P (put cs w)"
  shows "safe {NoFuel} P (cb_call invk get put)"
proof -
  have rest: "safe {NoFuel} P (reading (\<lambda>w'. case get w' of None \<Rightarrow> undef
                | Some cs' \<Rightarrow> if \<exists>e \<in> set (cb_entries cs'). spent e
                              then effect (put (cb_remove_called_once cs')) else skip))"
    by (rule safe_reading) (auto simp: undef_def effect_def skip_def put split: option.splits)
  show ?thesis
    unfolding cb_call_def
    by (rule safe_reading_all, rule safe_case_option, simp add: safe_def undef_def)
       (rule safe_seq [OF safe_seqs [OF _ safe_call_entry [OF assms]] rest]; simp)
qed

lemma put_leave_closed:
  assumes "closed (calm_step E a) P" and "P w" and "get_leave a w \<noteq> None"
  shows "P (put_leave a cs w)"
proof -
  obtain r where r: "w_rooms w a = Some r" using assms(3) by (auto simp: get_leave_def)
  from closedD [OF assms(1,2) calm_step.change [OF r mild_intros(3)]]
  show ?thesis by (simp add: put_leave_def r)
qed

subsection \<open>The bound\<close>

lemma find_session_length:
  "find_session sid cs = Some c \<Longrightarrow> Suc (length (erase_session sid cs)) = length cs"
  by (induction cs) (auto simp: find_session_def)

lemma fuel_aux:
  "safe {NoFuel} (shallow a n) (run_prog E n a p)"
  "safe {NoFuel} (shallow a n) (do_act E n a x)"
  "safe {NoFuel} (shallow a n) (remove_client E n a sid b)"
  "safe {NoFuel} (shallow a n) (dispose E n a)"
proof (induction E n a p and E n a x and E n a sid b and E n a
    rule: run_prog_do_act_remove_client_dispose.induct)
  case (2 E n a g gs)
  then show ?case by (auto intro!: safe_rules)
next
  case (12 E n a sid intentional)
  note calm = shallow_calm [of E a n]
  show ?case
  proof (rule safeI)
    fix w assume w: "shallow a (Suc n) w"
    have "fst (remove_client E (Suc n) a sid intentional w) \<noteq> NoFuel"
    proof (cases "w_rooms w a")
      case (Some r)
      show ?thesis
      proof (cases "find_session sid (rm_clients r)")
        case None
        with Some show ?thesis by (simp add: skip_def remove_client.simps)
      next
        case (Some c)
        have rest: "safe {NoFuel} (shallow a n)
            (seq (client_send a (sc_session_id c) removedFromRoom JNull)
            (seq (cb_call (\<lambda>l. run_prog E n a (hk_leave_cb (hooks_of E r) l c intentional))
                  (get_leave a) (put_leave a))
            (seq (log_hook a OnLeave)
            (seq (run_prog E n a (hk_leave (hooks_of E r) c intentional))
               (with_room a (\<lambda>r. if rm_clients r = [] then dispose E n a else skip))))))"
          using 12 Some
          by (intro safe_seq safe_with_room safe_if safe_skip safe_cb_call put_leave_closed [OF calm])
            (auto intro!: safe_NoFuelI keeps_client_send [OF calm] keeps_log_hook [OF calm] no_fuel_basic)
        let ?w = "w\<lparr>w_rooms := (w_rooms w)(a \<mapsto> r\<lparr>rm_clients := erase_session sid (rm_clients r)\<rparr>)\<rparr>"
        have "shallow a n ?w"
          using w \<open>w_rooms w a = Some r\<close> find_session_length [OF Some]
          by (simp add: room_depth_def split: if_splits)
        from safeD(1) [OF rest this] show ?thesis
          using \<open>w_rooms w a = Some r\<close> Some by (simp add: remove_client.simps)
      qed
    qed (simp add: remove_client.simps)
    then show "fst (remove_client E (Suc n) a sid intentional w) \<notin> {NoFuel} \<and>
        shallow a (Suc n) (snd (remove_client E (Suc n) a sid intentional w))"
      using keepsD [where P = "shallow a (Suc n)", OF room_ops_keep(3) [OF closed_shallow] w] by simp
  qed
next
  case (14 E n a)
  note calm = shallow_calm [of E a n] and tail = shallow_tail [of a n]
  show ?case
  proof (rule safeI)
    fix w assume w: "shallow a (Suc n) w"
    have "fst (dispose E (Suc n) a w) \<noteq> NoFuel"
    proof (cases "w_rooms w a")
      case (Some r)
      show ?thesis
      proof (cases "rm_disposing r")
        case True
        with Some show ?thesis by (simp add: skip_def dispose.simps)
      next
        case False
        have rest: "safe {NoFuel} (shallow a n)
            (seq (seqs (\<lambda>sid. remove_client E n a sid True) (map sc_session_id (rm_clients r)))
            (seq (log_hook a BeforeDispose)
            (seq (run_prog E n a (hk_before_dispose (hooks_of E r)))
            (seq (clear_auto_dispose a)
            (seq (forget_room a)
            (seq (unsubscribe_game_message a)
            (seq (unsubscribe_player_left a)
            (seq (log_hook a OnDispose)
            (seq (run_prog E n a (hk_dispose (hooks_of E r)))
                 (with_room a (\<lambda>r. on_room_disposed (rm_id r))))))))))))"
          by (intro safe_seq safe_seqs safe_unsubscribe [OF tail] 14(1) [OF False] 14(2) [OF False] 14(3) [OF False])
            (auto intro!: safe_NoFuelI keeps_tail [OF tail] keeps_log_hook [OF calm] no_fuel_basic fst_with_room)
        let ?w = "w\<lparr>w_rooms := (w_rooms w)(a \<mapsto> r\<lparr>rm_disposing := True\<rparr>)\<rparr>"
        have "shallow a n ?w"
          using w Some False by (simp add: room_depth_def)
        from safeD(1) [OF rest this] show ?thesis
          using Some False by (simp add: dispose.simps)
      qed
    qed (simp add: dispose.simps)
    then show "fst (dispose E (Suc n) a w) \<notin> {NoFuel} \<and>
        shallow a (Suc n) (snd (dispose E (Suc n) a w))"
      using keepsD [where P = "shallow a (Suc n)", OF room_ops_keep(4) [OF closed_shallow] w] by simp
  qed
qed (simp_all add: safe_skip safe_throw safe_NoFuelI no_fuel_basic mild_intros
    keeps_calm_room [OF shallow_calm] keeps_client_send [OF shallow_calm]
    safe_broadcast [OF shallow_calm] safe_set_metadata [OF shallow_calm] safe_def [of _ _ nofuel])

theorem room_ops_fuel:
  assumes "room_depth a w < n"
  shows "fst (run_prog E n a p w) \<noteq> NoFuel" "fst (do_act E n a x w) \<noteq> NoFuel"
    "fst (remove_client E n a sid b w) \<noteq> NoFuel" "fst (dispose E n a w) \<noteq> NoFuel"
  using fuel_aux [THEN safeD(1), OF assms] by simp_all

subsection \<open>More fuel changes nothing\<close>

text \<open>\<open>extends g f\<close>: where \<open>f\<close> does not reach the bound, \<open>g\<close> does the same.\<close>

definition extends :: "wstep \<Rightarrow> wstep \<Rightarrow> bool" where
  "extends g f \<longleftrightarrow> (\<forall>w. fst (f w) \<noteq> NoFuel \<longrightarrow> g w = f w)"

lemma extends_refl: "extends f f"
  by (simp add: extends_def)

lemma extends_nofuel: "extends g nofuel"
  by (simp add: extends_def nofuel_def)

lemma extends_seq:
  assumes "extends f' f" "extends g' g"
  shows "extends (seq f' g') (seq f g)"
  unfolding extends_def
proof (intro allI impI)
  fix w assume nf: "fst (seq f g w) \<noteq> NoFuel"
  then have "fst (f w) \<noteq> NoFuel" by (auto simp: seq_stop)
  with assms(1) have "f' w = f w" by (simp add: extends_def)
  with nf assms(2) show "seq f' g' w = seq f g w"
    by (auto simp: seq_def extends_def split: prod.splits outcome.splits)
qed

lemma extends_seqs: "(\<And>x. extends (f' x) (f x)) \<Longrightarrow> extends (seqs f' xs) (seqs f xs)"
  by (induction xs) (auto intro: extends_seq extends_refl)

lemma extends_reading: "(\<And>u. extends (f' u) (f u)) \<Longrightarrow> extends (reading f') (reading f)"
  by (simp add: extends_def reading_def)

lemma extends_with_room: "(\<And>r. extends (f' r) (f r)) \<Longrightarrow> extends (with_room a f') (with_room a f)"
  unfolding extends_def by (metis option.exhaust with_room_None with_room_Some)

lemma extends_cb_call:
  assumes "\<And>x. extends (invk' x) (invk x)"
  shows "extends (cb_call invk' get put) (cb_call invk get put)"
proof -
  have "extends (call_entry invk' get put v i) (call_entry invk get put v i)" for v i
    unfolding call_entry_def
    by (rule extends_reading) (auto split: option.splits intro: extends_refl extends_seq assms)
  then show ?thesis
    unfolding cb_call_def
    by (intro extends_reading) (auto split: option.splits intro: extends_refl intro!: extends_seq extends_seqs)
qed

lemma fuel_extends:
  "extends (run_prog E (Suc n) a p) (run_prog E n a p)"
  "extends (do_act E (Suc n) a x) (do_act E n a x)"
  "extends (remove_client E (Suc n) a sid b) (remove_client E n a sid b)"
  "extends (dispose E (Suc n) a) (dispose E n a)"
proof (induction E n a p and E n a x and E n a sid b and E n a
    rule: run_prog_do_act_remove_client_dispose.induct)
  case (2 E n a g gs)
  then show ?case by (auto intro!: extends_seq extends_with_room)
next
  case (12 E n a sid intentional)
  show ?case
    unfolding remove_client.simps(2)
    by (rule extends_with_room)
      (auto split: option.splits intro: extends_refl intro!: extends_seq extends_cb_call extends_with_room 12)
next
  case (14 E n a)
  show ?case
    unfolding dispose.simps(2)
    by (rule extends_with_room)
      (auto intro: extends_refl intro!: extends_seq extends_seqs 14)
qed (simp_all add: extends_refl extends_nofuel)

lemma extends_trans: "extends h g \<Longrightarrow> extends g f \<Longrightarrow> extends h f"
  by (metis extends_def)

lemma fuel_extends_le:
  assumes "n \<le> m"
  shows "extends (run_prog E m a p) (run_prog E n a p)" "extends (do_act E m a x) (do_act E n a x)"
    "extends (remove_client E m a sid b) (remove_client E n a sid b)"
    "extends (dispose E m a) (dispose E n a)"
  using assms
  by (induction rule: dec_induct) (blast intro: extends_refl extends_trans fuel_extends)+

lemma fuel_enough:
  assumes "room_depth a w < n" "n \<le> m"
  shows "run_prog E m a p w = run_prog E n a p w" "do_act E m a x w = do_act E n a x w"
    "remove_client E m a sid b w = remove_client E n a sid b w" "dispose E m a w = dispose E n a w"
  using fuel_extends_le [OF assms(2)] room_ops_fuel [OF assms(1)] by (simp_all add: extends_def)

end
