(* ===== verification/Room_Life.thy ===== *)
theory Room_Life imports Room_Fuel
begin

text \<open>
  The life of a room: what is left behind when it is disposed, what a departure does, when the last
  departure disposes the room, and what happens when a hook throws.
\<close>

subsection \<open>The closures of a room\<close>

text \<open>
  \<open>wired a r w\<close>: the room is managed under its identifier, and the closures that captured its
  address in the listener table and in the scheduler are those the room holds handles of.
\<close>

definition wired :: "nat \<Rightarrow> room \<Rightarrow> world \<Rightarrow> bool" where
  "wired a r w \<longleftrightarrow>
     map_of (w_managing w) (rm_id r) = Some a \<and>
     (\<forall>k. \<forall>l \<in> set (ps_listeners (w_pubsub w) k).
        (ls_handler l = GameMessage a \<longrightarrow> rm_game_message_sub r = Some (k, ls_id l)) \<and>
        (ls_handler l = PlayerLeft a \<longrightarrow> rm_player_left_sub r = Some (k, ls_id l))) \<and>
     (\<forall>t \<in> set (sc_tasks (w_sched w)). tk_callback t = AutoDispose a \<longrightarrow>
        rm_auto_dispose_timer r = Some (tk_flag t))"

definition no_timer :: "nat \<Rightarrow> world \<Rightarrow> bool" where
  "no_timer a w \<longleftrightarrow> (\<forall>t \<in> set (sc_tasks (w_sched w)). tk_callback t = AutoDispose a \<longrightarrow>
     sc_cancelled (w_sched w) (tk_flag t))"

definition not_stored :: "string \<Rightarrow> world \<Rightarrow> bool" where
  "not_stored i w \<longleftrightarrow> mem_get (w_now w) (w_storage w) (room_key i) = None"

definition no_handler :: "handler \<Rightarrow> world \<Rightarrow> bool" where
  "no_handler h w \<longleftrightarrow> (\<forall>k. \<forall>l \<in> set (ps_listeners (w_pubsub w) k). ls_handler l \<noteq> h)"

text \<open>Nothing refers to the room any more: not the tables, not the listeners, not its auto-dispose timer.\<close>

definition gone :: "nat \<Rightarrow> string \<Rightarrow> world \<Rightarrow> bool" where
  "gone a i w \<longleftrightarrow> w_rooms w a = None \<and> map_of (w_managing w) i = None \<and> not_stored i w \<and>
     no_handler (GameMessage a) w \<and> no_handler (PlayerLeft a) w \<and> no_timer a w"

text \<open>The room while it is being disposed.\<close>

definition closing :: "nat \<Rightarrow> string \<Rightarrow> world \<Rightarrow> bool" where
  "closing a i w \<longleftrightarrow> (\<exists>r. w_rooms w a = Some r \<and> rm_disposing r \<and> rm_id r = i \<and> wired a r w)"

lemma closingE:
  assumes "closing a i w" obtains r where "w_rooms w a = Some r" "rm_disposing r" "rm_id r = i" "wired a r w"
  using assms by (auto simp: closing_def)

definition phase :: "nat \<Rightarrow> string \<Rightarrow> (world \<Rightarrow> bool) \<Rightarrow> world \<Rightarrow> bool" where
  "phase a i Q w \<longleftrightarrow> closing a i w \<and> Q w"

text \<open>What \<open>dispose\<close> has established so far does not change while hooks run.\<close>

lemma closed_closing: "closed (calm_step E a) (closing a i)"
  unfolding closed_def
proof (intro allI impI)
  fix w w' assume c: "closing a i w" and s: "calm_step E a w w'"
  from c obtain r where r: "w_rooms w a = Some r" "rm_disposing r" "rm_id r = i" "wired a r w"
    by (rule closingE)
  from s show "closing a i w'"
  proof cases
    case (change r0 r')
    with r have "mild r r'" by simp
    with r change show ?thesis
      by (auto simp: closing_def mild_fields wired_def)
  qed (use r in \<open>simp_all add: closing_def wired_def\<close>)
qed

lemma closed_phase:
  "closed (calm_step E a) (phase a i (no_timer a))"
  "closed (calm_step E a) (phase a i (\<lambda>w. no_timer a w \<and> not_stored i w))"
  "closed (calm_step E a) (phase a i (\<lambda>w. no_timer a w \<and> not_stored i w \<and> no_handler (GameMessage a) w))"
  "closed (calm_step E a) (phase a i (\<lambda>w. no_timer a w \<and> not_stored i w \<and>
     no_handler (GameMessage a) w \<and> no_handler (PlayerLeft a) w))"
proof -
  have unread: "no_timer a w' = no_timer a w \<and> no_handler h w' = no_handler h w"
    if "calm_step E a w w'" for w w' h
    using that by cases (simp_all add: no_timer_def no_handler_def)
  have stored: "not_stored i w'" if "calm_step E a w w'" "closing a i w" "not_stored i w" for w w'
    using that(1)
  proof cases
    case (store_metadata r m s)
    with that(2,3) show ?thesis
      by (auto simp: closing_def not_stored_def set_room_metadata_def find_room_by_id_def mem_ops_def)
  qed (use that(2,3) in \<open>simp_all add: not_stored_def\<close>)
  show "closed (calm_step E a) (phase a i (no_timer a))"
    using closed_closing [of E a i] unread unfolding closed_def phase_def by blast
  show "closed (calm_step E a) (phase a i (\<lambda>w. no_timer a w \<and> not_stored i w))"
    using closed_closing [of E a i] unread stored unfolding closed_def phase_def by blast
  show "closed (calm_step E a) (phase a i (\<lambda>w. no_timer a w \<and> not_stored i w \<and> no_handler (GameMessage a) w))"
    using closed_closing [of E a i] unread stored unfolding closed_def phase_def by blast
  show "closed (calm_step E a) (phase a i (\<lambda>w. no_timer a w \<and> not_stored i w \<and>
     no_handler (GameMessage a) w \<and> no_handler (PlayerLeft a) w))"
    using closed_closing [of E a i] unread stored unfolding closed_def phase_def by blast
qed

lemma phase_disposing: "phase a i Q w \<Longrightarrow> w_rooms w a = Some r \<Longrightarrow> rm_disposing r"
  by (auto simp: phase_def closing_def)

lemma no_handler_unsub:
  assumes "\<And>k l. l \<in> set (ps_listeners ps k) \<Longrightarrow> ls_handler l = h \<Longrightarrow> s = Some (k, ls_id l)"
  shows "\<forall>k. \<forall>l \<in> set (ps_listeners (snd (ps_unsubscribe s ps)) k). ls_handler l \<noteq> h"
proof (cases s)
  case (Some x)
  obtain key i where "x = (key, i)" by (cases x)
  with Some assms show ?thesis by (auto simp: ps_listeners_remove split: if_splits)
qed (use assms in auto)

lemma unsub_subset: "l \<in> set (ps_listeners (snd (ps_unsubscribe s ps)) k) \<Longrightarrow> l \<in> set (ps_listeners ps k)"
  by (cases s) (auto simp: ps_listeners_remove split: if_splits)

lemma leads_tail:
  "leads (closing a i) (clear_auto_dispose a) (phase a i (no_timer a))"
  "leads (phase a i (no_timer a)) (forget_room a) (phase a i (\<lambda>w. no_timer a w \<and> not_stored i w))"
  "leads (phase a i (\<lambda>w. no_timer a w \<and> not_stored i w)) (unsubscribe_game_message a)
     (phase a i (\<lambda>w. no_timer a w \<and> not_stored i w \<and> no_handler (GameMessage a) w))"
  "leads (phase a i (\<lambda>w. no_timer a w \<and> not_stored i w \<and> no_handler (GameMessage a) w))
     (unsubscribe_player_left a)
     (phase a i (\<lambda>w. no_timer a w \<and> not_stored i w \<and> no_handler (GameMessage a) w \<and> no_handler (PlayerLeft a) w))"
  "leads (phase a i (\<lambda>w. no_timer a w \<and> not_stored i w \<and> no_handler (GameMessage a) w \<and> no_handler (PlayerLeft a) w))
     (with_room a (\<lambda>r. on_room_disposed (rm_id r))) (gone a i)"
proof -
  show "leads (closing a i) (clear_auto_dispose a) (phase a i (no_timer a))"
  proof (rule leadsI)
    fix w w' assume "closing a i w" and st: "clear_auto_dispose a w = (Normal, w')"
    then obtain r where r: "w_rooms w a = Some r" "rm_disposing r" "rm_id r = i" "wired a r w"
      by (auto elim: closingE)
    with st have "w' = w\<lparr>w_sched := timer_clear (rm_auto_dispose_timer r) (w_sched w)\<rparr>"
      by (simp add: clear_auto_dispose_def effect_def)
    with r show "phase a i (no_timer a) w'"
      by (cases "rm_auto_dispose_timer r") (auto simp: phase_def closing_def wired_def no_timer_def)
  qed
  show "leads (phase a i (no_timer a)) (forget_room a) (phase a i (\<lambda>w. no_timer a w \<and> not_stored i w))"
    by (rule leadsI)
      (auto simp: phase_def closing_def forget_room_def effect_def wired_def no_timer_def not_stored_def
        remove_room_def mem_ops_def mem_get_remove)
  show "leads (phase a i (\<lambda>w. no_timer a w \<and> not_stored i w)) (unsubscribe_game_message a)
     (phase a i (\<lambda>w. no_timer a w \<and> not_stored i w \<and> no_handler (GameMessage a) w))"
  proof (rule leadsI)
    fix w w' assume "phase a i (\<lambda>w. no_timer a w \<and> not_stored i w) w"
      and st: "unsubscribe_game_message a w = (Normal, w')"
    then obtain r where r: "w_rooms w a = Some r" "rm_disposing r" "rm_id r = i" "wired a r w"
      and q: "no_timer a w" "not_stored i w"
      by (auto simp: phase_def elim: closingE)
    have "no_handler (GameMessage a) (w\<lparr>w_pubsub := snd (ps_unsubscribe (rm_game_message_sub r) (w_pubsub w))\<rparr>)"
      using r(4) unfolding wired_def no_handler_def
      by simp (rule no_handler_unsub, blast)
    with r st q show "phase a i (\<lambda>w. no_timer a w \<and> not_stored i w \<and> no_handler (GameMessage a) w) w'"
      by (auto simp: unsubscribe_game_message_def seq_def effect_def phase_def closing_def wired_def
          no_timer_def not_stored_def no_handler_def) (meson unsub_subset)+
  qed
  show "leads (phase a i (\<lambda>w. no_timer a w \<and> not_stored i w \<and> no_handler (GameMessage a) w))
     (unsubscribe_player_left a)
     (phase a i (\<lambda>w. no_timer a w \<and> not_stored i w \<and> no_handler (GameMessage a) w \<and> no_handler (PlayerLeft a) w))"
  proof (rule leadsI)
    fix w w' assume "phase a i (\<lambda>w. no_timer a w \<and> not_stored i w \<and> no_handler (GameMessage a) w) w"
      and st: "unsubscribe_player_left a w = (Normal, w')"
    then obtain r where r: "w_rooms w a = Some r" "rm_disposing r" "rm_id r = i" "wired a r w"
      and q: "no_timer a w" "not_stored i w" "no_handler (GameMessage a) w"
      by (auto simp: phase_def elim: closingE)
    have "no_handler (PlayerLeft a) (w\<lparr>w_pubsub := snd (ps_unsubscribe (rm_player_left_sub r) (w_pubsub w))\<rparr>)"
      using r(4) unfolding wired_def no_handler_def
      by simp (rule no_handler_unsub, blast)
    with r st q show "phase a i (\<lambda>w. no_timer a w \<and> not_stored i w \<and> no_handler (GameMessage a) w \<and> no_handler (PlayerLeft a) w) w'"
      by (auto simp: unsubscribe_player_left_def seq_def effect_def phase_def closing_def wired_def
          no_timer_def not_stored_def no_handler_def) (meson unsub_subset)+
  qed
  show "leads (phase a i (\<lambda>w. no_timer a w \<and> not_stored i w \<and> no_handler (GameMessage a) w \<and> no_handler (PlayerLeft a) w))
     (with_room a (\<lambda>r. on_room_disposed (rm_id r))) (gone a i)"
    by (rule leadsI)
      (auto simp: phase_def closing_def on_room_disposed_def reading_def effect_def wired_def gone_def
        no_timer_def not_stored_def no_handler_def)
qed

subsection \<open>A disposal that returns\<close>

lemma leads_calm:
  assumes "closed (calm_step E a) P" and "\<And>w r. P w \<Longrightarrow> w_rooms w a = Some r \<Longrightarrow> rm_disposing r"
  shows "leads P (run_prog E n a p) P" "leads P (log_hook b h) P"
    "leads P (seqs (\<lambda>sid. remove_client E n a sid True) sids) P"
  by (auto intro!: leads_keeps keeps_seqs keeps_log_hook [OF assms(1)] calm_ops_keep [OF assms])

text \<open>What \<open>dispose\<close> runs on a room \<open>r\<close> it has marked.\<close>

abbreviation dispose_body :: "env \<Rightarrow> nat \<Rightarrow> nat \<Rightarrow> room \<Rightarrow> wstep" where
  "dispose_body E m a r \<equiv>
      seq (seqs (\<lambda>sid. remove_client E m a sid True) (map sc_session_id (rm_clients r)))
        (seq (log_hook a BeforeDispose)
        (seq (run_prog E m a (hk_before_dispose (hooks_of E r)))
        (seq (clear_auto_dispose a)
        (seq (forget_room a)
        (seq (unsubscribe_game_message a)
        (seq (unsubscribe_player_left a)
        (seq (log_hook a OnDispose)
        (seq (run_prog E m a (hk_dispose (hooks_of E r)))
             (with_room a (\<lambda>r. on_room_disposed (rm_id r)))))))))))"

lemma dispose_marked:
  assumes "w_rooms w a = Some r" "\<not> rm_disposing r" "dispose E n a w = (Normal, w')"
  obtains m where "n = Suc m"
    "dispose_body E m a r (w\<lparr>w_rooms := (w_rooms w)(a \<mapsto> r\<lparr>rm_disposing := True\<rparr>)\<rparr>) = (Normal, w')"
  using assms by (cases n) (simp_all add: nofuel_def dispose.simps)

lemma dispose_leads_gone:
  assumes r: "w_rooms w a = Some r" "\<not> rm_disposing r" and "wired a r w"
    and "dispose E n a w = (Normal, w')"
  shows "gone a (rm_id r) w'"
proof -
  let ?i = "rm_id r"
  obtain m where run: "dispose_body E m a r (w\<lparr>w_rooms := (w_rooms w)(a \<mapsto> r\<lparr>rm_disposing := True\<rparr>)\<rparr>) = (Normal, w')"
    using assms by (auto elim: dispose_marked)
  have start: "closing a ?i (w\<lparr>w_rooms := (w_rooms w)(a \<mapsto> r\<lparr>rm_disposing := True\<rparr>)\<rparr>)"
    using assms(3) by (simp add: closing_def wired_def)
  have cl: "\<And>w r. closing a ?i w \<Longrightarrow> w_rooms w a = Some r \<Longrightarrow> rm_disposing r"
    by (auto simp: closing_def)
  note early = leads_calm [OF closed_closing [of E a ?i] cl]
  note late = leads_calm [OF closed_phase(4) [of E a ?i] phase_disposing]
  have "leads (closing a ?i) (dispose_body E m a r) (gone a ?i)"
    by (rule leads_seq [OF early(3)] leads_seq [OF early(2)] leads_seq [OF early(1)]
        leads_seq [OF leads_tail(1)] leads_seq [OF leads_tail(2)] leads_seq [OF leads_tail(3)]
        leads_seq [OF leads_tail(4)] leads_seq [OF late(2)] leads_seq [OF late(1)] leads_tail(5); assumption?)+
  then show ?thesis
    using start run by (rule leadsD)
qed

text \<open>Only the disposed room is destroyed.\<close>

lemma dispose_others:
  assumes r: "w_rooms w a = Some r" and w: "wired a r w" and "dispose E n a w = (res, w')" and "b \<noteq> a"
  shows "w_rooms w' b = w_rooms w b"
proof -
  let ?P = "\<lambda>u. w_rooms u b = w_rooms w b \<and>
      (\<forall>r. w_rooms u a = Some r \<longrightarrow> map_of (w_managing u) (rm_id r) = Some a)"
  have "closed (room_step E a) ?P"
    unfolding closed_def room_step_def
    by (auto elim!: calm_stepE tail_stepE simp: mild_fields \<open>b \<noteq> a\<close>)
  moreover have "?P w" using r w by (simp add: wired_def)
  ultimately have "?P (snd (dispose E n a w))"
    using keepsD [OF room_ops_keep(4)] by blast
  then show ?thesis using assms(3) by simp
qed

end
