(* ===== verification/Room_Quiet.thy ===== *)
theory Room_Quiet imports Room_Life
begin

text \<open>
  Rooms whose hooks leave the membership of the room alone: the operations then always return, and
  the state they return in is known.  \<open>quiet\<close> says what such a hook may do, \<open>soft\<close> what it may change.
\<close>

subsection \<open>Quiet hooks\<close>

fun quiet :: "act \<Rightarrow> bool" where
  "quiet (SetState v) = True"
| "quiet (Broadcast key data) = True"
| "quiet (SendTo sid key data) = True"
| "quiet NoAct = True"
| "quiet (SetMetadata m) = False"
| "quiet Dispose = False"
| "quiet (RemoveFromRoom sid) = False"
| "quiet (ThrowExn e) = False"

definition quiet_prog :: "prog \<Rightarrow> bool" where
  "quiet_prog p \<longleftrightarrow> (\<forall>g \<in> set p. \<forall>r. quiet (g r))"

lemma quiet_prog_simps [simp]:
  "quiet_prog []" "quiet_prog (g # p) \<longleftrightarrow> (\<forall>r. quiet (g r)) \<and> quiet_prog p"
  by (auto simp: quiet_prog_def)

text \<open>The hooks that run when clients leave and when the room is disposed.\<close>

definition quiet_leave :: "hooks \<Rightarrow> bool" where
  "quiet_leave H \<longleftrightarrow> (\<forall>c b. quiet_prog (hk_leave H c b)) \<and> (\<forall>l c b. quiet_prog (hk_leave_cb H l c b)) \<and>
     quiet_prog (hk_before_dispose H) \<and> quiet_prog (hk_dispose H)"

subsection \<open>What quiet hooks change\<close>

definition same_membership :: "room \<Rightarrow> room \<Rightarrow> bool" where
  "same_membership r r' \<longleftrightarrow> mild r r' \<and> rm_clients r' = rm_clients r \<and> rm_metadata r' = rm_metadata r"

definition soft :: "nat \<Rightarrow> world \<Rightarrow> world \<Rightarrow> bool" where
  "soft a w w' \<longleftrightarrow> w' = w\<lparr>w_frames := w_frames w', w_rooms := w_rooms w'\<rparr> \<and>
     (\<forall>b. b \<noteq> a \<longrightarrow> w_rooms w' b = w_rooms w b) \<and>
     (\<exists>r r'. w_rooms w a = Some r \<and> w_rooms w' a = Some r' \<and> same_membership r r')"

lemma same_membership_refl: "same_membership r r"
  by (simp add: same_membership_def mild_def)

lemma same_membership_trans: "same_membership r r' \<Longrightarrow> same_membership r' r'' \<Longrightarrow> same_membership r r''"
  by (simp add: same_membership_def mild_def)

lemma soft_refl: "w_rooms w a = Some r \<Longrightarrow> soft a w w"
  by (simp add: soft_def same_membership_refl)

lemma soft_trans: "soft a w w' \<Longrightarrow> soft a w' w'' \<Longrightarrow> soft a w w''"
proof -
  assume s: "soft a w w'" "soft a w' w''"
  then have e: "w' = w\<lparr>w_frames := w_frames w', w_rooms := w_rooms w'\<rparr>"
      "w'' = w'\<lparr>w_frames := w_frames w'', w_rooms := w_rooms w''\<rparr>" by (simp_all only: soft_def)
  have "w'' = (w\<lparr>w_frames := w_frames w', w_rooms := w_rooms w'\<rparr>)\<lparr>w_frames := w_frames w'', w_rooms := w_rooms w''\<rparr>"
    by (subst e(2), subst e(1)) (rule refl)
  then have "w'' = w\<lparr>w_frames := w_frames w'', w_rooms := w_rooms w''\<rparr>" by simp
  moreover have "\<exists>r r''. w_rooms w a = Some r \<and> w_rooms w'' a = Some r'' \<and> same_membership r r''"
    using s unfolding soft_def by (metis option.inject same_membership_trans)
  ultimately show ?thesis using s by (simp add: soft_def)
qed

lemma soft_fields:
  assumes "soft a w w'"
  shows "w_storage w' = w_storage w" "w_pubsub w' = w_pubsub w" "w_sched w' = w_sched w"
    "w_managing w' = w_managing w" "w_log w' = w_log w" "w_now w' = w_now w"
    "w_connections w' = w_connections w" "w_pending w' = w_pending w" "w_registered w' = w_registered w"
    "w_next_room w' = w_next_room w" "w_ids w' = w_ids w" "w_wall_ms w' = w_wall_ms w"
proof -
  have e: "w' = w\<lparr>w_frames := w_frames w', w_rooms := w_rooms w'\<rparr>" using assms by (simp only: soft_def)
  show "w_storage w' = w_storage w" by (subst e) simp
  show "w_pubsub w' = w_pubsub w" by (subst e) simp
  show "w_sched w' = w_sched w" by (subst e) simp
  show "w_managing w' = w_managing w" by (subst e) simp
  show "w_log w' = w_log w" by (subst e) simp
  show "w_now w' = w_now w" by (subst e) simp
  show "w_connections w' = w_connections w" by (subst e) simp
  show "w_pending w' = w_pending w" by (subst e) simp
  show "w_registered w' = w_registered w" by (subst e) simp
  show "w_next_room w' = w_next_room w" by (subst e) simp
  show "w_ids w' = w_ids w" by (subst e) simp
  show "w_wall_ms w' = w_wall_ms w" by (subst e) simp
qed

lemma soft_room:
  assumes "soft a w w'" "w_rooms w a = Some r"
  obtains r' where "w_rooms w' a = Some r'" "same_membership r r'"
  using assms by (auto simp: soft_def)

lemma soft_other: "soft a w w' \<Longrightarrow> b \<noteq> a \<Longrightarrow> w_rooms w' b = w_rooms w b"
  by (simp add: soft_def)

lemma soft_set_room:
  "w_rooms w a = Some r \<Longrightarrow> same_membership r r' \<Longrightarrow> soft a w (w\<lparr>w_rooms := (w_rooms w)(a \<mapsto> r')\<rparr>)"
  by (simp add: soft_def)

lemma soft_frames: "w_rooms w a = Some r \<Longrightarrow> soft a w (w\<lparr>w_frames := fs\<rparr>)"
  by (simp add: soft_def same_membership_refl)

subsection \<open>Quiet steps return\<close>

text \<open>
  A hook changes no listener table either (\<open>tacit\<close>), so the loop of \<open>call\<close> is well defined.
\<close>

definition tacit :: "nat \<Rightarrow> world \<Rightarrow> world \<Rightarrow> bool" where
  "tacit a w w' \<longleftrightarrow> soft a w w' \<and> get_leave a w' = get_leave a w"

lemma tacit_refl: "w_rooms w a = Some r \<Longrightarrow> tacit a w w"
  by (simp add: tacit_def soft_refl)

lemma tacit_trans: "tacit a w w' \<Longrightarrow> tacit a w' w'' \<Longrightarrow> tacit a w w''"
  by (auto simp: tacit_def intro: soft_trans)

text \<open>\<open>quietly R a f\<close>: on a live room the step returns and its change is in \<open>R\<close>.\<close>

definition quietly :: "(world \<Rightarrow> world \<Rightarrow> bool) \<Rightarrow> nat \<Rightarrow> wstep \<Rightarrow> bool" where
  "quietly R a f \<longleftrightarrow> (\<forall>w r. w_rooms w a = Some r \<longrightarrow> (\<exists>w'. f w = (Normal, w') \<and> R w w'))"

lemma quietlyI:
  "(\<And>w r. w_rooms w a = Some r \<Longrightarrow> \<exists>w'. f w = (Normal, w') \<and> R w w') \<Longrightarrow> quietly R a f"
  by (simp add: quietly_def)

lemma quietlyD: "quietly R a f \<Longrightarrow> w_rooms w a = Some r \<Longrightarrow> \<exists>w'. f w = (Normal, w') \<and> R w w'"
  by (simp add: quietly_def)

lemma quietly_skip: "quietly (tacit a) a skip"
  by (auto simp: quietly_def skip_def intro: tacit_refl)

lemma quietly_mono: "quietly R a f \<Longrightarrow> (\<And>w w'. R w w' \<Longrightarrow> R' w w') \<Longrightarrow> quietly R' a f"
  unfolding quietly_def by blast

lemma quietly_seq:
  assumes "quietly R a f" "quietly R a g" and live: "\<And>w w'. R w w' \<Longrightarrow> w_rooms w' a \<noteq> None"
    and trans: "\<And>w w' w''. R w w' \<Longrightarrow> R w' w'' \<Longrightarrow> R w w''"
  shows "quietly R a (seq f g)"
proof (rule quietlyI)
  fix w :: world and r assume r: "w_rooms w a = Some r"
  from quietlyD [OF assms(1) r] obtain u where u: "f w = (Normal, u)" "R w u" by blast
  with live obtain r' where "w_rooms u a = Some r'" by blast
  from quietlyD [OF assms(2) this] obtain w' where "g u = (Normal, w')" "R u w'" by blast
  with u show "\<exists>w'. seq f g w = (Normal, w') \<and> R w w'" by (auto intro: trans)
qed

lemma soft_live: "soft a w w' \<Longrightarrow> w_rooms w' a \<noteq> None"
  by (auto simp: soft_def)

lemma tacit_live: "tacit a w w' \<Longrightarrow> w_rooms w' a \<noteq> None"
  by (auto simp: tacit_def soft_def)

lemmas quietly_tacit_seq = quietly_seq [where R = "tacit a" and a = a for a, OF _ _ tacit_live tacit_trans]
lemmas quietly_soft_seq = quietly_seq [where R = "soft a" and a = a for a, OF _ _ soft_live soft_trans]

lemma quietly_seqs:
  "(\<And>x. x \<in> set xs \<Longrightarrow> quietly (tacit a) a (f x)) \<Longrightarrow> quietly (tacit a) a (seqs f xs)"
  by (induction xs) (auto intro: quietly_skip quietly_tacit_seq)

lemma quietly_with_room: "(\<And>r. quietly R a (f r)) \<Longrightarrow> quietly R a (with_room a f)"
  by (auto simp: quietly_def)

lemma quietly_send: "quietly (tacit a) a (client_send a sid key data)"
  unfolding client_send_def
  by (rule quietly_with_room)
    (auto simp: quietly_def send_frame_to_client_def reading_def skip_def effect_def tacit_def get_leave_def
      intro: soft_refl soft_frames split: option.splits)

lemma quietly_do_act: "quiet x \<Longrightarrow> quietly (tacit a) a (do_act E n a x)"
proof (cases x)
  case (SetState v)
  then show ?thesis
    by (auto simp: quietly_def tacit_def get_leave_def same_membership_def mild_intros intro!: soft_set_room)
qed (auto simp: broadcast_def intro!: quietly_with_room quietly_seqs quietly_send quietly_skip)

lemma quietly_run_prog: "quiet_prog p \<Longrightarrow> quietly (tacit a) a (run_prog E n a p)"
  by (induction p)
    (auto simp: quietly_skip intro!: quietly_tacit_seq quietly_with_room quietly_do_act)

lemma put_leave_Some: "w_rooms w a = Some r \<Longrightarrow>
   put_leave a cs w = w\<lparr>w_rooms := (w_rooms w)(a \<mapsto> r\<lparr>rm_leave_listeners := cs\<rparr>)\<rparr>"
  by (simp add: put_leave_def)

lemma soft_put_leave:
  "w_rooms w a = Some r \<Longrightarrow> soft a w (put_leave a cs w)"
  by (auto simp: put_leave_Some same_membership_def mild_intros intro!: soft_set_room)

text \<open>The listener tables of a room are tables in the world.\<close>

interpretation leave_table: callback_store "get_leave a" "put_leave a" "put_leave a cb_empty" for a
  by unfold_locales (auto simp: get_leave_def put_leave_def)

interpretation join_table: callback_store "get_join a" "put_join a" "put_join a cb_empty" for a
  by unfold_locales (auto simp: get_join_def put_join_def)

lemma quietly_leave_callbacks:
  assumes "\<And>l. quiet_prog (f l)"
  shows "quietly (soft a) a (cb_call (\<lambda>l. run_prog E n a (f l)) (get_leave a) (put_leave a))"
proof (rule quietlyI)
  fix w :: world and r assume r: "w_rooms w a = Some r"
  have "\<exists>w'. run_prog E n a (f l) u = (Normal, w') \<and> get_leave a w' = Some cs \<and> soft a w w'"
    if u: "soft a w u" and cs: "get_leave a u = Some cs" for l u cs
  proof -
    from cs obtain r' where "w_rooms u a = Some r'" by (auto simp: get_leave_def)
    from quietlyD [OF quietly_run_prog [OF assms] this] obtain w' where
        "run_prog E n a (f l) u = (Normal, w')" "tacit a u w'" by blast
    with u cs show ?thesis by (auto simp: tacit_def intro: soft_trans)
  qed
  moreover have "soft a w (put_leave a cs u)" if "soft a w u" "get_leave a u \<noteq> None" for u cs
    using that by (auto simp: get_leave_def intro: soft_trans soft_put_leave)
  moreover have "get_leave a w = Some (rm_leave_listeners r)" using r by (simp add: get_leave_def)
  ultimately have "\<exists>w'. cb_call (\<lambda>l. run_prog E n a (f l)) (get_leave a) (put_leave a) w = (Normal, w') \<and>
      get_leave a w' \<noteq> None \<and> soft a w w'"
    using soft_refl [OF r] by (intro leave_table.call_returns [where ok = "\<lambda>_. True"]) auto
  then show "\<exists>w'. cb_call (\<lambda>l. run_prog E n a (f l)) (get_leave a) (put_leave a) w = (Normal, w') \<and> soft a w w'"
    by blast
qed

subsection \<open>Departures\<close>

lemma soft_log:
  assumes s: "soft a w w'"
  shows "soft a (w\<lparr>w_log := l\<rparr>) (w'\<lparr>w_log := l\<rparr>)"
proof -
  have "w' = w\<lparr>w_frames := w_frames w', w_rooms := w_rooms w'\<rparr>" using s by (simp only: soft_def)
  then have "w'\<lparr>w_log := l\<rparr> = w\<lparr>w_frames := w_frames w', w_rooms := w_rooms w'\<rparr>\<lparr>w_log := l\<rparr>" by (rule arg_cong)
  also have "\<dots> = w\<lparr>w_log := l\<rparr>\<lparr>w_frames := w_frames (w'\<lparr>w_log := l\<rparr>), w_rooms := w_rooms (w'\<lparr>w_log := l\<rparr>)\<rparr>"
    by simp
  finally show ?thesis using s unfolding soft_def by simp
qed

text \<open>The world after the client with session \<open>sid\<close> is taken out of room \<open>a\<close>, before hooks.\<close>

definition left_world :: "nat \<Rightarrow> room \<Rightarrow> string \<Rightarrow> world \<Rightarrow> world" where
  "left_world a r sid w = w\<lparr>w_rooms := (w_rooms w)(a \<mapsto> r\<lparr>rm_clients := erase_session sid (rm_clients r)\<rparr>),
     w_log := w_log w @ [(a, OnLeave)]\<rparr>"

lemma remove_client_quiet:
  assumes r: "w_rooms w a = Some r" and c: "find_session sid (rm_clients r) = Some c"
    and q: "quiet_leave (hooks_of E r)"
  obtains u r' where "remove_client E (Suc n) a sid b w =
      (if erase_session sid (rm_clients r) = [] then dispose E n a u else (Normal, u))"
    "soft a (left_world a r sid w) u" "w_rooms u a = Some r'"
    "same_membership (r\<lparr>rm_clients := erase_session sid (rm_clients r)\<rparr>) r'"
proof -
  let ?r = "r\<lparr>rm_clients := erase_session sid (rm_clients r)\<rparr>"
  let ?w = "w\<lparr>w_rooms := (w_rooms w)(a \<mapsto> ?r)\<rparr>"
  have "quietly (soft a) a (seq (client_send a (sc_session_id c) removedFromRoom JNull)
          (cb_call (\<lambda>l. run_prog E n a (hk_leave_cb (hooks_of E r) l c b)) (get_leave a) (put_leave a)))"
    using q by (intro quietly_soft_seq quietly_mono [OF quietly_send] quietly_leave_callbacks)
      (auto simp: tacit_def quiet_leave_def)
  from quietlyD [OF this, of ?w ?r] obtain u1 where u1:
      "seq (client_send a (sc_session_id c) removedFromRoom JNull)
          (cb_call (\<lambda>l. run_prog E n a (hk_leave_cb (hooks_of E r) l c b)) (get_leave a) (put_leave a)) ?w = (Normal, u1)"
      "soft a ?w u1" by auto
  let ?u = "u1\<lparr>w_log := w_log u1 @ [(a, OnLeave)]\<rparr>"
  from u1(1) obtain u0 where u0: "client_send a (sc_session_id c) removedFromRoom JNull ?w = (Normal, u0)"
      "cb_call (\<lambda>l. run_prog E n a (hk_leave_cb (hooks_of E r) l c b)) (get_leave a) (put_leave a) u0 = (Normal, u1)"
    by (auto simp: seq_eq_Normal)
  have log: "w_log u1 = w_log w" using soft_fields(5) [OF u1(2)] by simp
  have s1: "soft a (left_world a r sid w) ?u"
    using soft_log [OF u1(2), of "w_log w @ [(a, OnLeave)]"] by (simp add: left_world_def log)
  from soft_room [OF s1, of ?r] obtain r1 where r1: "w_rooms ?u a = Some r1" "same_membership ?r r1"
    by (auto simp: left_world_def)
  have "quietly (tacit a) a (run_prog E n a (hk_leave (hooks_of E r) c b))"
    using q by (intro quietly_run_prog) (simp add: quiet_leave_def)
  from quietlyD [OF this r1(1)] obtain u where u:
      "run_prog E n a (hk_leave (hooks_of E r) c b) ?u = (Normal, u)" "soft a ?u u"
    by (auto simp: tacit_def)
  have s: "soft a (left_world a r sid w) u" using s1 u(2) by (rule soft_trans)
  from soft_room [OF s, of ?r] obtain r' where r': "w_rooms u a = Some r'" "same_membership ?r r'"
    by (auto simp: left_world_def)
  have "remove_client E (Suc n) a sid b w =
      (if erase_session sid (rm_clients r) = [] then dispose E n a u else (Normal, u))"
    using r c u0 u r' unfolding remove_client.simps(2)
    by (simp add: log_hook_def same_membership_def skip_def)
  from that [OF this s r'] show thesis .
qed

subsection \<open>Disposal\<close>

text \<open>The step returns on a live room, which stays live, and the hooks logged are \<open>l\<close>.\<close>

definition logs :: "nat \<Rightarrow> (nat \<times> hook_name) list \<Rightarrow> world \<Rightarrow> world \<Rightarrow> bool" where
  "logs a l w w' \<longleftrightarrow> w_log w' = w_log w @ l \<and> w_rooms w' a \<noteq> None"

lemma logs_seq:
  assumes "quietly (logs a l) a f" "quietly (logs a l') a g"
  shows "quietly (logs a (l @ l')) a (seq f g)"
proof (rule quietlyI)
  fix w :: world and r assume r: "w_rooms w a = Some r"
  from quietlyD [OF assms(1) r] obtain u where u: "f w = (Normal, u)" "logs a l w u" by blast
  then obtain r' where "w_rooms u a = Some r'" by (auto simp: logs_def)
  from quietlyD [OF assms(2) this] obtain w' where "g u = (Normal, w')" "logs a l' u w'" by blast
  with u show "\<exists>w'. seq f g w = (Normal, w') \<and> logs a (l @ l') w w'" by (auto simp: logs_def)
qed

lemma logs_prims:
  "quietly (logs a [(a, h)]) a (log_hook a h)"
  "quietly (logs a []) a (clear_auto_dispose a)" "quietly (logs a []) a (forget_room a)"
  "quietly (logs a []) a (unsubscribe_game_message a)" "quietly (logs a []) a (unsubscribe_player_left a)"
  by (auto simp: quietly_def logs_def log_hook_def effect_def clear_auto_dispose_def forget_room_def
      unsubscribe_game_message_def unsubscribe_player_left_def)

lemma logs_run_prog: "quiet_prog p \<Longrightarrow> quietly (logs a []) a (run_prog E n a p)"
  by (rule quietly_mono [OF quietly_run_prog]) (auto simp: logs_def tacit_def soft_fields dest: soft_live)

lemma erase_head: "erase_session (sc_session_id c) (c # cs) = cs"
  by simp

lemma dispose_loop:
  assumes "quiet_leave (hooks_of E r)" "w_rooms w a = Some r" "rm_disposing r" "rm_clients r = [] \<or> 0 < n"
  shows "\<exists>u r'. seqs (\<lambda>sid. remove_client E (Suc n) a sid True) (map sc_session_id (rm_clients r)) w = (Normal, u) \<and>
     w_rooms u a = Some r' \<and> w_log u = w_log w @ replicate (length (rm_clients r)) (a, OnLeave)"
  using assms
proof (induction "rm_clients r" arbitrary: r w)
  case Nil
  then show ?case by (simp add: skip_def)
next
  case (Cons c cs)
  obtain m where n: "n = Suc m" using Cons.hyps(2) Cons.prems(4) by (cases n) (auto simp flip: Cons.hyps(2))
  have found: "find_session (sc_session_id c) (rm_clients r) = Some c"
    by (simp add: find_session_def flip: Cons.hyps(2))
  from remove_client_quiet [OF Cons.prems(2) found Cons.prems(1)] obtain u r' where u:
      "remove_client E (Suc n) a (sc_session_id c) True w =
       (if erase_session (sc_session_id c) (rm_clients r) = [] then dispose E n a u else (Normal, u))"
      "soft a (left_world a r (sc_session_id c) w) u" "w_rooms u a = Some r'"
      "same_membership (r\<lparr>rm_clients := erase_session (sc_session_id c) (rm_clients r)\<rparr>) r'"
    by blast
  have r': "rm_clients r' = cs" "rm_disposing r'" "rm_type r' = rm_type r"
    using u(4) Cons.prems(3) erase_head [of c cs]
    by (auto simp: same_membership_def mild_def Cons.hyps(2))
  have step: "remove_client E (Suc n) a (sc_session_id c) True w = (Normal, u)"
    using u(1,3) r'(2) by (simp add: n dispose.simps skip_def)
  have log: "w_log u = w_log w @ [(a, OnLeave)]"
    using soft_fields(5) [OF u(2)] by (simp add: left_world_def)
  from Cons.hyps(1) [of r' u] r' u(3) Cons.prems obtain u' r'' where
      "seqs (\<lambda>sid. remove_client E (Suc n) a sid True) (map sc_session_id cs) u = (Normal, u')"
      "w_rooms u' a = Some r''" "w_log u' = w_log u @ replicate (length cs) (a, OnLeave)"
    by (auto simp flip: Cons.hyps(2))
  then show ?case
    using step log by (simp flip: Cons.hyps(2))
qed

lemma dispose_runs:
  assumes r: "w_rooms w a = Some r" "\<not> rm_disposing r" and q: "quiet_leave (hooks_of E r)"
    and n: "(if rm_clients r = [] then 1 else 2) < n"
  shows "\<exists>w'. dispose E n a w = (Normal, w') \<and>
     w_log w' = w_log w @ replicate (length (rm_clients r)) (a, OnLeave) @ [(a, BeforeDispose), (a, OnDispose)]"
proof -
  define m where "m = n - 2"
  then have m: "n = Suc (Suc m)" "rm_clients r = [] \<or> 0 < m" using n by (auto split: if_splits)
  let ?r = "r\<lparr>rm_disposing := True\<rparr>" and ?w = "w\<lparr>w_rooms := (w_rooms w)(a \<mapsto> r\<lparr>rm_disposing := True\<rparr>)\<rparr>"
  obtain u r' where u: "seqs (\<lambda>sid. remove_client E (Suc m) a sid True) (map sc_session_id (rm_clients r)) ?w = (Normal, u)"
     "w_rooms u a = Some r'" "w_log u = w_log w @ replicate (length (rm_clients r)) (a, OnLeave)"
    using dispose_loop [of E ?r ?w a m] q m(2) by auto
  have "quietly (logs a ([(a, BeforeDispose)] @ [] @ [] @ [] @ [] @ [] @ [(a, OnDispose)] @ [])) a
    (seq (log_hook a BeforeDispose)
        (seq (run_prog E (Suc m) a (hk_before_dispose (hooks_of E r)))
        (seq (clear_auto_dispose a)
        (seq (forget_room a)
        (seq (unsubscribe_game_message a)
        (seq (unsubscribe_player_left a)
        (seq (log_hook a OnDispose)
             (run_prog E (Suc m) a (hk_dispose (hooks_of E r))))))))))"
    using q by (intro logs_seq logs_prims logs_run_prog) (simp_all add: quiet_leave_def)
  from quietlyD [OF this u(2)] obtain v where v: "seq (log_hook a BeforeDispose)
        (seq (run_prog E (Suc m) a (hk_before_dispose (hooks_of E r)))
        (seq (clear_auto_dispose a)
        (seq (forget_room a)
        (seq (unsubscribe_game_message a)
        (seq (unsubscribe_player_left a)
        (seq (log_hook a OnDispose)
             (run_prog E (Suc m) a (hk_dispose (hooks_of E r))))))))) u = (Normal, v)"
     "w_log v = w_log u @ [(a, BeforeDispose), (a, OnDispose)]" "w_rooms v a \<noteq> None"
    by (auto simp: logs_def)
  then have "\<exists>w'. with_room a (\<lambda>r. on_room_disposed (rm_id r)) v = (Normal, w') \<and> w_log w' = w_log v"
    by (auto simp: on_room_disposed_def reading_def skip_def effect_def split: option.splits)
  then obtain w' where w': "with_room a (\<lambda>r. on_room_disposed (rm_id r)) v = (Normal, w')" "w_log w' = w_log v"
    by blast
  have "dispose E n a w = (Normal, w')"
    using r u(1) v(1) w'(1) unfolding m(1) dispose.simps(2)
    by (auto simp: seq_eq_Normal)
  with w'(2) v(2) u(3) show ?thesis by simp
qed

lemma dispose_quiet:
  assumes "w_rooms w a = Some r" "\<not> rm_disposing r" "quiet_leave (hooks_of E r)" "length (rm_clients r) + 1 < n"
  shows "\<exists>w'. dispose E n a w = (Normal, w') \<and>
     w_log w' = w_log w @ replicate (length (rm_clients r)) (a, OnLeave) @ [(a, BeforeDispose), (a, OnDispose)]"
  using assms by (intro dispose_runs) (auto simp: neq_Nil_conv)

end
