(* ===== verification/Room_Join.thy ===== *)
theory Room_Join imports Room_Quiet
begin

text \<open>
  Joining a room: a client whose join is accepted is a member afterwards; the listener installed by
  \<open>allow_reconnection\<close>, which clears its own subscription, is run from inside \<open>Callback::call\<close>.
\<close>

text \<open>The hooks that run when a client joins.\<close>

definition quiet_join :: "hooks \<Rightarrow> bool" where
  "quiet_join H \<longleftrightarrow> (\<forall>c v. quiet_prog (hk_can_join H c v)) \<and> (\<forall>c v. quiet_prog (hk_join H c v)) \<and>
     (\<forall>l c. quiet_prog (hk_join_cb H l c))"

definition quiet_listeners :: "hooks \<Rightarrow> bool" where
  "quiet_listeners H \<longleftrightarrow> (\<forall>l c. quiet_prog (hk_join_cb H l c))"

lemma quiet_join_listeners: "quiet_join H \<Longrightarrow> quiet_listeners H"
  by (simp add: quiet_join_def quiet_listeners_def)

text \<open>No reconnection of the client \<open>i\<close> is pending on the listener.\<close>

fun unrelated :: "string \<Rightarrow> join_cb \<Rightarrow> bool" where
  "unrelated i (UserJoin l) = True"
| "unrelated i (Reconnect j t) = (i \<noteq> j)"

definition soft_join :: "nat \<Rightarrow> world \<Rightarrow> world \<Rightarrow> bool" where
  "soft_join a w w' \<longleftrightarrow> (\<exists>cs. soft a (put_join a cs w) w')"

lemma put_join_Some: "w_rooms w a = Some r \<Longrightarrow>
   put_join a cs w = w\<lparr>w_rooms := (w_rooms w)(a \<mapsto> r\<lparr>rm_join_listeners := cs\<rparr>)\<rparr>"
  by (simp add: put_join_def)

lemma put_join_same: "get_join a w = Some cs \<Longrightarrow> put_join a cs w = w"
proof -
  assume "get_join a w = Some cs"
  then obtain r where "w_rooms w a = Some r" "cs = rm_join_listeners r" by (auto simp: get_join_def)
  then have "(w_rooms w)(a := map_option (\<lambda>r. r\<lparr>rm_join_listeners := cs\<rparr>) (w_rooms w a)) = w_rooms w"
    by (simp add: fun_upd_idem)
  then show ?thesis by (simp add: put_join_def)
qed

lemma put_join_twice: "put_join a cs' (put_join a cs w) = put_join a cs' w"
  by (simp add: put_join_def option.map_comp comp_def)

lemma soft_put_join:
  assumes s: "soft a w w'"
  shows "soft a (put_join a cs w) (put_join a cs w')"
proof -
  have e: "w' = w\<lparr>w_frames := w_frames w', w_rooms := w_rooms w'\<rparr>" using s by (simp only: soft_def)
  have "put_join a cs w' = put_join a cs (w\<lparr>w_frames := w_frames w', w_rooms := w_rooms w'\<rparr>)"
    using e by (rule arg_cong)
  also have "\<dots> = (put_join a cs w)\<lparr>w_frames := w_frames (put_join a cs w'), w_rooms := w_rooms (put_join a cs w')\<rparr>"
    by (simp add: put_join_def)
  finally show ?thesis
    using s unfolding soft_def by (auto simp: put_join_def same_membership_def mild_def)
qed

lemma soft_join_soft: "soft a w w' \<Longrightarrow> soft_join a w w'"
proof -
  assume s: "soft a w w'"
  then obtain r where "w_rooms w a = Some r" by (auto simp: soft_def)
  then have "put_join a (rm_join_listeners r) w = w" by (simp add: put_join_same get_join_def)
  with s show ?thesis unfolding soft_join_def by metis
qed

lemma soft_join_trans: "soft_join a w w' \<Longrightarrow> soft_join a w' w'' \<Longrightarrow> soft_join a w w''"
  unfolding soft_join_def by (metis put_join_twice soft_put_join soft_trans)

lemma soft_join_put: "w_rooms w a = Some r \<Longrightarrow> soft_join a w (put_join a cs w)"
  unfolding soft_join_def by (rule exI [of _ cs], rule soft_refl) (simp add: put_join_Some)

lemma soft_get_join: "soft a w w' \<Longrightarrow> get_join a w' = get_join a w"
  by (auto simp: soft_def get_join_def same_membership_def mild_def)

lemma soft_join_fields:
  assumes "soft_join a w w'"
  shows "w_storage w' = w_storage w" "w_pubsub w' = w_pubsub w" "w_sched w' = w_sched w"
    "w_managing w' = w_managing w" "w_log w' = w_log w" "b \<noteq> a \<Longrightarrow> w_rooms w' b = w_rooms w b"
    "w_connections w' = w_connections w" "w_registered w' = w_registered w" "w_now w' = w_now w"
    "w_next_room w' = w_next_room w" "w_ids w' = w_ids w"
  using assms unfolding soft_join_def by (auto simp: soft_fields put_join_def dest: soft_other)

lemma soft_join_room:
  assumes "soft_join a w w'" "w_rooms w a = Some r"
  obtains r' cs where "w_rooms w' a = Some r'" "same_membership (r\<lparr>rm_join_listeners := cs\<rparr>) r'"
proof -
  from assms(1) obtain cs where "soft a (put_join a cs w) w'" by (auto simp: soft_join_def)
  from soft_room [OF this, of "r\<lparr>rm_join_listeners := cs\<rparr>"] assms(2) that show thesis
    by (auto simp: put_join_Some)
qed

lemma join_callbacks_return:
  assumes q: "quiet_listeners (hooks_of E r)" and r: "w_rooms w a = Some r"
    and un: "\<forall>f \<in> ce_callback ` set (cb_entries (rm_join_listeners r)). unrelated (sc_id c) f"
  shows "\<exists>w'. cb_call (run_join_cb E n a c) (get_join a) (put_join a) w = (Normal, w') \<and> soft_join a w w'"
proof -
  have "\<exists>w'. run_join_cb E n a c f u = (Normal, w') \<and> get_join a w' = Some cs \<and> soft_join a w w'"
    if u: "soft_join a w u" and cs: "get_join a u = Some cs" and f: "unrelated (sc_id c) f" for f u cs
  proof -
    from soft_join_room [OF u r] obtain r' js where
        r': "w_rooms u a = Some r'" "same_membership (r\<lparr>rm_join_listeners := js\<rparr>) r'" by blast
    show ?thesis
    proof (cases f)
      case (UserJoin l)
      have "quietly (tacit a) a (run_prog E n a (hk_join_cb (hooks_of E r) l c))"
        using q by (intro quietly_run_prog) (simp add: quiet_listeners_def)
      from quietlyD [OF this r'(1)] obtain w' where
          w': "run_prog E n a (hk_join_cb (hooks_of E r) l c) u = (Normal, w')" "soft a u w'"
        by (auto simp: tacit_def)
      with r' UserJoin cs u show ?thesis
        by (auto simp: soft_get_join same_membership_def mild_def intro: soft_join_trans soft_join_soft)
    next
      case (Reconnect j t)
      with f cs u show ?thesis by (simp add: skip_def)
    qed
  qed
  moreover have "soft_join a w (put_join a cs u)" if "soft_join a w u" "get_join a u \<noteq> None" for u cs
    using that by (auto simp: get_join_def intro: soft_join_trans soft_join_put)
  moreover have "get_join a w = Some (rm_join_listeners r)" using r by (simp add: get_join_def)
  ultimately have "\<exists>w'. cb_call (run_join_cb E n a c) (get_join a) (put_join a) w = (Normal, w') \<and>
      get_join a w' \<noteq> None \<and> soft_join a w w'"
    using soft_join_soft [OF soft_refl [OF r]] un
    by (intro join_table.call_returns [where ok = "unrelated (sc_id c)"]) auto
  then show ?thesis by blast
qed

subsection \<open>An accepted join\<close>

text \<open>What a join changes apart from the room itself and frames: nothing but the log.\<close>

definition only_room :: "nat \<Rightarrow> world \<Rightarrow> world \<Rightarrow> bool" where
  "only_room a w w' \<longleftrightarrow> w_storage w' = w_storage w \<and> w_pubsub w' = w_pubsub w \<and> w_sched w' = w_sched w \<and>
     w_managing w' = w_managing w \<and> w_registered w' = w_registered w \<and> w_now w' = w_now w \<and>
     w_next_room w' = w_next_room w \<and> w_ids w' = w_ids w \<and> (\<forall>b. b \<noteq> a \<longrightarrow> w_rooms w' b = w_rooms w b)"

lemma only_room_soft_join: "soft_join a w w' \<Longrightarrow> only_room a w w'"
  by (simp add: only_room_def soft_join_fields)

lemma only_room_trans: "only_room a w w' \<Longrightarrow> only_room a w' w'' \<Longrightarrow> only_room a w w''"
  by (simp add: only_room_def)

lemma add_client_prefix:
  assumes r: "w_rooms w a = Some r" and q: "quiet_listeners (hooks_of E r)"
    and un: "\<forall>f \<in> ce_callback ` set (cb_entries (rm_join_listeners r)). unrelated (sc_id c) f"
  obtains v r' where "add_client E n a c opts w = run_prog E n a (hk_join (hooks_of E r) c opts) v"
    "w_rooms v a = Some r'" "rm_clients r' = rm_clients r @ [c]" "rm_id r' = rm_id r"
    "rm_disposing r' = rm_disposing r" "rm_type r' = rm_type r"
    "w_log v = w_log w @ [(a, OnJoin)]" "only_room a w v" "w_connections v = w_connections w"
proof -
  let ?r1 = "r\<lparr>rm_clients := rm_clients r @ [c]\<rparr>"
  define r2 where "r2 = (if sc_id (rm_owner ?r1) \<noteq> [] \<and> sc_id c = sc_id (rm_owner ?r1)
      then ?r1\<lparr>rm_owner := (rm_owner ?r1)\<lparr>sc_session_id := sc_session_id c\<rparr>\<rparr> else ?r1)"
  let ?w2 = "w\<lparr>w_rooms := (w_rooms w)(a \<mapsto> r2)\<rparr>"
  have r2: "rm_clients r2 = rm_clients r @ [c]" "rm_type r2 = rm_type r" "rm_id r2 = rm_id r"
      "rm_disposing r2 = rm_disposing r" "rm_join_listeners r2 = rm_join_listeners r"
    by (simp_all add: r2_def)
  have w2: "w_rooms ?w2 a = Some r2" by simp
  have s0: "set_room a (\<lambda>r. r\<lparr>rm_clients := rm_clients r @ [c]\<rparr>) w =
      (Normal, w\<lparr>w_rooms := (w_rooms w)(a \<mapsto> ?r1)\<rparr>)"
    using r by simp
  have s1: "set_room a (\<lambda>r. if sc_id (rm_owner r) \<noteq> [] \<and> sc_id c = sc_id (rm_owner r)
        then r\<lparr>rm_owner := (rm_owner r)\<lparr>sc_session_id := sc_session_id c\<rparr>\<rparr> else r)
      (w\<lparr>w_rooms := (w_rooms w)(a \<mapsto> ?r1)\<rparr>) = (Normal, ?w2)"
    by (simp add: r2_def)
  obtain u where u: "client_send a (sc_session_id c) joinedRoom JNull ?w2 = (Normal, u)" "soft a ?w2 u"
    using quietlyD [OF quietly_send w2, of "sc_session_id c" joinedRoom JNull] unfolding tacit_def by blast
  obtain r3 where r3: "w_rooms u a = Some r3" "same_membership r2 r3" using soft_room [OF u(2) w2] .
  have f3: "rm_type r3 = rm_type r" "rm_join_listeners r3 = rm_join_listeners r"
    using r3(2) by (simp_all add: same_membership_def mild_def r2)
  obtain v where v: "cb_call (run_join_cb E n a c) (get_join a) (put_join a) u = (Normal, v)" "soft_join a u v"
    using join_callbacks_return [of E r3 u a c n] q un r3(1) f3 by auto
  let ?v = "v\<lparr>w_log := w_log v @ [(a, OnJoin)]\<rparr>"
  obtain r4 js where r4: "w_rooms v a = Some r4" "same_membership (r3\<lparr>rm_join_listeners := js\<rparr>) r4"
    using soft_join_room [OF v(2) r3(1)] .
  have fields: "rm_clients r4 = rm_clients r @ [c]" "rm_id r4 = rm_id r" "rm_disposing r4 = rm_disposing r"
      "rm_type r4 = rm_type r"
    using r4(2) r3(2) by (simp_all add: same_membership_def mild_def r2)
  have log: "w_log ?v = w_log w @ [(a, OnJoin)]"
    using soft_fields(5) [OF u(2)] soft_join_fields(5) [OF v(2)] by simp
  have "only_room a ?w2 u" "only_room a u v"
    using u(2) v(2) by (auto intro: only_room_soft_join soft_join_soft)
  then have only: "only_room a w ?v" by (simp add: only_room_def)
  have conn: "w_connections ?v = w_connections w"
    using soft_fields(7) [OF u(2)] soft_join_fields(7) [OF v(2)] by simp
  have "add_client E n a c opts w = run_prog E n a (hk_join (hooks_of E r) c opts) ?v"
    using r u(1) v(1) r4(1) fields(4)
    by (simp add: add_client_def client_has_joined_def log_hook_def s0 s1 del: set_room_Some)
  from that [OF this _ fields log only conn] r4(1) show thesis by simp
qed

lemma add_client_quiet:
  assumes r: "w_rooms w a = Some r" and q: "quiet_join (hooks_of E r)"
    and un: "\<forall>f \<in> ce_callback ` set (cb_entries (rm_join_listeners r)). unrelated (sc_id c) f"
  obtains w' r' where "add_client E n a c opts w = (Normal, w')" "w_rooms w' a = Some r'"
    "rm_clients r' = rm_clients r @ [c]" "rm_id r' = rm_id r" "rm_disposing r' = rm_disposing r"
    "w_log w' = w_log w @ [(a, OnJoin)]" "only_room a w w'" "rm_type r' = rm_type r"
proof -
  obtain v r1 where v: "add_client E n a c opts w = run_prog E n a (hk_join (hooks_of E r) c opts) v"
    "w_rooms v a = Some r1" "rm_clients r1 = rm_clients r @ [c]" "rm_id r1 = rm_id r"
    "rm_disposing r1 = rm_disposing r" "rm_type r1 = rm_type r"
    "w_log v = w_log w @ [(a, OnJoin)]" "only_room a w v"
    by (rule add_client_prefix [OF r quiet_join_listeners [OF q] un, of n opts])
  have "quietly (tacit a) a (run_prog E n a (hk_join (hooks_of E r) c opts))"
    using q by (intro quietly_run_prog) (simp add: quiet_join_def)
  from quietlyD [OF this v(2)] obtain w' where
      w': "run_prog E n a (hk_join (hooks_of E r) c opts) v = (Normal, w')" "soft a v w'"
    by (auto simp: tacit_def)
  obtain r' where r': "w_rooms w' a = Some r'" "same_membership r1 r'"
    using soft_room [OF w'(2) v(2)] .
  have "only_room a v w'" using w'(2) by (intro only_room_soft_join soft_join_soft)
  with v(8) have only: "only_room a w w'" by (rule only_room_trans)
  have f: "rm_clients r' = rm_clients r @ [c]" "rm_id r' = rm_id r" "rm_disposing r' = rm_disposing r"
      and ty: "rm_type r' = rm_type r"
    using r'(2) v(3-6) by (simp_all add: same_membership_def mild_def)
  have "w_log w' = w_log w @ [(a, OnJoin)]" using soft_fields(5) [OF w'(2)] v(7) by simp
  from that [OF _ r'(1) f this only ty] v(1) w'(1) show thesis by simp
qed

lemma join_request_quiet:
  assumes r: "w_rooms w a = Some r" and q: "quiet_join (hooks_of E r)"
    and un: "\<forall>f \<in> ce_callback ` set (cb_entries (rm_join_listeners r)). unrelated (sc_id c) f"
  obtains w' r' where "join_request E n a c opts w = (Normal, w')" "w_rooms w' a = Some r'"
    "rm_clients r' = rm_clients r @ [c]" "rm_id r' = rm_id r" "rm_disposing r' = rm_disposing r"
    "w_log w' = w_log w @ [(a, CanClientJoin), (a, OnJoin)]" "only_room a w w'" "rm_type r' = rm_type r"
proof -
  let ?w = "w\<lparr>w_log := w_log w @ [(a, CanClientJoin)]\<rparr>"
  have "quietly (tacit a) a (run_prog E n a (hk_can_join (hooks_of E r) c opts))"
    using q by (intro quietly_run_prog) (simp add: quiet_join_def)
  from quietlyD [OF this, of ?w r] r obtain u where
      u: "run_prog E n a (hk_can_join (hooks_of E r) c opts) ?w = (Normal, u)" "soft a ?w u"
    by (auto simp: tacit_def)
  obtain r1 where r1: "w_rooms u a = Some r1" "same_membership r r1"
    using soft_room [OF u(2), of r] r by auto
  then have f1: "rm_type r1 = rm_type r" "rm_join_listeners r1 = rm_join_listeners r"
      "rm_clients r1 = rm_clients r" "rm_id r1 = rm_id r" "rm_disposing r1 = rm_disposing r"
    by (simp_all add: same_membership_def mild_def)
  obtain w' r' where w': "add_client E n a c opts u = (Normal, w')" "w_rooms w' a = Some r'"
      "rm_clients r' = rm_clients r1 @ [c]" "rm_id r' = rm_id r1" "rm_disposing r' = rm_disposing r1"
      "w_log w' = w_log u @ [(a, OnJoin)]" "only_room a u w'" "rm_type r' = rm_type r1"
    using add_client_quiet [OF r1(1), of E c n opts] q un f1 by auto
  have "only_room a ?w u" using u(2) by (intro only_room_soft_join soft_join_soft)
  with w'(7) have only: "only_room a w w'" by (simp add: only_room_def)
  have "join_request E n a c opts w = (Normal, w')"
    using r u(1) w'(1) by (simp add: join_request_def catch_std_def log_hook_def)
  moreover have "w_log w' = w_log w @ [(a, CanClientJoin), (a, OnJoin)]"
    using w'(6) soft_fields(5) [OF u(2)] by simp
  ultimately show thesis using that w' f1 only by simp
qed

subsection \<open>The listener of a pending reconnection\<close>

lemma reconnect_listener_step:
  assumes r: "w_rooms w a = Some r" and e: "e \<in> set (cb_entries (rm_join_listeners r))"
    and p: "w_pending w t = Some p" "pd_join_sub p = Some (ce_id e)" and i: "sc_id c = i"
  obtains w' cs where "run_join_cb E n a c (Reconnect i t) w = (Normal, w')"
    "get_join a w' = Some cs" "cb_version cs = Suc (cb_version (rm_join_listeners r))"
    "\<exists>p'. w_pending w' t = Some p' \<and> pd_resolved p'"
proof -
  let ?p = "if pd_resolved p then p else p\<lparr>pd_resolved := True, pd_result := Some True\<rparr>"
  have p': "pd_join_sub ?p = Some (ce_id e)" "pd_resolved ?p" using p by auto
  let ?w1 = "w\<lparr>w_pending := (w_pending w)(t \<mapsto> ?p)\<rparr>"
  let ?w2 = "?w1\<lparr>w_sched := timer_clear (pd_timer ?p) (w_sched ?w1)\<rparr>"
  let ?w3 = "?w2\<lparr>w_rooms := (w_rooms w)(a \<mapsto> r\<lparr>rm_join_listeners := cb_remove (ce_id e) (rm_join_listeners r)\<rparr>)\<rparr>"
  let ?w4 = "?w3\<lparr>w_pending := (w_pending ?w1)(t \<mapsto> ?p\<lparr>pd_join_sub := None\<rparr>)\<rparr>"
  have 1: "resolve t True w = (Normal, ?w1)"
    using p(1) by (simp add: resolve_def set_pending_def effect_def)
  have 2: "clear_pending_timer t ?w1 = (Normal, ?w2)"
    by (simp add: clear_pending_timer_def effect_def)
  have 3: "clear_join_sub a t ?w2 = (Normal, ?w4)"
    using r p' by (simp add: clear_join_sub_def reading_def set_pending_def effect_def)
  have "run_join_cb E n a c (Reconnect i t) w = (Normal, ?w4)"
    using 1 2 3 i by simp
  moreover have "get_join a ?w4 = Some (cb_remove (ce_id e) (rm_join_listeners r))"
    by (simp add: get_join_def)
  moreover have "cb_version (cb_remove (ce_id e) (rm_join_listeners r)) = Suc (cb_version (rm_join_listeners r))"
    using e by (auto simp: cb_remove_def erase_if_def)
  ultimately show thesis
    using that p'(2) by simp
qed

lemma reconnect_join_undef:
  assumes r: "w_rooms w a = Some r" and es: "cb_entries (rm_join_listeners r) = e # es"
    and e: "ce_callback e = Reconnect (sc_id c) t" "\<not> spent e"
    and p: "w_pending w t = Some p" "pd_join_sub p = Some (ce_id e)"
  shows "fst (add_client E n a c opts w) = Undefined"
proof -
  let ?f = "\<lambda>r. if sc_id (rm_owner r) \<noteq> [] \<and> sc_id c = sc_id (rm_owner r)
        then r\<lparr>rm_owner := (rm_owner r)\<lparr>sc_session_id := sc_session_id c\<rparr>\<rparr> else r"
  define r1 where "r1 = r\<lparr>rm_clients := rm_clients r @ [c]\<rparr>"
  define r2 where "r2 = ?f r1"
  let ?w2 = "w\<lparr>w_rooms := (w_rooms w)(a \<mapsto> r2)\<rparr>"
  have join2: "rm_join_listeners r2 = rm_join_listeners r" by (simp add: r2_def r1_def)
  have s0: "set_room a (\<lambda>r. r\<lparr>rm_clients := rm_clients r @ [c]\<rparr>) w = (Normal, w\<lparr>w_rooms := (w_rooms w)(a \<mapsto> r1)\<rparr>)"
    using r by (simp add: r1_def)
  have s1: "set_room a ?f (w\<lparr>w_rooms := (w_rooms w)(a \<mapsto> r1)\<rparr>) = (Normal, ?w2)"
    by (simp add: r2_def)
  obtain u where u: "client_send a (sc_session_id c) joinedRoom JNull ?w2 = (Normal, u)" "soft a ?w2 u"
    using quietlyD [OF quietly_send, of ?w2 a r2 "sc_session_id c" joinedRoom JNull]
    unfolding tacit_def by auto
  obtain r3 where r3: "w_rooms u a = Some r3" "same_membership r2 r3"
    using soft_room [OF u(2), of r2] by auto
  have j: "rm_join_listeners r3 = rm_join_listeners r"
    using r3(2) by (simp add: same_membership_def mild_def join2)
  have pu: "w_pending u t = Some p" using soft_fields(8) [OF u(2)] p(1) by simp
  obtain v cs where v: "run_join_cb E n a c (ce_callback e) u = (Normal, v)" "get_join a v = Some cs"
      "cb_version cs = Suc (cb_version (rm_join_listeners r3))"
    by (rule reconnect_listener_step [OF r3(1) _ pu p(2) refl, of E n]) (use es e(1) j in auto)
  have "fst (cb_call (run_join_cb E n a c) (get_join a) (put_join a) u) = Undefined"
    using join_table.call_self_change [of a u "rm_join_listeners r3" e es "run_join_cb E n a c" v cs]
      r3(1) es e(2) v j by (simp add: get_join_def)
  then show ?thesis
    using u(1) by (simp add: add_client_def client_has_joined_def seq_stop s0 s1 del: set_room_Some)
qed

end
