(* ===== verification/Room_Props.thy ===== *)
theory Room_Props imports Room_Join
begin

text \<open>
  The properties of a room's life, with a concrete room on which each is exercised: \<open>demo_world\<close> has
  one managed room, number 0, with two connected members and both subscriptions.
\<close>

subsection \<open>A concrete room\<close>

definition demo_json :: json_lib where
  "demo_json = \<lparr>jl_parse = (\<lambda>s. if s = ''obj'' then Some (JObject []) else None),
     jl_dump = (\<lambda>v. if v = JObject [] then Some ''obj'' else None),
     jl_what = (\<lambda>e. ''json''), jl_float_int = (\<lambda>f. f)\<rparr>"

definition demo_hooks :: hooks where
  "demo_hooks = \<lparr>hk_create = (\<lambda>_. [\<lambda>_. SetState (JString ''ready'')]), hk_can_join = (\<lambda>_ _. []),
     hk_join = (\<lambda>c _. [\<lambda>_. Broadcast ''hello'' (JString (sc_id c))]),
     hk_message = (\<lambda>c key d. [\<lambda>_. Broadcast key d]),
     hk_leave = (\<lambda>c _. [\<lambda>_. Broadcast ''bye'' (JString (sc_id c))]),
     hk_before_dispose = [\<lambda>_. SetState JNull], hk_dispose = [],
     hk_external = (\<lambda>_ _. []), hk_join_cb = (\<lambda>_ _. []), hk_leave_cb = (\<lambda>_ _ _. [])\<rparr>"

definition demo_env :: env where
  "demo_env = \<lparr>e_json = demo_json, e_rid = (\<lambda>n. replicate (Suc n) (CHR ''r'')),
     e_hooks = (\<lambda>_. demo_hooks), e_idgen = None\<rparr>"

definition demo_client :: "string \<Rightarrow> simple_client" where
  "demo_client i = \<lparr>sc_id = i, sc_session_id = i @ ''-session'', sc_origin = [], sc_ip = []\<rparr>"

definition demo_room :: room where
  "demo_room = \<lparr>rm_id = ''lobby'', rm_type = ''chat'', rm_owner = demo_client ''ann'', rm_options = JObject [],
     rm_creator_options = JObject [], rm_initial_game_values = JObject [], rm_state = JNull,
     rm_metadata = JObject [], rm_clients = [demo_client ''ann'', demo_client ''bob''], rm_disposing = False,
     rm_join_listeners = cb_empty, rm_leave_listeners = cb_empty,
     rm_game_message_sub = Some (''lobby'', ''s1''), rm_player_left_sub = Some (PLAYER_LEFT, ''s2''),
     rm_auto_dispose_timer = Some 0\<rparr>"

definition demo_world :: world where
  "demo_world = empty_world\<lparr>
     w_storage := [(room_key ''lobby'', \<lparr>ent_value = ''obj'', ent_expires_at = None\<rparr>)],
     w_pubsub := [(''lobby'', [\<lparr>ls_id = ''s1'', ls_handler = GameMessage 0\<rparr>]),
                  (PLAYER_LEFT, [\<lparr>ls_id = ''s2'', ls_handler = PlayerLeft 0\<rparr>])],
     w_sched := \<lparr>sc_tasks = [\<lparr>tk_due = AUTO_DISPOSE_AFTER, tk_callback = AutoDispose 0, tk_flag = 0\<rparr>],
                 sc_cancelled = (\<lambda>_. False), sc_next_flag = 1, sc_stopping = False\<rparr>,
     w_rooms := (\<lambda>_. None)(0 \<mapsto> demo_room), w_next_room := 1, w_managing := [(''lobby'', 0)],
     w_connections := [(''ann-session'', demo_client ''ann''), (''bob-session'', demo_client ''bob'')]\<rparr>"

lemma demo_room_at [simp]: "w_rooms demo_world 0 = Some demo_room"
  by (simp add: demo_world_def)

lemma demo_room_fields [simp]:
  "rm_id demo_room = ''lobby''" "rm_type demo_room = ''chat''" "\<not> rm_disposing demo_room"
  "rm_clients demo_room = [demo_client ''ann'', demo_client ''bob'']"
  "cb_entries (rm_join_listeners demo_room) = []"
  by (simp_all add: demo_room_def cb_empty_def)

lemma demo_hooks_of [simp]: "e_hooks demo_env t = demo_hooks"
  by (simp add: demo_env_def)

lemma demo_quiet [simp]: "quiet_leave demo_hooks" "quiet_join demo_hooks"
  by (simp_all add: quiet_leave_def quiet_join_def demo_hooks_def)

lemma demo_wired [simp]: "wired 0 demo_room demo_world"
  by (auto simp: wired_def demo_world_def demo_room_def ps_listeners_def PLAYER_LEFT_def split: if_splits)

lemma demo_log [simp]: "w_log demo_world = []"
  by (simp add: demo_world_def empty_world_def)

lemma demo_depth [simp]: "room_depth 0 demo_world = 3"
  by (simp add: room_depth_def)

subsection \<open>Disposal\<close>





text \<open>the operations of a room terminate: the recursion of hooks, departures and disposals is
  bounded by the number of members, so every sufficiently large bound gives the same outcome, which
  is never that the bound was reached.\<close>

theorem room_operations_terminate:
  assumes "room_depth a w < n" "n \<le> m"
  shows "dispose E m a w = dispose E n a w \<and> fst (dispose E m a w) \<noteq> NoFuel \<and>
    remove_client E m a sid b w = remove_client E n a sid b w \<and> fst (remove_client E m a sid b w) \<noteq> NoFuel \<and>
    run_prog E m a p w = run_prog E n a p w \<and> fst (run_prog E m a p w) \<noteq> NoFuel"
  using fuel_enough [OF assms] room_ops_fuel [OF assms(1)] by simp

theorem room_operations_terminate_witness:
  "fst (dispose demo_env 9 0 demo_world) \<noteq> NoFuel \<and>
   dispose demo_env 9 0 demo_world = dispose demo_env 4 0 demo_world"
  using room_operations_terminate [where a = 0 and w = demo_world and n = 4 and m = 9 and E = demo_env
      and sid = "[]" and b = False and p = "[]"] by force

subsection \<open>Departures\<close>

text \<open>a member that leaves while others stay is taken out of the member list, the leave hook runs
  once, and the room stays managed and undisturbed.\<close>

theorem leave_member:
  assumes "w_rooms w a = Some r" "find_session sid (rm_clients r) = Some c"
    and "quiet_leave (e_hooks E (rm_type r))" "erase_session sid (rm_clients r) \<noteq> []"
  shows "\<exists>w' r'. remove_client E (Suc n) a sid b w = (Normal, w') \<and> w_rooms w' a = Some r' \<and>
    rm_clients r' = erase_session sid (rm_clients r) \<and> rm_disposing r' = rm_disposing r \<and>
    w_log w' = w_log w @ [(a, OnLeave)] \<and> w_managing w' = w_managing w \<and>
    w_storage w' = w_storage w \<and> w_pubsub w' = w_pubsub w"
proof -
  obtain u r' where "remove_client E (Suc n) a sid b w =
      (if erase_session sid (rm_clients r) = [] then dispose E n a u else (Normal, u))"
      and u: "soft a (left_world a r sid w) u" "w_rooms u a = Some r'"
      and m: "same_membership (r\<lparr>rm_clients := erase_session sid (rm_clients r)\<rparr>) r'"
    using remove_client_quiet [OF assms(1-3)] by blast
  then have "remove_client E (Suc n) a sid b w = (Normal, u)" using assms(4) by simp
  moreover have "rm_clients r' = erase_session sid (rm_clients r)" "rm_disposing r' = rm_disposing r"
    using m by (simp_all add: same_membership_def mild_def)
  ultimately show ?thesis
    using u(2) soft_fields [OF u(1)] by (simp add: left_world_def)
qed

theorem leave_member_witness:
  "\<exists>w' r'. remove_client demo_env 1 0 ''ann-session'' False demo_world = (Normal, w') \<and>
     w_rooms w' 0 = Some r' \<and> rm_clients r' = [demo_client ''bob'']"
  using leave_member [of demo_world 0 demo_room "''ann-session''" "demo_client ''ann''" demo_env 0 False]
  by (fastforce simp: find_session_def demo_client_def)

text \<open>when the last member leaves, the room is disposed completely: leave hook, dispose hooks, and
  nothing refers to the room any more.\<close>

theorem leave_last:
  assumes "w_rooms w a = Some r" "\<not> rm_disposing r" "wired a r w" "find_session sid (rm_clients r) = Some c"
    and "quiet_leave (e_hooks E (rm_type r))" "erase_session sid (rm_clients r) = []" "1 < n"
  shows "\<exists>w'. remove_client E (Suc n) a sid b w = (Normal, w') \<and> gone a (rm_id r) w' \<and>
    w_log w' = w_log w @ [(a, OnLeave), (a, BeforeDispose), (a, OnDispose)]"
proof -
  obtain u r' where rem: "remove_client E (Suc n) a sid b w =
      (if erase_session sid (rm_clients r) = [] then dispose E n a u else (Normal, u))"
      and u: "soft a (left_world a r sid w) u" "w_rooms u a = Some r'"
      and m: "same_membership (r\<lparr>rm_clients := erase_session sid (rm_clients r)\<rparr>) r'"
    using remove_client_quiet [OF assms(1,4,5)] by blast
  have f: "rm_clients r' = []" "\<not> rm_disposing r'" "rm_type r' = rm_type r" "rm_id r' = rm_id r"
      "rm_game_message_sub r' = rm_game_message_sub r" "rm_player_left_sub r' = rm_player_left_sub r"
      "rm_auto_dispose_timer r' = rm_auto_dispose_timer r"
    using m assms(2,6) by (simp_all add: same_membership_def mild_def)
  have w: "wired a r' u"
    using assms(3) f soft_fields [OF u(1)] by (simp add: wired_def left_world_def)
  have q: "quiet_leave (e_hooks E (rm_type r'))" using assms(5) f by simp
  obtain w' where w': "dispose E n a u = (Normal, w')"
      "w_log w' = w_log u @ [(a, BeforeDispose), (a, OnDispose)]"
    using dispose_quiet [OF u(2) f(2) q, of n] f(1) assms(7) by auto
  have "gone a (rm_id r) w'"
    using dispose_leads_gone [OF u(2) f(2) w w'(1)] f(4) by simp
  then show ?thesis
    using rem assms(6) w' soft_fields(5) [OF u(1)] by (simp add: left_world_def)
qed

definition solo_room :: room where
  "solo_room = demo_room\<lparr>rm_clients := [demo_client ''bob'']\<rparr>"

definition solo_world :: world where
  "solo_world = demo_world\<lparr>w_rooms := (\<lambda>_. None)(0 \<mapsto> solo_room)\<rparr>"

lemma solo_fields [simp]:
  "w_rooms solo_world 0 = Some solo_room" "\<not> rm_disposing solo_room" "rm_type solo_room = ''chat''"
  "rm_id solo_room = ''lobby''" "w_log solo_world = []"
  "find_session ''bob-session'' (rm_clients solo_room) = Some (demo_client ''bob'')"
  "erase_session ''bob-session'' (rm_clients solo_room) = []"
  by (simp_all add: solo_world_def solo_room_def find_session_def demo_client_def)

lemma solo_wired [simp]: "wired 0 solo_room solo_world"
  using demo_wired by (simp add: wired_def solo_room_def solo_world_def)

theorem leave_last_witness:
  "\<exists>w'. remove_client demo_env 3 0 ''bob-session'' False solo_world = (Normal, w') \<and> gone 0 ''lobby'' w' \<and>
     w_log w' = [(0, OnLeave), (0, BeforeDispose), (0, OnDispose)]"
  using leave_last [of solo_world 0 solo_room "''bob-session''" "demo_client ''bob''" demo_env 2 False]
  by simp

subsection \<open>Joining\<close>

text \<open>a client that asks to join, whose join is accepted by quiet hooks and for whom no
  reconnection is pending, is the last member afterwards; the hooks ran in order and nothing but the
  room and the frames sent changed.\<close>

theorem join_accepted:
  assumes "w_rooms w a = Some r" "quiet_join (e_hooks E (rm_type r))"
    and "\<forall>f \<in> ce_callback ` set (cb_entries (rm_join_listeners r)). unrelated (sc_id c) f"
  shows "\<exists>w' r'. join_request E n a c opts w = (Normal, w') \<and> w_rooms w' a = Some r' \<and>
    rm_clients r' = rm_clients r @ [c] \<and> w_log w' = w_log w @ [(a, CanClientJoin), (a, OnJoin)] \<and>
    only_room a w w'"
  using join_request_quiet [OF assms, of n opts] by metis

theorem join_accepted_witness:
  "\<exists>w' r'. join_request demo_env 1 0 (demo_client ''eve'') JNull demo_world = (Normal, w') \<and>
     w_rooms w' 0 = Some r' \<and>
     rm_clients r' = [demo_client ''ann'', demo_client ''bob'', demo_client ''eve'']"
  using join_accepted [of demo_world 0 demo_room demo_env "demo_client ''eve''" 1 JNull] by fastforce

text \<open>a client that \<open>can_client_join\<close> refuses by throwing is told so in an error frame and is not
  added: the members are those the hook left.\<close>

theorem join_refused:
  assumes "w_rooms w a = Some r"
    and "run_prog E n a (hk_can_join (e_hooks E (rm_type r)) c opts)
           (w\<lparr>w_log := w_log w @ [(a, CanClientJoin)]\<rparr>) = (Raised e, u)"
    and "is_std e" "w_rooms u a = Some r'" "map_of (w_connections u) (sc_session_id c) \<noteq> None"
  shows "join_request E n a c opts w =
    (Normal, u\<lparr>w_frames := w_frames u @ [(sc_session_id c, rm_id r' @ ''-error'',
       jobj [(''message'', JString (what (e_json E) e))])]\<rparr>)"
  using assms by (auto simp: join_request_def catch_std_def log_hook_def send_frame_to_client_def
      reading_def effect_def)

definition strict_env :: env where
  "strict_env = demo_env\<lparr>e_hooks := (\<lambda>_. demo_hooks\<lparr>
     hk_can_join := (\<lambda>_ _. [\<lambda>_. ThrowExn (RuntimeError ''Room is full'')])\<rparr>)\<rparr>"

theorem join_refused_witness:
  "\<exists>u. join_request strict_env 1 0 (demo_client ''bob'') JNull demo_world =
     (Normal, u\<lparr>w_frames := w_frames u @ [(''bob-session'', ''lobby-error'',
        jobj [(''message'', JString ''Room is full'')])]\<rparr>) \<and> w_rooms u 0 = Some demo_room"
proof -
  let ?u = "demo_world\<lparr>w_log := [(0, CanClientJoin)]\<rparr>"
  have "run_prog strict_env 1 0 (hk_can_join (e_hooks strict_env (rm_type demo_room)) (demo_client ''bob'') JNull)
      (demo_world\<lparr>w_log := w_log demo_world @ [(0, CanClientJoin)]\<rparr>) = (Raised (RuntimeError ''Room is full''), ?u)"
    by (simp add: strict_env_def seq_def throw_def)
  from join_refused [OF demo_room_at this] show ?thesis
    by (intro exI [of _ ?u]) (simp add: demo_world_def demo_client_def)
qed

text \<open>a client whose \<open>on_join\<close> hook throws stays a member although it is sent the error frame that a
  refused client gets.\<close>

theorem join_error_keeps_member:
  assumes "w_rooms w a = Some r" "quiet_listeners (e_hooks E (rm_type r))"
    and "quiet_prog (hk_can_join (e_hooks E (rm_type r)) c opts)"
    and "\<forall>f \<in> ce_callback ` set (cb_entries (rm_join_listeners r)). unrelated (sc_id c) f"
    and "hk_join (e_hooks E (rm_type r)) c opts = [\<lambda>_. ThrowExn (RuntimeError m)]"
    and "map_of (w_connections w) (sc_session_id c) \<noteq> None"
  shows "\<exists>w' r' fs. join_request E n a c opts w = (Normal, w') \<and> w_rooms w' a = Some r' \<and>
    rm_clients r' = rm_clients r @ [c] \<and>
    w_frames w' = fs @ [(sc_session_id c, rm_id r @ ''-error'', jobj [(''message'', JString m)])]"
proof -
  let ?w = "w\<lparr>w_log := w_log w @ [(a, CanClientJoin)]\<rparr>"
  have "\<exists>u. run_prog E n a (hk_can_join (hooks_of E r) c opts) ?w = (Normal, u) \<and> soft a ?w u"
    using quietlyD [OF quietly_run_prog [OF assms(3)], of ?w a r] assms(1) by (auto simp: tacit_def)
  then obtain u where u: "run_prog E n a (hk_can_join (hooks_of E r) c opts) ?w = (Normal, u)" "soft a ?w u"
    by blast
  obtain r1 where r1: "w_rooms u a = Some r1" "same_membership r r1"
    using soft_room [OF u(2), of r] assms(1) by auto
  then have f1: "rm_type r1 = rm_type r" "rm_join_listeners r1 = rm_join_listeners r"
      "rm_clients r1 = rm_clients r" "rm_id r1 = rm_id r"
    by (simp_all add: same_membership_def mild_def)
  obtain v r' where v: "add_client E n a c opts u = run_prog E n a (hk_join (hooks_of E r1) c opts) v"
    "w_rooms v a = Some r'" "rm_clients r' = rm_clients r1 @ [c]" "rm_id r' = rm_id r1"
    "w_connections v = w_connections u"
    by (rule add_client_prefix [OF r1(1), of E c n opts]) (use assms(2,4) f1 in auto)
  have "add_client E n a c opts u = (Raised (RuntimeError m), v)"
    using v(1,2) assms(5) f1(1) by (simp add: throw_def seq_def)
  then have "join_request E n a c opts w =
      send_frame_to_client (sc_session_id c) (rm_id r' @ ''-error'') (jobj [(''message'', JString m)]) v"
    using assms(1) u(1) v(2) by (simp add: join_request_def catch_std_def log_hook_def)
  moreover have "map_of (w_connections v) (sc_session_id c) \<noteq> None"
    using v(5) soft_fields(7) [OF u(2)] assms(6) by simp
  ultimately show ?thesis
    using v(2-4) f1 by (auto simp: send_frame_to_client_def reading_def effect_def)
qed

definition grumpy_env :: env where
  "grumpy_env = demo_env\<lparr>e_hooks := (\<lambda>_. demo_hooks\<lparr>
     hk_join := (\<lambda>_ _. [\<lambda>_. ThrowExn (RuntimeError ''no thanks'')])\<rparr>)\<rparr>"

theorem join_error_keeps_member_witness:
  "\<exists>w' r' fs. join_request grumpy_env 1 0 (demo_client ''bob'') JNull demo_world = (Normal, w') \<and>
    w_rooms w' 0 = Some r' \<and>
    rm_clients r' = [demo_client ''ann'', demo_client ''bob'', demo_client ''bob''] \<and>
    w_frames w' = fs @ [(''bob-session'', ''lobby-error'', jobj [(''message'', JString ''no thanks'')])]"
proof -
  have "map_of (w_connections demo_world) ''bob-session'' \<noteq> None" by (simp add: demo_world_def)
  moreover have "sc_session_id (demo_client ''bob'') = ''bob-session''" by (simp add: demo_client_def)
  ultimately show ?thesis
    using join_error_keeps_member [of demo_world 0 demo_room grumpy_env "demo_client ''bob''" JNull "''no thanks''" 1]
    by (simp add: grumpy_env_def quiet_listeners_def demo_hooks_def)
qed

text \<open>a client that comes back while a reconnection is waited for makes the loop of
  \<open>Callback::call\<close> undefined: the listener of \<open>allow_reconnection\<close> clears its own subscription, which
  erases the entry being run from the vector that the loop walks.\<close>

theorem reconnection_self_erase:
  assumes "w_rooms w a = Some r" "\<not> rm_disposing r" "cb_entries (rm_join_listeners r) = []"
    and "sc_id c' = sc_id c"
  shows "fst (seq (begin_reconnection E a c seconds (\<lambda>_. skip)) (add_client E n a c' opts) w) = Undefined"
proof -
  let ?t = "w_next_pending w"
  let ?e = "\<lparr>ce_callback = Reconnect (sc_id c) ?t, ce_once = False, ce_called_once = False, ce_id = e_rid E (w_ids w)\<rparr>"
  obtain u r' p where u: "begin_reconnection E a c seconds (\<lambda>_. skip) w = (Normal, u)"
      "w_rooms u a = Some r'" "cb_entries (rm_join_listeners r') = [?e]"
      "w_pending u ?t = Some p" "pd_join_sub p = Some (e_rid E (w_ids w))"
    using assms(1-3)
    by (simp add: begin_reconnection_def reading_def random_id_def set_pending_def effect_def skip_def
        seq_def cb_add_def Let_def set_timeout_def)
  have "fst (add_client E n a c' opts u) = Undefined"
    using u assms(4) by (intro reconnect_join_undef [of u a r' ?e "[]" c' ?t p]) (simp_all add: spent_def)
  then show ?thesis using u(1) by simp
qed

theorem reconnection_self_erase_witness:
  "fst (seq (begin_reconnection demo_env 0 (demo_client ''ann'') 30 (\<lambda>_. skip))
     (add_client demo_env 1 0 (demo_client ''ann'') JNull) demo_world) = Undefined"
  using reconnection_self_erase [of demo_world 0 demo_room "demo_client ''ann''" "demo_client ''ann''"] by simp

end
