(* ===== verification/Room_Timer.thy ===== *)
theory Room_Timer imports Room_Props
begin

text \<open>
  The timers of pending reconnections: \<open>dispose\<close> cancels the room's own timer only, so the timer that
  \<open>allow_reconnection\<close> started outlives the room.
\<close>

definition armed :: "nat \<Rightarrow> timer_cb task \<Rightarrow> world \<Rightarrow> bool" where
  "armed a t w \<longleftrightarrow> t \<in> set (sc_tasks (w_sched w)) \<and> \<not> sc_cancelled (w_sched w) (tk_flag t) \<and>
     (\<forall>r. w_rooms w a = Some r \<longrightarrow> rm_auto_dispose_timer r \<noteq> Some (tk_flag t))"

lemma timer_clear_other:
  "sc_tasks (timer_clear h s) = sc_tasks s"
  "h \<noteq> Some i \<Longrightarrow> sc_cancelled (timer_clear h s) i = sc_cancelled s i"
  by (cases h; simp)+

lemma armed_calm: "armed a t w \<Longrightarrow> calm_step E a w w' \<Longrightarrow> armed a t w'"
  by (erule calm_stepE) (auto simp: armed_def mild_def)

lemma armed_tail: "armed a t w \<Longrightarrow> tail_step a w w' \<Longrightarrow> armed a t w'"
  by (erule tail_stepE) (auto simp: armed_def timer_clear_other)

lemma dispose_keeps_armed: "keeps (armed a t) (dispose E n a)"
  by (rule room_ops_keep(4)) (auto simp: closed_def room_step_def intro: armed_calm armed_tail)

text \<open>C39: The disposal of a room does not cancel the timer of a pending reconnection: the task is still
  there and not cancelled afterwards, and when the worker runs it, it uses the room that has been
  destroyed.\<close>

theorem reconnection_timer_outlives_room:
  assumes "w_rooms w a = Some r" "\<not> rm_disposing r" "wired a r w" "quiet_leave (e_hooks E (rm_type r))"
    and "length (rm_clients r) + 1 < n"
    and "t \<in> set (sc_tasks (w_sched w))" "\<not> sc_cancelled (w_sched w) (tk_flag t)"
    and "tk_callback t = ReconnectTimeout a client_id p" "rm_auto_dispose_timer r \<noteq> Some (tk_flag t)"
  shows "\<exists>w'. dispose E n a w = (Normal, w') \<and> t \<in> set (sc_tasks (w_sched w')) \<and>
    \<not> sc_cancelled (w_sched w') (tk_flag t) \<and> run_timer E m (tk_callback t) w' = (Undefined, w')"
proof -
  obtain w' where w': "dispose E n a w = (Normal, w')"
    using dispose_quiet [OF assms(1,2,4,5)] by blast
  have "armed a t w" using assms(1,6,7,9) by (simp add: armed_def)
  then have "armed a t w'" using keepsD [OF dispose_keeps_armed, of a t w E n] w' by simp
  moreover have "w_rooms w' a = None"
    using dispose_leads_gone [OF assms(1-3) w'] by (simp add: gone_def)
  ultimately show ?thesis
    using w' assms(8) by (simp add: armed_def reconnect_timeout_def)
qed

text \<open>The room of \<open>demo_world\<close> after a client was lost whose reconnection is awaited for a minute.\<close>

definition awaiting_world :: world where
  "awaiting_world = snd (begin_reconnection demo_env 0 (demo_client ''eve'') 60 (\<lambda>_. skip) demo_world)"

definition awaited_task :: "timer_cb task" where
  "awaited_task = \<lparr>tk_due = 60000, tk_callback = ReconnectTimeout 0 ''eve'' 0, tk_flag = 1\<rparr>"

theorem reconnection_timer_outlives_room_witness:
  "\<exists>w'. dispose demo_env 4 0 awaiting_world = (Normal, w') \<and> awaited_task \<in> set (sc_tasks (w_sched w')) \<and>
    \<not> sc_cancelled (w_sched w') (tk_flag awaited_task) \<and>
    run_timer demo_env 4 (tk_callback awaited_task) w' = (Undefined, w')"
proof -
  let ?r = "demo_room\<lparr>rm_join_listeners := snd (cb_add ''r'' (Reconnect ''eve'' 0) False (rm_join_listeners demo_room))\<rparr>"
  have w: "awaiting_world = demo_world\<lparr>w_rooms := (w_rooms demo_world)(0 \<mapsto> ?r), w_ids := 1, w_next_pending := 1,
      w_sched := snd (set_timeout 0 60000 (ReconnectTimeout 0 ''eve'' 0) (w_sched demo_world)),
      w_pending := (\<lambda>_. None)(0 \<mapsto> \<lparr>pd_resolved = False, pd_result = None, pd_join_sub = Some ''r'', pd_timer = Some 1\<rparr>)\<rparr>"
    by (simp add: awaiting_world_def begin_reconnection_def reading_def random_id_def demo_world_def empty_world_def
        set_pending_def effect_def seq_def set_timeout_def skip_def demo_env_def demo_client_def with_room_def set_room_def
        demo_room_def Let_def)
  have r: "w_rooms awaiting_world 0 = Some ?r" "\<not> rm_disposing ?r" "wired 0 ?r awaiting_world"
    by (simp_all add: w) (auto simp: wired_def demo_world_def demo_room_def set_timeout_def ps_listeners_def PLAYER_LEFT_def
      split: if_splits)
  show ?thesis
    by (rule reconnection_timer_outlives_room [OF r])
      (simp_all add: w set_timeout_def awaited_task_def demo_world_def demo_room_def)
qed

subsection \<open>The room's own timer\<close>

text \<open>C40: The cancellation of the auto-dispose timer comes too late for a task the worker has already
  taken: the worker tests the flag before it waits for the game lock, so when the thread that holds the
  lock disposes of the room meanwhile, the callback is run on the destroyed room.\<close>

theorem taken_timer_outlives_room:
  assumes "sched_turn (w_now w) (w_sched w) = (Run t, s)" "tk_callback t = AutoDispose a"
    and "w_rooms w a = Some r" "\<not> rm_disposing r" "wired a r w" "quiet_leave (e_hooks E (rm_type r))"
    and "length (rm_clients r) + 1 < n"
  shows "\<exists>w'. dispose E n a (w\<lparr>w_sched := s\<rparr>) = (Normal, w') \<and> run_timer E n (tk_callback t) w' = (Undefined, w')"
proof -
  let ?w = "w\<lparr>w_sched := s\<rparr>"
  have r: "w_rooms ?w a = Some r" "wired a r ?w"
    using assms(3,5) turn_tasks(1) [OF assms(1)] by (auto simp: wired_def)
  obtain w' where w': "dispose E n a ?w = (Normal, w')"
    using dispose_quiet [OF r(1) assms(4,6,7)] by blast
  then have "w_rooms w' a = None"
    using dispose_leads_gone [OF r(1) assms(4) r(2)] by (simp add: gone_def)
  moreover obtain m where "n = Suc m" using assms(7) by (cases n) simp_all
  ultimately show ?thesis using w' assms(2) by (simp add: dispose.simps)
qed

text \<open>The room of \<open>demo_world\<close> when its two and a half hours are over.\<close>

definition late_world :: world where
  "late_world = demo_world\<lparr>w_now := AUTO_DISPOSE_AFTER\<rparr>"

theorem taken_timer_outlives_room_witness:
  "\<exists>t s w'. sched_turn (w_now late_world) (w_sched late_world) = (Run t, s) \<and>
     dispose demo_env 4 0 (late_world\<lparr>w_sched := s\<rparr>) = (Normal, w') \<and>
     run_timer demo_env 4 (tk_callback t) w' = (Undefined, w')"
proof -
  let ?t = "\<lparr>tk_due = AUTO_DISPOSE_AFTER, tk_callback = AutoDispose 0, tk_flag = 0\<rparr>"
  let ?s = "(w_sched late_world)\<lparr>sc_tasks := []\<rparr>"
  have t: "sched_turn (w_now late_world) (w_sched late_world) = (Run ?t, ?s)"
    by (simp add: sched_turn_def late_world_def demo_world_def)
  have r: "w_rooms late_world 0 = Some demo_room" "wired 0 demo_room late_world"
    using demo_wired by (simp_all add: late_world_def wired_def)
  show ?thesis
    using taken_timer_outlives_room [OF t, of 0 demo_room demo_env 4] r t by fastforce
qed

end
