(* ===== verification/Server_Create.thy ===== *)
theory Server_Create imports Server Room_Join
begin

text \<open>
  Creating a room: the choice of its identifier, its initialisation, its registration, and the
  state the server is left in, on success and on the failures of the code.
\<close>

subsection \<open>The identifier\<close>

text \<open>
  Whatever is done next with the identifier, it is one that is not in use; otherwise the creation
  stops with an exception.
\<close>

lemma pick_room_id_outcomes:
  "(\<exists>e u. pick_room_id E name opts creator ex m k w = (Raised e, u)) \<or>
   (\<exists>i u. i \<notin> set ex \<and> i \<noteq> [] \<and> pick_room_id E name opts creator ex m k w = k i u) \<or>
   (\<exists>u. pick_room_id E name opts creator ex m k w = k [] u)"
proof (induction m arbitrary: w)
  case 0
  then show ?case by auto
next
  case (Suc m)
  let ?go = "\<lambda>cand. if cand \<notin> set ex \<and> cand \<noteq> [] then k cand else pick_room_id E name opts creator ex m k"
  have cand: "(\<exists>e u. room_id_candidate E name opts creator ?go w = (Raised e, u)) \<or>
      (\<exists>c u. room_id_candidate E name opts creator ?go w = ?go c u)"
    by (auto simp: room_id_candidate_def random_id_def reading_def from_res_def throw_def
        split: option.splits sum.splits)
  show ?case
  proof (rule disjE [OF cand])
    assume "\<exists>c u. room_id_candidate E name opts creator ?go w = ?go c u"
    then obtain c u where c: "room_id_candidate E name opts creator ?go w = ?go c u" by blast
    show ?thesis
    proof (cases "c \<notin> set ex \<and> c \<noteq> []")
      case True
      with c show ?thesis by auto
    next
      case False
      with c Suc.IH [of u] show ?thesis by (simp add: if_not_P)
    qed
  qed simp
qed

lemma choose_room_id_outcomes:
  "(\<exists>e u. choose_room_id E name opts creator override ex k w = (Raised e, u)) \<or>
   (\<exists>i u. i \<notin> set ex \<and> i \<noteq> [] \<and> choose_room_id E name opts creator override ex k w = k i u)"
proof (cases "override = []")
  case True
  let ?k = "\<lambda>i. if i = [] then throw (RuntimeError ''Failed to create room with unique ID'') else k i"
  from True have "choose_room_id E name opts creator override ex k w = pick_room_id E name opts creator ex 3 ?k w"
    by (simp add: choose_room_id_def)
  then show ?thesis
    using pick_room_id_outcomes [of E name opts creator ex 3 ?k w]
    by (elim disjE exE conjE) (simp_all add: throw_def, blast+)
next
  case False
  then show ?thesis by (auto simp: choose_room_id_def throw_def)
qed

subsection \<open>Initialisation\<close>

lemma initialize_quiet:
  assumes r: "w_rooms w a = Some r" and q: "quiet_prog (hk_create (hooks_of E r) (rm_options r))"
  obtains w' r' where "initialize E n a w = (Normal, w')" "w_rooms w' a = Some r'"
    "rm_id r' = rm_id r" "rm_type r' = rm_type r" "rm_owner r' = rm_owner r"
    "rm_clients r' = rm_clients r" "rm_disposing r' = rm_disposing r"
    "rm_game_message_sub r' = Some (rm_id r, e_rid E (w_ids w))"
    "rm_player_left_sub r' = Some (PLAYER_LEFT, e_rid E (Suc (w_ids w)))"
    "rm_auto_dispose_timer r' = Some (sc_next_flag (w_sched w))"
    "w_pubsub w' = snd (ps_on (e_rid E (Suc (w_ids w))) PLAYER_LEFT (PlayerLeft a)
       (snd (ps_on (e_rid E (w_ids w)) (rm_id r) (GameMessage a) (w_pubsub w))))"
    "w_sched w' = snd (set_timeout (w_now w) AUTO_DISPOSE_AFTER (AutoDispose a) (w_sched w))"
    "w_storage w' = w_storage w" "w_managing w' = w_managing w" "w_now w' = w_now w"
    "w_next_room w' = w_next_room w" "w_log w' = w_log w @ [(a, OnCreate)]"
    "\<And>b. b \<noteq> a \<Longrightarrow> w_rooms w' b = w_rooms w b" "w_wall_ms w' = w_wall_ms w"
    "w_connections w' = w_connections w" "rm_join_listeners r' = rm_join_listeners r"
    "hk_create (hooks_of E r) (rm_options r) = [] \<Longrightarrow> w_frames w' = w_frames w" "w_registered w' = w_registered w"
proof -
  let ?w = "w\<lparr>w_log := w_log w @ [(a, OnCreate)]\<rparr>"
  from quietlyD [OF quietly_run_prog [OF q, of a E n], of ?w r] r obtain u where
      u: "run_prog E n a (hk_create (hooks_of E r) (rm_options r)) ?w = (Normal, u)" "soft a ?w u"
    by (auto simp: tacit_def)
  obtain r1 where r1: "w_rooms u a = Some r1" "same_membership r r1"
    using soft_room [OF u(2), of r] r by auto
  have f1: "rm_id r1 = rm_id r" "rm_type r1 = rm_type r" "rm_owner r1 = rm_owner r"
      "rm_clients r1 = rm_clients r" "rm_disposing r1 = rm_disposing r" "rm_join_listeners r1 = rm_join_listeners r"
    using r1(2) by (simp_all add: same_membership_def mild_def)
  note f = soft_fields [OF u(2)]
  let ?s = "snd (set_timeout (w_now w) AUTO_DISPOSE_AFTER (AutoDispose a) (w_sched w))"
  let ?p = "snd (ps_on (e_rid E (Suc (w_ids w))) PLAYER_LEFT (PlayerLeft a)
       (snd (ps_on (e_rid E (w_ids w)) (rm_id r) (GameMessage a) (w_pubsub w))))"
  let ?r = "r1\<lparr>rm_auto_dispose_timer := Some (sc_next_flag (w_sched w)),
     rm_game_message_sub := Some (rm_id r, e_rid E (w_ids w)),
     rm_player_left_sub := Some (PLAYER_LEFT, e_rid E (Suc (w_ids w)))\<rparr>"
  let ?w' = "u\<lparr>w_sched := ?s, w_ids := Suc (Suc (w_ids w)), w_pubsub := ?p,
     w_rooms := (w_rooms u)(a \<mapsto> ?r)\<rparr>"
  have "seq (start_auto_dispose a) (pub_sub_listener E a) u = (Normal, ?w')"
    using r1(1) f f1
    by (simp add: start_auto_dispose_def pub_sub_listener_def reading_def random_id_def effect_def
        set_timeout_def ps_on_def Let_def seq_def)
  moreover have "catch_rethrow (seq (log_hook a OnCreate)
        (with_room a (\<lambda>r. run_prog E n a (hk_create (hooks_of E r) (rm_options r))))) (dispose E n a) w = (Normal, u)"
    using u(1) r by (simp add: catch_rethrow_def log_hook_def)
  ultimately have "initialize E n a w = (Normal, ?w')" by (simp add: initialize_def)
  moreover have "hk_create (hooks_of E r) (rm_options r) = [] \<Longrightarrow> w_frames u = w_frames w"
    using u(1) by (auto simp: skip_def)
  ultimately show thesis
    using that [of ?w' ?r] f f1 soft_other [OF u(2)] by simp
qed

subsection \<open>A successful creation\<close>

text \<open>Nothing in the world knows the address \<open>a\<close> yet.\<close>

definition unknown :: "nat \<Rightarrow> world \<Rightarrow> bool" where
  "unknown a w \<longleftrightarrow> no_handler (GameMessage a) w \<and> no_handler (PlayerLeft a) w \<and>
     (\<forall>t \<in> set (sc_tasks (w_sched w)). tk_callback t \<noteq> AutoDispose a)"

definition fresh_snapshot :: "string \<Rightarrow> string \<Rightarrow> simple_client \<Rightarrow> world \<Rightarrow> room_snapshot" where
  "fresh_snapshot i name client w =
     \<lparr>rs_id = i, rs_type = name, rs_owner = client, rs_metadata = empty_object, rs_created_at = w_wall_ms w\<rparr>"

lemma new_room_fields [simp]:
  "rm_id (new_room i name owner opts creator vs) = i" "rm_type (new_room i name owner opts creator vs) = name"
  "rm_owner (new_room i name owner opts creator vs) = owner" "rm_options (new_room i name owner opts creator vs) = opts"
  "rm_clients (new_room i name owner opts creator vs) = []" "\<not> rm_disposing (new_room i name owner opts creator vs)"
  by (simp_all add: new_room_def)

lemma wired_initialised:
  assumes "unknown a w" "map_of (w_managing w') i = Some a" "rm_id r' = i"
    and "rm_game_message_sub r' = Some (i, x)" "rm_player_left_sub r' = Some (PLAYER_LEFT, y)"
    and "rm_auto_dispose_timer r' = Some (sc_next_flag (w_sched w))"
    and "w_pubsub w' = snd (ps_on y PLAYER_LEFT (PlayerLeft a) (snd (ps_on x i (GameMessage a) (w_pubsub w))))"
    and "w_sched w' = snd (set_timeout (w_now w) AUTO_DISPOSE_AFTER (AutoDispose a) (w_sched w))"
  shows "wired a r' w'"
  using assms unfolding wired_def unknown_def no_handler_def
  by (auto simp: ps_listeners_on set_timeout_def Let_def)

abbreviation stored_ids :: "world \<Rightarrow> string list" where
  "stored_ids w \<equiv> fst (get_list_of_rooms (sops w) (w_storage w))"

text \<open>The room has its auto-dispose timer, and is stored for three hours; what was stored still is.\<close>

definition enrolled :: "nat \<Rightarrow> string \<Rightarrow> world \<Rightarrow> world \<Rightarrow> bool" where
  "enrolled a i w w' \<longleftrightarrow>
     w_sched w' = snd (set_timeout (w_now w) AUTO_DISPOSE_AFTER (AutoDispose a) (w_sched w)) \<and>
     map_option ent_expires_at (map_of (w_storage w') (room_key i)) = Some (Some (w_now w + THREE_HOURS)) \<and>
     (\<forall>k. k \<noteq> room_key i \<and> mem_get (w_now w) (w_storage w) k \<noteq> None \<longrightarrow>
        map_of (w_storage w') k = map_of (w_storage w) k)"

lemma enrolled_frames [simp]: "enrolled a i w (w'\<lparr>w_frames := fs\<rparr>) = enrolled a i w w'"
  by (simp add: enrolled_def)

lemma add_room_entry:
  assumes "add_room (mem_ops now) J s snap = Inr s'"
  shows "map_option ent_expires_at (map_of s' (room_key (rs_id snap))) = Some (Some (now + THREE_HOURS))"
    "k \<noteq> room_key (rs_id snap) \<Longrightarrow> map_of s' k = map_of s k"
  using assms by (auto simp: add_room_def rbind_eq_Inr mem_set_def update_conv')

lemma fetch_keeps_entry:
  assumes "mem_good s" "mem_get now s k \<noteq> None"
  shows "map_of (snd (get_list_of_rooms (mem_ops now) s)) k = map_of s k"
  using assms by (auto simp: get_list_of_rooms_def fetch_keys_state mem_good_def mem_get_def map_of_filter_keep
      split: option.splits if_splits)

text \<open>What holds when a creation hands the room number \<open>a\<close>, identifier \<open>i\<close>, to its caller.\<close>

definition created :: "env \<Rightarrow> nat \<Rightarrow> string \<Rightarrow> string \<Rightarrow> simple_client \<Rightarrow> world \<Rightarrow> world \<Rightarrow> bool" where
  "created E a i name client w w' \<longleftrightarrow>
     (\<exists>r. w_rooms w' a = Some r \<and> rm_id r = i \<and> rm_type r = name \<and> rm_owner r = client \<and>
        rm_clients r = [] \<and> \<not> rm_disposing r \<and> cb_entries (rm_join_listeners r) = [] \<and> wired a r w') \<and>
     find_room_by_id (sops w') (e_json E) (w_storage w') i = Inr (fresh_snapshot i name client w) \<and>
     set (stored_ids w') = insert i (set (stored_ids w)) \<and>
     (\<forall>j. j \<noteq> i \<longrightarrow> find_room_by_id (sops w') (e_json E) (w_storage w') j = find_room_by_id (sops w) (e_json E) (w_storage w) j) \<and>
     mem_good (w_storage w') \<and>
     (\<forall>k. map ls_handler (ps_listeners (w_pubsub w') k) = map ls_handler (ps_listeners (w_pubsub w) k) @
       (if k = i then [GameMessage a] else []) @ (if k = PLAYER_LEFT then [PlayerLeft a] else [])) \<and>
     w_connections w' = w_connections w \<and> w_registered w' = w_registered w \<and> w_now w = w_now w' \<and> w_next_room w' = Suc a \<and>
     w_log w' = w_log w @ [(a, OnCreate)] \<and> enrolled a i w w' \<and>
     (\<forall>b. b \<noteq> a \<longrightarrow> w_rooms w' b = w_rooms w b)"

lemma created_frames [simp]: "created E a i name client w (w'\<lparr>w_frames := fs\<rparr>) = created E a i name client w w'"
  by (simp add: created_def wired_def)

lemma create_quiet:
  assumes reg: "map_of (w_registered w) name = Some opts"
    and ch: "\<And>k u. w_ids u = w_ids w \<Longrightarrow>
       choose_room_id E name opts creator override (stored_ids w) k u = k i (u\<lparr>w_ids := m\<rparr>)"
    and q: "quiet_prog (hk_create (e_hooks E name) opts)" and new: "unknown (w_next_room w) w"
    and safe: "text_safe (e_json E) (snapshot_to_json (fresh_snapshot i name client w))"
    and good: "mem_good (w_storage w)" and unmanaged: "map_of (w_managing w) i = None"
  obtains w' where "create_new_room E n client name creator override k w = k (w_next_room w) w'"
    "created E (w_next_room w) i name client w w'"
    "hk_create (e_hooks E name) opts = [] \<Longrightarrow> w_frames w' = w_frames w"
proof -
  let ?a = "w_next_room w"
  define s1 where "s1 = snd (get_list_of_rooms (sops w) (w_storage w))"
  define w1 where "w1 = w\<lparr>w_storage := s1, w_ids := m\<rparr>"
  define ids where "ids = stored_ids w"
  have s1: "get_list_of_rooms (sops w) (w_storage w) = (ids, s1)" by (simp add: s1_def ids_def)
  have ch1: "choose_room_id E name opts creator override ids f (w\<lparr>w_storage := s1\<rparr>) = f i (w1)" for f
    using ch [of "w\<lparr>w_storage := s1\<rparr>" f] by (simp add: w1_def ids_def)
  have good1: "mem_good s1" using good by (simp add: s1_def get_list_of_rooms_def mem_good_ops)
  define r0 where "r0 = new_room i name client opts creator (gv_get_all (sops w1) (e_json E) (w_storage w1))"
  define w2 where "w2 = w1\<lparr>w_next_room := Suc ?a, w_rooms := (w_rooms w1)(?a \<mapsto> r0)\<rparr>"
  have r2: "w_rooms w2 ?a = Some r0" by (simp add: w2_def)
  have q2: "quiet_prog (hk_create (hooks_of E r0) (rm_options r0))" using q by (simp add: r0_def)
  obtain w3 r3 where w3: "initialize E n ?a w2 = (Normal, w3)" "w_rooms w3 ?a = Some r3"
    "rm_id r3 = rm_id r0" "rm_type r3 = rm_type r0" "rm_owner r3 = rm_owner r0"
    "rm_clients r3 = rm_clients r0" "rm_disposing r3 = rm_disposing r0"
    "rm_game_message_sub r3 = Some (rm_id r0, e_rid E (w_ids w2))"
    "rm_player_left_sub r3 = Some (PLAYER_LEFT, e_rid E (Suc (w_ids w2)))"
    "rm_auto_dispose_timer r3 = Some (sc_next_flag (w_sched w2))"
    "w_pubsub w3 = snd (ps_on (e_rid E (Suc (w_ids w2))) PLAYER_LEFT (PlayerLeft ?a)
       (snd (ps_on (e_rid E (w_ids w2)) (rm_id r0) (GameMessage ?a) (w_pubsub w2))))"
    "w_sched w3 = snd (set_timeout (w_now w2) AUTO_DISPOSE_AFTER (AutoDispose ?a) (w_sched w2))"
    "w_storage w3 = w_storage w2" "w_managing w3 = w_managing w2" "w_now w3 = w_now w2"
    "w_next_room w3 = w_next_room w2" "w_log w3 = w_log w2 @ [(?a, OnCreate)]"
    "\<And>b. b \<noteq> ?a \<Longrightarrow> w_rooms w3 b = w_rooms w2 b" "w_wall_ms w3 = w_wall_ms w2"
    "w_connections w3 = w_connections w2" "rm_join_listeners r3 = rm_join_listeners r0"
    "hk_create (hooks_of E r0) (rm_options r0) = [] \<Longrightarrow> w_frames w3 = w_frames w2" "w_registered w3 = w_registered w2"
    by (rule initialize_quiet [OF r2 q2]) blast
  have snap: "\<lparr>rs_id = i, rs_type = name, rs_owner = client, rs_metadata = empty_object,
         rs_created_at = w_wall_ms w3\<rparr> = fresh_snapshot i name client w"
    using w3(19) by (simp add: fresh_snapshot_def w2_def w1_def)
  have st3: "w_storage w3 = s1" "w_now w3 = w_now w" using w3(13,15) by (simp_all add: w2_def w1_def)
  obtain s' where s': "add_room (sops w3) (e_json E) (w_storage w3) (fresh_snapshot i name client w) = Inr s'"
      "find_room_by_id (sops w3) (e_json E) s' i = Inr (fresh_snapshot i name client w)"
      "set (fst (get_list_of_rooms (sops w3) s')) = insert i (set (fst (get_list_of_rooms (sops w3) s1)))"
      "\<forall>j. j \<noteq> i \<longrightarrow> find_room_by_id (sops w3) (e_json E) s' j = find_room_by_id (sops w3) (e_json E) s1 j" "mem_good s'"
    using reg.add_room_ok [OF good1 safe, of "w_now w"] st3
    by (auto simp: fresh_snapshot_def)
  have s1_same: "find_room_by_id (sops w) (e_json E) s1 j = find_room_by_id (sops w) (e_json E) (w_storage w) j" for j
    using good by (simp add: s1_def find_room_by_id_def get_list_of_rooms_def mem_get_fetch)
  have ids1: "set (fst (get_list_of_rooms (sops w3) s1)) = set (stored_ids w)"
    using good good1 by (simp add: st3 s1_def get_list_of_rooms_def fetch_keys_set mem_get_fetch)
  define w4 where "w4 = w3\<lparr>w_storage := s', w_managing := AList.update i ?a (w_managing w3)\<rparr>"
  have reg4: "seq (initialize E n ?a) (register_snapshot E i name client) w2 = (Normal, w3\<lparr>w_storage := s'\<rparr>)"
    using w3(1) s'(1) snap by (simp add: register_snapshot_def reading_def effect_def)
  have cr4: "catch_rethrow (seq (initialize E n ?a) (register_snapshot E i name client)) (destroy_room ?a) w2 =
      (Normal, w3\<lparr>w_storage := s'\<rparr>)"
    using reg4 by (simp add: catch_rethrow_def)
  have na: "w_next_room w1 = ?a" by (simp add: w1_def)
  have man4: "manage_room i ?a (w3\<lparr>w_storage := s'\<rparr>) = (Normal, w4)"
    using unmanaged w3(14) by (simp add: manage_room_def effect_def w4_def w2_def w1_def)
  have "create_new_room E n client name creator override k w = k ?a w4"
    using reg s1 ch1 cr4 man4
    by (simp add: create_new_room_def list_rooms_def reading_def Let_def na flip: r0_def)
      (simp add: flip: w2_def)
  moreover have "created E ?a i name client w w4"
    unfolding created_def
  proof (intro conjI)
    have w4r: "w_rooms w4 ?a = Some r3" "w_pubsub w4 = w_pubsub w3" "w_sched w4 = w_sched w3"
      "w_now w4 = w_now w" "w_storage w4 = s'" "w_managing w4 = AList.update i ?a (w_managing w3)"
      using w3(2) st3 by (simp_all add: w4_def)
    have idr: "rm_id r3 = i" "rm_id r0 = i" using w3(3) by (simp_all add: r0_def)
    have old: "w_pubsub w2 = w_pubsub w" "w_sched w2 = w_sched w" "w_now w2 = w_now w" "w_log w2 = w_log w"
      by (simp_all add: w2_def w1_def)
    have "wired ?a r3 w4"
      by (rule wired_initialised [OF new _ idr(1)])
        (use w3(8-12) w4r idr old in simp_all)
    then show "\<exists>r. w_rooms w4 ?a = Some r \<and> rm_id r = i \<and> rm_type r = name \<and> rm_owner r = client \<and>
        rm_clients r = [] \<and> \<not> rm_disposing r \<and> cb_entries (rm_join_listeners r) = [] \<and> wired ?a r w4"
      using w4r(1) idr w3(4-7,21) by (simp add: r0_def new_room_def cb_empty_def)
    show "find_room_by_id (sops w4) (e_json E) (w_storage w4) i = Inr (fresh_snapshot i name client w)"
      using s'(2) st3(2) w4r by simp
    show "set (stored_ids w4) = insert i (set (stored_ids w))"
      using s'(3) ids1 st3(2) w4r by simp
    show "\<forall>j. j \<noteq> i \<longrightarrow> find_room_by_id (sops w4) (e_json E) (w_storage w4) j = find_room_by_id (sops w) (e_json E) (w_storage w) j"
      using s'(4) st3(2) w4r s1_same by simp
    show "mem_good (w_storage w4)" using s'(5) w4r by simp
    show "\<forall>k. map ls_handler (ps_listeners (w_pubsub w4) k) = map ls_handler (ps_listeners (w_pubsub w) k) @
       (if k = i then [GameMessage ?a] else []) @ (if k = PLAYER_LEFT then [PlayerLeft ?a] else [])"
      using w3(11) w4r(2) idr old by (simp add: ps_listeners_on)
    show "enrolled ?a i w w4"
      unfolding enrolled_def
    proof (intro conjI allI impI)
      have add: "add_room (mem_ops (w_now w)) (e_json E) s1 (fresh_snapshot i name client w) = Inr s'"
        and id: "rs_id (fresh_snapshot i name client w) = i"
        using s'(1) st3 by (simp_all add: fresh_snapshot_def)
      note entry = add_room_entry [OF add, unfolded id]
      show "w_sched w4 = snd (set_timeout (w_now w) AUTO_DISPOSE_AFTER (AutoDispose ?a) (w_sched w))"
        using w3(12) w4r old by simp
      show "map_option ent_expires_at (map_of (w_storage w4) (room_key i)) = Some (Some (w_now w + THREE_HOURS))"
        using entry(1) w4r by simp
      show "map_of (w_storage w4) k = map_of (w_storage w) k"
        if "k \<noteq> room_key i \<and> mem_get (w_now w) (w_storage w) k \<noteq> None" for k
        using that entry(2) fetch_keeps_entry [OF good] w4r by (simp add: s1_def)
    qed
    show "w_now w = w_now w4" using w4r by simp
    show "w_next_room w4 = Suc ?a" using w3(16) by (simp add: w4_def w2_def)
    show "w_registered w4 = w_registered w"
      using w3(23) by (simp add: w4_def w2_def w1_def)
    show "w_connections w4 = w_connections w"
      using w3(20) by (simp add: w4_def w2_def w1_def)
    show "w_log w4 = w_log w @ [(?a, OnCreate)]"
      using w3(17) old by (simp add: w4_def)
    show "\<forall>b. b \<noteq> ?a \<longrightarrow> w_rooms w4 b = w_rooms w b"
      using w3(18) by (simp add: w4_def w2_def w1_def)
  qed
  moreover have "hk_create (e_hooks E name) opts = [] \<Longrightarrow> w_frames w4 = w_frames w"
    using w3(22) by (simp add: r0_def w4_def w2_def w1_def)
  ultimately show thesis by (rule that)
qed

subsection \<open>Creations that fail\<close>

lemma create_start:
  assumes reg: "map_of (w_registered w) name = Some opts"
    and ch: "\<And>k u. w_ids u = w_ids w \<Longrightarrow>
       choose_room_id E name opts creator override (stored_ids w) k u = k i (u\<lparr>w_ids := m\<rparr>)"
  obtains w2 vs where "create_new_room E n client name creator override k w =
      seq (catch_rethrow (seq (initialize E n (w_next_room w)) (register_snapshot E i name client))
            (destroy_room (w_next_room w)))
        (seq (manage_room i (w_next_room w)) (k (w_next_room w))) w2"
    "w_rooms w2 = (w_rooms w)(w_next_room w \<mapsto> new_room i name client opts creator vs)"
    "w_pubsub w2 = w_pubsub w" "w_sched w2 = w_sched w" "w_managing w2 = w_managing w"
    "w_connections w2 = w_connections w" "w_wall_ms w2 = w_wall_ms w"
    "w_storage w2 = snd (get_list_of_rooms (sops w) (w_storage w))" "w_now w2 = w_now w" "w_log w2 = w_log w"
proof -
  let ?a = "w_next_room w"
  define s1 where "s1 = snd (get_list_of_rooms (sops w) (w_storage w))"
  define ids where "ids = stored_ids w"
  define w1 where "w1 = w\<lparr>w_storage := s1, w_ids := m\<rparr>"
  define r0 where "r0 = new_room i name client opts creator (gv_get_all (sops w1) (e_json E) (w_storage w1))"
  define w2 where "w2 = w1\<lparr>w_next_room := Suc ?a, w_rooms := (w_rooms w1)(?a \<mapsto> r0)\<rparr>"
  have s1: "get_list_of_rooms (sops w) (w_storage w) = (ids, s1)" by (simp add: s1_def ids_def)
  have ch1: "choose_room_id E name opts creator override ids f (w\<lparr>w_storage := s1\<rparr>) = f i w1" for f
    using ch [of "w\<lparr>w_storage := s1\<rparr>" f] by (simp add: w1_def ids_def)
  have na: "w_next_room w1 = ?a" by (simp add: w1_def)
  have "create_new_room E n client name creator override k w =
      seq (catch_rethrow (seq (initialize E n ?a) (register_snapshot E i name client)) (destroy_room ?a))
        (seq (manage_room i ?a) (k ?a)) w2"
    using reg s1 ch1
    by (simp add: create_new_room_def list_rooms_def reading_def Let_def na flip: r0_def)
      (simp add: flip: w2_def)
  from that [OF this] show thesis
    by (simp add: w2_def w1_def r0_def s1_def)
qed

text \<open>
  A hook \<open>on_create\<close> that throws: the half-made room is disposed and destroyed, and the server's
  tables are as before.
\<close>

lemma dispose_unmanaged:
  assumes r: "w_rooms w a = Some r" "\<not> rm_disposing r" "rm_clients r = []"
    and none: "rm_game_message_sub r = None" "rm_player_left_sub r = None" "rm_auto_dispose_timer r = None"
    and un: "map_of (w_managing w) (rm_id r) = None" and q: "quiet_leave (hooks_of E r)" and n: "1 < n"
  obtains w' where "dispose E n a w = (Normal, w')" "w_pubsub w' = w_pubsub w" "w_sched w' = w_sched w"
    "w_managing w' = w_managing w" "w_connections w' = w_connections w"
    "\<And>b. b \<noteq> a \<Longrightarrow> w_rooms w' b = w_rooms w b"
proof -
  let ?P = "\<lambda>u. w_pubsub u = w_pubsub w \<and> w_sched u = w_sched w \<and> w_managing u = w_managing w \<and>
      w_connections u = w_connections w \<and> (\<forall>b. b \<noteq> a \<longrightarrow> w_rooms u b = w_rooms w b) \<and>
      (\<forall>r'. w_rooms u a = Some r' \<longrightarrow> rm_id r' = rm_id r \<and> rm_game_message_sub r' = None \<and>
         rm_player_left_sub r' = None \<and> rm_auto_dispose_timer r' = None)"
  have "closed (room_step E a) ?P"
    unfolding closed_def room_step_def
    by (auto elim!: calm_stepE tail_stepE simp: mild_fields un)
  then have k: "keeps ?P (dispose E n a)" by (rule room_ops_keep(4))
  have "?P w" using r none by simp
  from keepsD [OF k this] have "?P (snd (dispose E n a w))" .
  moreover obtain w' where "dispose E n a w = (Normal, w')"
    using dispose_quiet [OF r(1,2) q, of n] r(3) n by auto
  ultimately show thesis using that by simp
qed

lemma create_hook_throws:
  assumes reg: "map_of (w_registered w) name = Some opts"
    and ch: "\<And>k u. w_ids u = w_ids w \<Longrightarrow>
       choose_room_id E name opts creator override (stored_ids w) k u = k i (u\<lparr>w_ids := m\<rparr>)"
    and th: "hk_create (e_hooks E name) opts = [\<lambda>_. ThrowExn e]" and q: "quiet_leave (e_hooks E name)"
    and un: "map_of (w_managing w) i = None" and n: "1 < n"
  obtains w' where "create_new_room E n client name creator override k w = (Raised e, w')"
    "w_rooms w' (w_next_room w) = None" "w_pubsub w' = w_pubsub w" "w_sched w' = w_sched w"
    "w_managing w' = w_managing w" "w_connections w' = w_connections w"
    "\<And>b. b \<noteq> w_next_room w \<Longrightarrow> w_rooms w' b = w_rooms w b"
proof -
  let ?a = "w_next_room w"
  obtain w2 vs where w2: "create_new_room E n client name creator override k w =
      seq (catch_rethrow (seq (initialize E n ?a) (register_snapshot E i name client))
            (destroy_room ?a))
        (seq (manage_room i ?a) (k ?a)) w2"
    "w_rooms w2 = (w_rooms w)(?a \<mapsto> new_room i name client opts creator vs)"
    "w_pubsub w2 = w_pubsub w" "w_sched w2 = w_sched w" "w_managing w2 = w_managing w"
    "w_connections w2 = w_connections w"
    by (rule create_start [OF reg ch])
  let ?w3 = "w2\<lparr>w_log := w_log w2 @ [(?a, OnCreate)]\<rparr>"
  obtain w4 where w4: "dispose E n ?a ?w3 = (Normal, w4)" "w_pubsub w4 = w_pubsub w" "w_sched w4 = w_sched w"
      "w_managing w4 = w_managing w" "w_connections w4 = w_connections w"
      "\<And>b. b \<noteq> ?a \<Longrightarrow> w_rooms w4 b = w_rooms w b"
    using w2 un q n
    by (auto intro: dispose_unmanaged [of ?w3 ?a "new_room i name client opts creator vs" E n]
        simp: new_room_def)
  have "initialize E n ?a w2 = (Raised e, w4)"
    using w2(2) th w4(1)
    by (simp add: initialize_def catch_rethrow_def log_hook_def seq_def throw_def effect_def new_room_def)
  then have "create_new_room E n client name creator override k w =
      (Raised e, w4\<lparr>w_rooms := (w_rooms w4)(?a := None)\<rparr>)"
    unfolding w2(1) by (simp add: catch_rethrow_def destroy_room_def seq_def throw_def effect_def)
  from that [OF this] w4 show thesis by simp
qed

text \<open>
  A snapshot that cannot be written (the client identifier is not valid UTF-8): the exception comes
  after \<open>initialize\<close> has subscribed, the room is destroyed without \<open>dispose\<close>, and its handler stays
  in the listener table.
\<close>

lemma create_unstorable:
  assumes reg: "map_of (w_registered w) name = Some opts"
    and ch: "\<And>k u. w_ids u = w_ids w \<Longrightarrow>
       choose_room_id E name opts creator override (stored_ids w) k u = k i (u\<lparr>w_ids := m\<rparr>)"
    and q: "quiet_prog (hk_create (e_hooks E name) opts)"
    and bad: "jl_dump (e_json E) (snapshot_to_json (fresh_snapshot i name client w)) = None"
  obtains e w' where "create_new_room E n client name creator override k w = (Raised e, w')" "is_std e"
    "w_rooms w' (w_next_room w) = None" "w_connections w' = w_connections w"
    "map ls_handler (ps_listeners (w_pubsub w') PLAYER_LEFT) =
       map ls_handler (ps_listeners (w_pubsub w) PLAYER_LEFT) @
       (if i = PLAYER_LEFT then [GameMessage (w_next_room w)] else []) @ [PlayerLeft (w_next_room w)]"
proof -
  let ?a = "w_next_room w"
  obtain w2 vs where w2: "create_new_room E n client name creator override k w =
      seq (catch_rethrow (seq (initialize E n ?a) (register_snapshot E i name client))
            (destroy_room ?a))
        (seq (manage_room i ?a) (k ?a)) w2"
    "w_rooms w2 = (w_rooms w)(?a \<mapsto> new_room i name client opts creator vs)"
    "w_pubsub w2 = w_pubsub w" "w_connections w2 = w_connections w" "w_wall_ms w2 = w_wall_ms w"
    by (rule create_start [OF reg ch])
  let ?r = "new_room i name client opts creator vs"
  have r: "w_rooms w2 ?a = Some ?r" using w2(2) by simp
  have q': "quiet_prog (hk_create (hooks_of E ?r) (rm_options ?r))" using q by simp
  obtain w3 where w3: "initialize E n ?a w2 = (Normal, w3)" "w_wall_ms w3 = w_wall_ms w2"
    "w_pubsub w3 = snd (ps_on (e_rid E (Suc (w_ids w2))) PLAYER_LEFT (PlayerLeft ?a)
       (snd (ps_on (e_rid E (w_ids w2)) (rm_id ?r) (GameMessage ?a) (w_pubsub w2))))"
    "w_connections w3 = w_connections w2"
    by (rule initialize_quiet [OF r q'])
  let ?e = "JsonError (InvalidUtf8 (snapshot_to_json (fresh_snapshot i name client w)))"
  have "register_snapshot E i name client w3 = (Raised ?e, w3)"
    using bad w3(2) w2(5)
    by (simp add: register_snapshot_def reading_def add_room_def dump_def fresh_snapshot_def throw_def)
  then have "create_new_room E n client name creator override k w =
      (Raised ?e, w3\<lparr>w_rooms := (w_rooms w3)(?a := None)\<rparr>)"
    unfolding w2(1) using w3(1) by (simp add: catch_rethrow_def destroy_room_def seq_def throw_def effect_def)
  from that [OF this] w3 w2(3,4) show thesis by (simp add: ps_listeners_on)
qed

text \<open>The next disconnection then runs a handler of a destroyed room.\<close>

lemma disconnect_dangling:
  assumes "map ls_handler (ps_listeners (w_pubsub w) PLAYER_LEFT) = [PlayerLeft a]" "w_rooms w a = None"
  shows "fst (handle_client_disconnect E (Suc n) d sid w) = Undefined"
proof -
  obtain l where l: "ps_listeners (w_pubsub w) PLAYER_LEFT = [l]" "ls_handler l = PlayerLeft a"
    using assms(1) by (cases "ps_listeners (w_pubsub w) PLAYER_LEFT") auto
  then show ?thesis
    using assms(2)
    by (simp add: handle_client_disconnect_def publish_def ps_publish_seqs remove_client.simps)
qed

lemma choose_random_id:
  assumes "e_idgen E = None" "e_rid E (w_ids w) \<notin> set ex" "e_rid E (w_ids w) \<noteq> []" "w_ids u = w_ids w"
  shows "choose_room_id E name opts creator [] ex k u = k (e_rid E (w_ids w)) (u\<lparr>w_ids := Suc (w_ids w)\<rparr>)"
  using assms
  by (simp add: choose_room_id_def numeral_3_eq_3 room_id_candidate_def random_id_def reading_def)

lemma choose_given_id:
  assumes "i \<noteq> []" "i \<notin> set ex"
  shows "choose_room_id E name opts creator i ex k u = k i (u\<lparr>w_ids := w_ids u\<rparr>)"
  using assms by (simp add: choose_room_id_def)

end
