(* ===== verification/Server_Props.thy ===== *)
theory Server_Props imports Server_Create Room_Props
begin

text \<open>
  The properties of the server's handlers: creation of rooms and its failures, and the three client
  messages followed from the frame received to the room that handles it.
\<close>

subsection \<open>A concrete server\<close>

text \<open>A server that has registered the room type of \<open>demo_world\<close> and stores one kind of snapshot.\<close>

definition chat_world :: world where
  "chat_world = demo_world\<lparr>w_registered := [(''chat'', JObject [])]\<rparr>"

definition chat_snapshot :: room_snapshot where
  "chat_snapshot = fresh_snapshot ''r'' ''chat'' (demo_client ''bob'') chat_world"

definition chat_json :: json_lib where
  "chat_json = \<lparr>jl_parse = (\<lambda>s. if s = ''obj'' then Some (JObject [])
       else if s = ''snap'' then Some (norm (snapshot_to_json chat_snapshot)) else None),
     jl_dump = (\<lambda>v. if v = snapshot_to_json chat_snapshot then Some ''snap'' else None),
     jl_what = (\<lambda>e. ''json''), jl_float_int = (\<lambda>f. f)\<rparr>"

definition chat_env :: env where
  "chat_env = demo_env\<lparr>e_json := chat_json\<rparr>"

lemma chat_world_fields [simp]:
  "w_rooms chat_world = (\<lambda>_. None)(0 \<mapsto> demo_room)" "w_next_room chat_world = Suc 0" "w_ids chat_world = 0"
  "w_managing chat_world = [(''lobby'', 0)]" "w_registered chat_world = [(''chat'', JObject [])]"
  "w_storage chat_world = [(room_key ''lobby'', \<lparr>ent_value = ''obj'', ent_expires_at = None\<rparr>)]"
  "w_log chat_world = []" "w_now chat_world = 0" "w_frames chat_world = []"
  "w_connections chat_world = [(''ann-session'', demo_client ''ann''), (''bob-session'', demo_client ''bob'')]"
  by (simp_all add: chat_world_def demo_world_def empty_world_def)

lemma chat_pubsub [simp]:
  "w_pubsub chat_world = [(''lobby'', [\<lparr>ls_id = ''s1'', ls_handler = GameMessage 0\<rparr>]),
     (PLAYER_LEFT, [\<lparr>ls_id = ''s2'', ls_handler = PlayerLeft 0\<rparr>])]"
  by (simp add: chat_world_def demo_world_def)

lemma chat_ids [simp]:
  "get_list_of_rooms (mem_ops 0) [(room_key ''lobby'', \<lparr>ent_value = ''obj'', ent_expires_at = None\<rparr>)] =
     ([''lobby''], [(room_key ''lobby'', \<lparr>ent_value = ''obj'', ent_expires_at = None\<rparr>)])"
  by (simp add: get_list_of_rooms_def expired_def room_key_def)

lemma chat_unknown [simp]: "unknown (Suc 0) chat_world"
  by (auto simp: unknown_def no_handler_def ps_listeners_def chat_world_def demo_world_def split: if_splits)

lemma chat_env_fields [simp]:
  "e_hooks chat_env t = demo_hooks" "e_idgen chat_env = None" "e_rid chat_env n = replicate (Suc n) (CHR ''r'')"
  "e_json chat_env = chat_json"
  by (simp_all add: chat_env_def demo_env_def)

subsection \<open>Creating rooms\<close>

text \<open>whatever is done with it afterwards, the identifier of a new room is not empty and not the
  identifier of a stored room; when no such identifier is found the creation stops with an
  exception.\<close>

theorem room_ids_unused:
  "(\<exists>e u. choose_room_id E name opts creator override ex k w = (Raised e, u)) \<or>
   (\<exists>i u. i \<notin> set ex \<and> i \<noteq> [] \<and> choose_room_id E name opts creator override ex k w = k i u)"
  by (rule choose_room_id_outcomes)

text \<open>a room of a registered type whose \<open>on_create\<close> is quiet is created: it is live, managed under
  its identifier, owned by its creator and empty; its two handlers and its timer are the only
  closures on it; its snapshot can be found and its identifier is listed; no other room, snapshot
  or listener changes.\<close>

theorem create_room_succeeds:
  assumes "map_of (w_registered w) name = Some opts" "e_idgen E = None"
    and "e_rid E (w_ids w) \<notin> set (stored_ids w)" "e_rid E (w_ids w) \<noteq> []"
    and "quiet_prog (hk_create (e_hooks E name) opts)" "unknown (w_next_room w) w"
    and "text_safe (e_json E) (snapshot_to_json (fresh_snapshot (e_rid E (w_ids w)) name client w))"
    and "mem_good (w_storage w)" "map_of (w_managing w) (e_rid E (w_ids w)) = None"
  shows "\<exists>w'. create_new_room E n client name creator [] k w = k (w_next_room w) w' \<and>
    created E (w_next_room w) (e_rid E (w_ids w)) name client w w'"
  by (rule create_quiet [where n = n and k = k and creator = creator,
        OF assms(1) choose_random_id [OF assms(2-4)] assms(5-9)]) blast+

theorem create_room_succeeds_witness:
  "\<exists>w'. create_new_room chat_env 2 (demo_client ''bob'') ''chat'' JNull [] (\<lambda>a. skip) chat_world = (Normal, w') \<and>
    created chat_env (Suc 0) ''r'' ''chat'' (demo_client ''bob'') chat_world w'"
  using create_room_succeeds [of chat_world "''chat''" "JObject []" chat_env "demo_client ''bob''" 2 JNull "\<lambda>a. skip"]
  by (simp add: demo_hooks_def text_safe_def chat_json_def chat_snapshot_def mem_good_def skip_def)


definition failing_env :: env where
  "failing_env = chat_env\<lparr>e_hooks := (\<lambda>_. demo_hooks\<lparr>hk_create := (\<lambda>_. [\<lambda>_. ThrowExn (UserError ''broken'')])\<rparr>)\<rparr>"


text \<open>C37: a creator whose snapshot cannot be serialised (its identifier is not valid UTF-8) is refused,
  but the room was subscribed before and is destroyed without being disposed: in a server whose only
  room it was, the next disconnection of any client runs a handler of a destroyed object.\<close>

theorem unstorable_room_dangles:
  assumes "map_of (w_registered w) name = Some opts" "e_idgen E = None"
    and "e_rid E (w_ids w) \<notin> set (stored_ids w)" "e_rid E (w_ids w) \<noteq> []" "e_rid E (w_ids w) \<noteq> PLAYER_LEFT"
    and "quiet_prog (hk_create (e_hooks E name) opts)"
    and "jl_dump (e_json E) (snapshot_to_json (fresh_snapshot (e_rid E (w_ids w)) name client w)) = None"
    and "ps_listeners (w_pubsub w) PLAYER_LEFT = []"
  shows "\<exists>e w'. create_new_room E n client name creator [] k w = (Raised e, w') \<and> is_std e \<and>
    fst (handle_client_disconnect E (Suc m) d sid w') = Undefined"
proof -
  obtain e w' where w': "create_new_room E n client name creator [] k w = (Raised e, w')" "is_std e"
    "w_rooms w' (w_next_room w) = None"
    "map ls_handler (ps_listeners (w_pubsub w') PLAYER_LEFT) =
       map ls_handler (ps_listeners (w_pubsub w) PLAYER_LEFT) @
       (if e_rid E (w_ids w) = PLAYER_LEFT then [GameMessage (w_next_room w)] else []) @ [PlayerLeft (w_next_room w)]"
    by (rule create_unstorable [where n = n and k = k and creator = creator,
          OF assms(1) choose_random_id [OF assms(2-4)] assms(6,7)]) blast
  then show ?thesis
    using assms(5,8) disconnect_dangling [of w' "w_next_room w" E m d sid] by auto
qed

definition blank_world :: world where
  "blank_world = empty_world\<lparr>w_registered := [(''chat'', JObject [])]\<rparr>"

theorem unstorable_room_dangles_witness:
  "\<exists>e w'. create_new_room demo_env 2 (demo_client [CHR 0xFF]) ''chat'' JNull [] (\<lambda>a. skip) blank_world = (Raised e, w') \<and>
    is_std e \<and> fst (handle_client_disconnect demo_env 1 0 ''someone'' w') = Undefined"
  using unstorable_room_dangles [of blank_world "''chat''" "JObject []" demo_env "demo_client [CHR 0xFF]"
      2 JNull "\<lambda>a. skip" 0 0 "''someone''"]
  by (simp add: blank_world_def empty_world_def demo_env_def demo_hooks_def demo_json_def
      ps_listeners_def get_list_of_rooms_def PLAYER_LEFT_def snapshot_json_shape)

subsection \<open>Client messages\<close>

text \<open>a request to join a room that is not stored is answered with an error frame and changes
  nothing else.\<close>

theorem join_unknown_room:
  assumes "mem_get (w_now w) (w_storage w) (room_key i) = None" "i \<noteq> []"
    and "map_of (w_connections w) (sc_session_id client) = Some conn"
  shows "handle_client_message E n d client joinRoom (jobj [(''roomId'', JString i)]) w =
    (Normal, w\<lparr>w_frames := w_frames w @ [(sc_session_id client, i @ ''-error'',
       jobj [(''message'', JString (room_key i @ '' - No data received''))])]\<rparr>)"
  using assms
  by (simp add: handle_client_message_def joinRoom_def createNewRoom_def sendMessage_def handle_join_def
      json_access catch_std_def reading_def find_room_by_id_def error_frame_def send_frame_to_client_def
      effect_def throw_def seq_def)

theorem join_unknown_room_witness:
  "handle_client_message chat_env 2 1 (demo_client ''bob'') joinRoom (jobj [(''roomId'', JString ''cafe'')]) chat_world =
    (Normal, chat_world\<lparr>w_frames := [(''bob-session'', ''cafe-error'',
       jobj [(''message'', JString (room_key ''cafe'' @ '' - No data received''))])]\<rparr>)"
  using join_unknown_room [of chat_world "''cafe''" "demo_client ''bob''" "demo_client ''bob''" chat_env 2 1]
  by (simp add: mem_get_def demo_client_def)

lemma join_message_run:
  assumes "find_room_by_id (sops w) (e_json E) (w_storage w) i = Inr snap" "i \<noteq> []"
    and "map ls_handler (ps_listeners (w_pubsub w) i) = [GameMessage a]"
    and "w_rooms w a = Some r" "quiet_join (e_hooks E (rm_type r))"
    and "\<forall>f \<in> ce_callback ` set (cb_entries (rm_join_listeners r)). unrelated (sc_id client) f"
  obtains w' r' where "handle_client_message E n (Suc d) client joinRoom
      (jobj [(''roomId'', JString i), (''options'', opts)]) w = (Normal, w')"
    "w_rooms w' a = Some r'" "rm_clients r' = rm_clients r @ [client]"
    "rm_id r' = rm_id r" "rm_type r' = rm_type r" "rm_disposing r' = rm_disposing r"
    "w_log w' = w_log w @ [(a, CanClientJoin), (a, OnJoin)]" "only_room a w w'"
proof -
  obtain l where l: "ps_listeners (w_pubsub w) i = [l]" "ls_handler l = GameMessage a"
    using assms(3) by (cases "ps_listeners (w_pubsub w) i") auto
  obtain w' r' where j: "join_request E n a client opts w = (Normal, w')" "w_rooms w' a = Some r'"
    "rm_clients r' = rm_clients r @ [client]"
    "rm_id r' = rm_id r" "rm_disposing r' = rm_disposing r"
    "w_log w' = w_log w @ [(a, CanClientJoin), (a, OnJoin)]" "only_room a w w'" "rm_type r' = rm_type r"
    by (rule join_request_quiet [OF assms(4-6), of n opts])
  have payload: "game_message E n pub a (join_payload client opts) = join_request E n a client opts" for pub
    by (simp add: game_message_def join_payload_def json_access joinRoom_def REQUEST_INFO_def EXTERNAL_MESSAGE_def)
  have "publish E n (Suc d) i (join_payload client opts) w = (Normal, w')"
    using l j(1) by (simp add: publish_def ps_publish_seqs payload)
  moreover have "jvalue get_string ''roomId'' [] (jobj [(''roomId'', JString i), (''options'', opts)]) = Inr i"
    "jvalue get_json ''options'' empty_object (jobj [(''roomId'', JString i), (''options'', opts)]) = Inr opts"
    "is_object (jobj [(''roomId'', JString i), (''options'', opts)])"
    by (simp_all add: json_access)
  ultimately have "handle_client_message E n (Suc d) client joinRoom
      (jobj [(''roomId'', JString i), (''options'', opts)]) w = (Normal, w')"
    using assms(1,2)
    by (simp add: handle_client_message_def joinRoom_def createNewRoom_def handle_join_def
      catch_std_def reading_def skip_def seq_def)
  from that [OF this j(2-4) j(8) j(5-7)] show thesis .
qed

text \<open>a join frame from a client, for a stored room whose handler is the only listener of its
  identifier, makes the client that sent it (with the identity the server has for it) a member.\<close>

theorem join_message_joins:
  assumes "find_room_by_id (sops w) (e_json E) (w_storage w) i = Inr snap" "i \<noteq> []"
    and "map ls_handler (ps_listeners (w_pubsub w) i) = [GameMessage a]"
    and "w_rooms w a = Some r" "quiet_join (e_hooks E (rm_type r))"
    and "\<forall>f \<in> ce_callback ` set (cb_entries (rm_join_listeners r)). unrelated (sc_id client) f"
  shows "\<exists>w' r'. handle_client_message E n (Suc d) client joinRoom
      (jobj [(''roomId'', JString i), (''options'', opts)]) w = (Normal, w') \<and>
    w_rooms w' a = Some r' \<and> rm_clients r' = rm_clients r @ [client] \<and>
    w_log w' = w_log w @ [(a, CanClientJoin), (a, OnJoin)] \<and> only_room a w w'"
  by (rule join_message_run [OF assms, where n = n and d = d and opts = opts]) blast

theorem join_message_joins_witness:
  "\<exists>w' r'. handle_client_message chat_env 2 1 (demo_client ''eve'') joinRoom
      (jobj [(''roomId'', JString ''lobby''), (''options'', JNull)]) chat_world = (Normal, w') \<and>
    w_rooms w' 0 = Some r' \<and>
    rm_clients r' = [demo_client ''ann'', demo_client ''bob'', demo_client ''eve'']"
proof -
  have f: "find_room_by_id (sops chat_world) (e_json chat_env) (w_storage chat_world) ''lobby'' =
      Inr \<lparr>rs_id = [], rs_type = [], rs_owner = no_client, rs_metadata = JObject [], rs_created_at = 0\<rparr>"
    by (simp add: find_room_by_id_def mem_get_def expired_def parse_def chat_json_def snapshot_from_json_def
        json_access)
  have l: "map ls_handler (ps_listeners (w_pubsub chat_world) ''lobby'') = [GameMessage 0]"
    by (simp add: ps_listeners_def)
  have r: "w_rooms chat_world 0 = Some demo_room" by simp
  show ?thesis
    using join_message_joins [OF f _ l r, of "demo_client ''eve''" 2 0 JNull] by fastforce
qed

lemma send_fields:
  fixes i key v
  defines "data \<equiv> jobj [(''room'', JString i), (''key'', JString key), (''data'', v)]"
  shows "is_object data" "jcontains ''key'' data" "jvalue get_string ''room'' [] data = Inr i"
    "jat ''key'' data = Inr (JString key)" "jvalue get_json ''data'' JNull data = Inr v"
  by (simp_all add: data_def json_access)

text \<open>a message is handed to the room's hook only when the sender is one of its members, and then
  with the identity the room has for it; from anybody else it changes nothing.\<close>

theorem message_needs_membership:
  assumes "map ls_handler (ps_listeners (w_pubsub w) i) = [GameMessage a]" "i \<noteq> []"
    and "w_rooms w a = Some r"
  shows "handle_client_message E n (Suc d) client sendMessage
      (jobj [(''room'', JString i), (''key'', JString key), (''data'', v)]) w =
    (case find_session (sc_session_id client) (rm_clients r) of
       None \<Rightarrow> (Normal, w)
     | Some c \<Rightarrow> run_prog E n a (hk_message (e_hooks E (rm_type r)) c key v)
                  (w\<lparr>w_log := w_log w @ [(a, OnMessage)]\<rparr>))"
proof -
  obtain l where l: "ps_listeners (w_pubsub w) i = [l]" "ls_handler l = GameMessage a"
    using assms(1) by (cases "ps_listeners (w_pubsub w) i") auto
  have payload: "game_message E n pub a (message_payload client (JString key) v) =
      message_request E n a client (message_payload client (JString key) v)" for pub
    by (simp add: game_message_def message_payload_def json_access joinRoom_def sendMessage_def
        REQUEST_INFO_def EXTERNAL_MESSAGE_def)
  have msg: "message_request E n a client (message_payload client (JString key) v) w =
    (case find_session (sc_session_id client) (rm_clients r) of
       None \<Rightarrow> (Normal, w)
     | Some c \<Rightarrow> run_prog E n a (hk_message (e_hooks E (rm_type r)) c key v)
                  (w\<lparr>w_log := w_log w @ [(a, OnMessage)]\<rparr>))"
    using assms(3)
    by (simp add: message_request_def message_payload_def json_access skip_def log_hook_def split: option.splits)
  have "publish E n (Suc d) i (message_payload client (JString key) v) w =
      message_request E n a client (message_payload client (JString key) v) w"
    using l by (simp add: publish_def ps_publish_seqs payload)
  then show ?thesis
    using assms(2)
    by (simp add: send_fields handle_client_message_def handle_send_def sendMessage_def createNewRoom_def joinRoom_def msg)
qed

theorem message_needs_membership_witness:
  "handle_client_message chat_env 2 1 (demo_client ''eve'') sendMessage
      (jobj [(''room'', JString ''lobby''), (''key'', JString ''k''), (''data'', JNull)]) chat_world =
    (Normal, chat_world)"
  using message_needs_membership [of chat_world "''lobby''" 0 demo_room chat_env 2 0 "demo_client ''eve''" "''k''" JNull]
  by (simp add: ps_listeners_def find_session_def demo_client_def)

subsection \<open>Requests that escape the handlers\<close>

text \<open>a request identifier that is not a string is read outside the \<open>try\<close> block of the handler, so
  the type error leaves \<open>handle_client_message\<close>; nothing is done and nobody is answered.\<close>

theorem bad_request_id_escapes:
  assumes "\<not> is_string v"
  shows "handle_client_message E n d client createNewRoom (jobj [(''uniqueRequestId'', v)]) w =
    (Raised (JsonError (TypeMismatch v)), w)"
  using assms
  by (cases v) (simp_all add: handle_client_message_def handle_create_def json_access throw_def)

theorem bad_request_id_escapes_witness:
  "handle_client_message chat_env 2 1 (demo_client ''eve'') createNewRoom
     (jobj [(''uniqueRequestId'', JUnsigned 7)]) chat_world = (Raised (JsonError (TypeMismatch (JUnsigned 7))), chat_world)"
  using bad_request_id_escapes [of "JUnsigned 7" chat_env 2 1 "demo_client ''eve''" chat_world] by simp

text \<open>any client can address the internal key of the listener table: a message to the "room"
  \<open>blueboat-player-left\<close> reaches the handler that expects a session identifier, and its type error
  leaves the server's handler.\<close>

theorem internal_key_reachable:
  assumes "map ls_handler (ps_listeners (w_pubsub w) PLAYER_LEFT) = PlayerLeft a # hs"
  shows "\<exists>e. handle_client_message E n d client sendMessage
      (jobj [(''room'', JString PLAYER_LEFT), (''key'', JString key)]) w = (Raised (JsonError e), w)"
proof -
  obtain l ls where l: "ps_listeners (w_pubsub w) PLAYER_LEFT = l # ls" "ls_handler l = PlayerLeft a"
    using assms by (cases "ps_listeners (w_pubsub w) PLAYER_LEFT") auto
  have "get_string (message_payload client (JString key) JNull) =
      Inl (JsonError (TypeMismatch (message_payload client (JString key) JNull)))"
    by (simp add: message_payload_def jobj_def)
  then have "publish E n d PLAYER_LEFT (message_payload client (JString key) JNull) w =
      (Raised (JsonError (TypeMismatch (message_payload client (JString key) JNull))), w)"
    using l by (simp add: publish_def ps_publish_seqs throw_def seq_def)
  moreover have "jvalue get_string ''room'' [] (jobj [(''room'', JString PLAYER_LEFT), (''key'', JString key)]) = Inr PLAYER_LEFT"
    "jcontains ''key'' (jobj [(''room'', JString PLAYER_LEFT), (''key'', JString key)])"
    "jat ''key'' (jobj [(''room'', JString PLAYER_LEFT), (''key'', JString key)]) = Inr (JString key)"
    "jvalue get_json ''data'' JNull (jobj [(''room'', JString PLAYER_LEFT), (''key'', JString key)]) = Inr JNull"
    "is_object (jobj [(''room'', JString PLAYER_LEFT), (''key'', JString key)])"
    by (simp_all add: json_access)
  ultimately show ?thesis
    by (simp add: handle_client_message_def handle_send_def sendMessage_def createNewRoom_def joinRoom_def
        PLAYER_LEFT_def)
qed

theorem internal_key_reachable_witness:
  "\<exists>e. handle_client_message chat_env 2 1 (demo_client ''eve'') sendMessage
     (jobj [(''room'', JString PLAYER_LEFT), (''key'', JString ''k'')]) chat_world = (Raised (JsonError e), chat_world)"
  using internal_key_reachable [of chat_world 0 "[]" chat_env 2 1 "demo_client ''eve''" "''k''"]
  by (simp add: ps_listeners_def PLAYER_LEFT_def)

end
