(* ===== verification/Server_Leave.thy ===== *)
theory Server_Leave imports Server Room_Props
begin

text \<open>
  A disconnection: the PLAYER_LEFT message reaches the handler of every room, one room may be
  disposed while the others still have to be told.
\<close>

text \<open>What becomes of a room \<open>r\<close> when the session leaves: it is destroyed when that empties it.\<close>

definition departed :: "string \<Rightarrow> room \<Rightarrow> room option \<Rightarrow> bool" where
  "departed sid r x \<longleftrightarrow>
     (if find_session sid (rm_clients r) \<noteq> None \<and> erase_session sid (rm_clients r) = [] then x = None
      else \<exists>r'. x = Some r' \<and> rm_clients r' = erase_session sid (rm_clients r) \<and>
        rm_id r' = rm_id r \<and> rm_type r' = rm_type r \<and> \<not> rm_disposing r')"

lemma erase_not_found: "find_session sid cs = None \<Longrightarrow> erase_session sid cs = cs"
  by (induction cs) (auto simp: find_session_def split: if_splits)

text \<open>A room that can be told: live, not being disposed, wired, with quiet hooks.\<close>

definition sound_room :: "env \<Rightarrow> nat \<Rightarrow> room \<Rightarrow> world \<Rightarrow> bool" where
  "sound_room E a r w \<longleftrightarrow> w_rooms w a = Some r \<and> \<not> rm_disposing r \<and> wired a r w \<and>
     quiet_leave (e_hooks E (rm_type r))"

lemma depart_one:
  assumes s: "sound_room E a r w" and n: "2 < n"
  shows "\<exists>w'. remove_client E n a sid b w = (Normal, w') \<and> departed sid r (w_rooms w' a) \<and>
    (if w_rooms w' a = None
     then gone a (rm_id r) w' \<and> w_log w' = w_log w @ [(a, OnLeave), (a, BeforeDispose), (a, OnDispose)]
     else w_pubsub w' = w_pubsub w \<and> w_storage w' = w_storage w \<and> w_sched w' = w_sched w \<and> w_log w' \<in> {w_log w, w_log w @ [(a, OnLeave)]})"
proof -
  define m where "m = n - 1"
  have m: "n = Suc m" "1 < m" using n by (simp_all add: m_def)
  have r: "w_rooms w a = Some r" "\<not> rm_disposing r" "wired a r w" "quiet_leave (e_hooks E (rm_type r))"
    using s by (simp_all add: sound_room_def)
  show ?thesis
  proof (cases "find_session sid (rm_clients r)")
    case None
    with r(1,2) show ?thesis by (simp add: m remove_client.simps skip_def departed_def erase_not_found)
  next
    case (Some c)
    obtain u r' where rem: "remove_client E (Suc m) a sid b w =
        (if erase_session sid (rm_clients r) = [] then dispose E m a u else (Normal, u))"
        and u: "soft a (left_world a r sid w) u" "w_rooms u a = Some r'"
        and same: "same_membership (r\<lparr>rm_clients := erase_session sid (rm_clients r)\<rparr>) r'"
      using remove_client_quiet [OF r(1) Some r(4)] by blast
    have f: "rm_clients r' = erase_session sid (rm_clients r)" "\<not> rm_disposing r'"
        "rm_type r' = rm_type r" "rm_id r' = rm_id r"
        "rm_game_message_sub r' = rm_game_message_sub r" "rm_player_left_sub r' = rm_player_left_sub r"
        "rm_auto_dispose_timer r' = rm_auto_dispose_timer r"
      using same r(2) by (simp_all add: same_membership_def mild_def)
    show ?thesis
    proof (cases "erase_session sid (rm_clients r) = []")
      case True
      have "wired a r' u" using r(3) f soft_fields [OF u(1)] by (simp add: wired_def left_world_def)
      moreover obtain w' where "dispose E m a u = (Normal, w')" "w_log w' = w_log u @ [(a, BeforeDispose), (a, OnDispose)]"
        using dispose_quiet [OF u(2) f(2), of E m] r(4) f(1,3) True m(2) by auto
      moreover have "w_log u = w_log w @ [(a, OnLeave)]" using soft_fields(5) [OF u(1)] by (simp add: left_world_def)
      ultimately show ?thesis
        using rem True Some f(4) dispose_leads_gone [OF u(2) f(2)] by (auto simp: m(1) departed_def gone_def)
    next
      case False
      with rem u(2) f(1-4) soft_fields(1,2,3,5) [OF u(1)] show ?thesis by (simp add: m(1) departed_def left_world_def)
    qed
  qed
qed

lemma sc_tasks_clear [simp]: "sc_tasks (timer_clear h s) = sc_tasks s"
  by (cases h) simp_all

text \<open>Telling room \<open>a\<close> leaves every other sound room sound.\<close>

lemma remove_keeps_others:
  assumes a: "sound_room E a ra w" and b: "sound_room E b rb w" and "b \<noteq> a"
  shows "sound_room E b rb (snd (remove_client E n a sid x w))"
proof -
  let ?P = "\<lambda>u. w_rooms u b = Some rb \<and> wired b rb u \<and>
      (\<forall>r. w_rooms u a = Some r \<longrightarrow> map_of (w_managing u) (rm_id r) = Some a)"
  have "closed (room_step E a) ?P"
    unfolding closed_def
  proof (intro allI impI)
    fix u v assume P: "?P u" and "room_step E a u v"
    then show "?P v"
      unfolding room_step_def
      by (elim disjE calm_stepE tail_stepE)
        (use \<open>b \<noteq> a\<close> in \<open>auto simp: mild_fields wired_def\<close>, (meson unsub_subset)+)
  qed
  then have k: "keeps ?P (remove_client E n a sid x)" by (rule room_ops_keep(3))
  have "?P w" using a b by (simp add: sound_room_def wired_def)
  from keepsD [OF k this] show ?thesis using b by (simp add: sound_room_def)
qed

lemma remove_keeps_room:
  assumes a: "sound_room E a ra w" and "b \<noteq> a"
  shows "w_rooms (snd (remove_client E n a sid x w)) b = w_rooms w b"
    "w_connections (snd (remove_client E n a sid x w)) = w_connections w"
proof -
  let ?P = "\<lambda>u. w_rooms u b = w_rooms w b \<and> w_connections u = w_connections w \<and>
      (\<forall>r. w_rooms u a = Some r \<longrightarrow> map_of (w_managing u) (rm_id r) = Some a)"
  have "closed (room_step E a) ?P"
    unfolding closed_def room_step_def
    by (auto elim!: calm_stepE tail_stepE simp: mild_fields \<open>b \<noteq> a\<close>)
  then have k: "keeps ?P (remove_client E n a sid x)" by (rule room_ops_keep(3))
  have "?P w" using a by (simp add: sound_room_def wired_def)
  from keepsD [OF k this] show "w_rooms (snd (remove_client E n a sid x w)) b = w_rooms w b"
    "w_connections (snd (remove_client E n a sid x w)) = w_connections w" by simp_all
qed

lemma tell_all:
  assumes "distinct as" "\<forall>a \<in> set as. sound_room E a (rs a) w" "2 < n"
  shows "\<exists>w'. seqs (\<lambda>a. remove_client E n a sid b) as w = (Normal, w') \<and>
    (\<forall>a \<in> set as. departed sid (rs a) (w_rooms w' a)) \<and> (\<forall>c. c \<notin> set as \<longrightarrow> w_rooms w' c = w_rooms w c) \<and>
    w_connections w' = w_connections w"
  using assms
proof (induction as arbitrary: w)
  case Nil
  then show ?case by (simp add: skip_def)
next
  case (Cons a as)
  have a: "sound_room E a (rs a) w" using Cons.prems by simp
  obtain u where u: "remove_client E n a sid b w = (Normal, u)" "departed sid (rs a) (w_rooms u a)"
    using depart_one [OF a Cons.prems(3)] by blast
  have others: "\<forall>c \<in> set as. sound_room E c (rs c) u"
    using Cons.prems remove_keeps_others [OF a, of _ _ n sid b] u(1) by force
  have same: "w_rooms u c = w_rooms w c" if "c \<noteq> a" for c
    using remove_keeps_room(1) [OF a that, of n sid b] u(1) by simp
  have conn: "w_connections u = w_connections w"
    using remove_keeps_room(2) [OF a, of "Suc a" n sid b] u(1) by simp
  obtain w' where w': "seqs (\<lambda>a. remove_client E n a sid b) as u = (Normal, w')"
      "\<forall>c \<in> set as. departed sid (rs c) (w_rooms w' c)" "\<forall>c. c \<notin> set as \<longrightarrow> w_rooms w' c = w_rooms u c"
      "w_connections w' = w_connections u"
    using Cons.IH [OF _ others Cons.prems(3)] Cons.prems(1) by auto
  have "w_rooms w' a = w_rooms u a" using w'(3) Cons.prems(1) by simp
  then show ?case using u w' same conn by auto
qed



end
