(* ===== verification/Store_Props.thy ===== *)
theory Store_Props imports Room_Quiet Server
begin

text \<open>
  The properties of the services that rooms and the server rest on: storage, listener table, room
  registry, game values, timers and callback lists.
\<close>

subsection \<open>Storage\<close>

text \<open>what is stored under a key can be read for three hours, or for ever when stored without
  expiration, and the other keys are not affected.\<close>

theorem storage_set_then_get:
  "mem_get t (mem_set now s k v p) k' =
    (if k' = k then (if p \<or> t \<le> now + THREE_HOURS then Some v else None) else mem_get t s k')"
  by (rule mem_get_set)

text \<open>\<open>fetch_keys\<close> returns each live key with the prefix exactly once, without the prefix, and the
  entries it purges are none that any later read could see.\<close>

theorem storage_fetch_keys:
  assumes "mem_good s"
  shows "set (fst (mem_fetch_keys now s pre)) = {r. mem_get now s (pre @ r) \<noteq> None} \<and>
    distinct (fst (mem_fetch_keys now s pre)) \<and>
    (\<forall>t k. now \<le> t \<longrightarrow> mem_get t (snd (mem_fetch_keys now s pre)) k = mem_get t s k)"
  using fetch_keys_set [OF assms] fetch_keys_distinct [OF assms] mem_get_fetch [OF assms] by blast

theorem storage_fetch_keys_witness:
  "set (fst (mem_fetch_keys 5 [(''room:a'', \<lparr>ent_value = ''x'', ent_expires_at = None\<rparr>),
      (''room:b'', \<lparr>ent_value = ''y'', ent_expires_at = Some 4\<rparr>)] ''room:'')) = {''a''}"
  using storage_fetch_keys [of "[(''room:a'', \<lparr>ent_value = ''x'', ent_expires_at = None\<rparr>),
      (''room:b'', \<lparr>ent_value = ''y'', ent_expires_at = Some 4\<rparr>)]" 5 "''room:''"]
  by (simp add: mem_good_def expired_def)

subsection \<open>Listener table\<close>

text \<open>a publication runs the listeners of its key in the order of their subscription, and after a
  subscription is cancelled the table is, for every key, what it was before it was made.\<close>

theorem pubsub_order_and_cancel:
  assumes "\<forall>l \<in> set (ps_listeners ps key). ls_id l \<noteq> i"
  shows "map ls_handler (ps_listeners (snd (ps_on i key h ps)) key) = map ls_handler (ps_listeners ps key) @ [h] \<and>
    ps_listeners (snd (ps_unsubscribe (fst (ps_on i key h ps)) (snd (ps_on i key h ps)))) k = ps_listeners ps k \<and>
    ps_publish invk (\<lambda>_. snd (ps_on i key h ps)) key data w =
      seq (seqs (\<lambda>l. invk (ls_handler l) data) (ps_listeners ps key)) (invk h data) w"
  using mps.on_then_unsub [OF assms, of h k]
  by (simp add: ps_listeners_on ps_publish_seqs seqs_append)

theorem pubsub_order_and_cancel_witness:
  "ps_listeners (snd (ps_unsubscribe (fst (ps_on ''i2'' ''k'' True [(''k'', [\<lparr>ls_id = ''i1'', ls_handler = False\<rparr>])]))
      (snd (ps_on ''i2'' ''k'' True [(''k'', [\<lparr>ls_id = ''i1'', ls_handler = False\<rparr>])])))) ''k'' =
    [\<lparr>ls_id = ''i1'', ls_handler = False\<rparr>]"
proof -
  let ?ps = "[(''k'', [\<lparr>ls_id = ''i1'', ls_handler = False\<rparr>])]"
  have "\<forall>l \<in> set (ps_listeners ?ps ''k''). ls_id l \<noteq> ''i2''" by (simp add: ps_listeners_def)
  from conjunct1 [OF conjunct2 [OF pubsub_order_and_cancel [OF this, of True "''k''"]]]
  have "ps_listeners (snd (ps_unsubscribe (fst (ps_on ''i2'' ''k'' True ?ps)) (snd (ps_on ''i2'' ''k'' True ?ps)))) ''k'' =
      ps_listeners ?ps ''k''" .
  then show ?thesis by (simp add: ps_listeners_def [of ?ps])
qed

subsection \<open>Room registry\<close>

text \<open>a room added to the registry is listed and found as it was added (up to the normal form of
  the metadata's numbers), the other rooms are found as before, and a removed room is found no more.\<close>

theorem registry_add_remove:
  assumes "mem_good s" "text_safe J (snapshot_to_json r)"
  shows "\<exists>s'. add_room (mem_ops now) J s r = Inr s' \<and>
    find_room_by_id (mem_ops now) J s' (rs_id r) = Inr (r\<lparr>rs_metadata := norm (rs_metadata r)\<rparr>) \<and>
    (\<forall>i. i \<noteq> rs_id r \<longrightarrow> find_room_by_id (mem_ops now) J s' i = find_room_by_id (mem_ops now) J s i) \<and>
    set (fst (get_list_of_rooms (mem_ops now) s')) = insert (rs_id r) (set (fst (get_list_of_rooms (mem_ops now) s))) \<and>
    rs_id r \<notin> set (fst (get_list_of_rooms (mem_ops now) (remove_room (mem_ops now) s' (rs_id r))))"
proof -
  obtain s' where s': "add_room (mem_ops now) J s r = Inr s'" "mem_good s'"
    "find_room_by_id (mem_ops now) J s' (rs_id r) = Inr (r\<lparr>rs_metadata := norm (rs_metadata r)\<rparr>)"
    "\<forall>i. i \<noteq> rs_id r \<longrightarrow> find_room_by_id (mem_ops now) J s' i = find_room_by_id (mem_ops now) J s i"
    "set (fst (get_list_of_rooms (mem_ops now) s')) = insert (rs_id r) (set (fst (get_list_of_rooms (mem_ops now) s)))"
    using reg.add_room_ok [OF assms, of now] by blast
  with reg.remove_room_gone(2) [OF s'(2), of now "rs_id r"] show ?thesis by auto
qed

definition lobby_snapshot :: room_snapshot where
  "lobby_snapshot = \<lparr>rs_id = ''lobby'', rs_type = ''chat'', rs_owner = no_client, rs_metadata = JInt 5, rs_created_at = 9\<rparr>"

definition lobby_json :: json_lib where
  "lobby_json = \<lparr>jl_parse = (\<lambda>s. if s = ''t'' then Some (norm (snapshot_to_json lobby_snapshot)) else None),
     jl_dump = (\<lambda>v. if v = snapshot_to_json lobby_snapshot then Some ''t'' else None),
     jl_what = (\<lambda>e. []), jl_float_int = (\<lambda>f. f)\<rparr>"

theorem registry_add_remove_witness:
  "\<exists>s'. add_room (mem_ops 0) lobby_json [] lobby_snapshot = Inr s' \<and>
    find_room_by_id (mem_ops 0) lobby_json s' ''lobby'' = Inr (lobby_snapshot\<lparr>rs_metadata := JUnsigned 5\<rparr>)"
proof -
  have "mem_good []" "text_safe lobby_json (snapshot_to_json lobby_snapshot)"
    by (simp_all add: mem_good_def text_safe_def lobby_json_def)
  from registry_add_remove [OF this, of 0] show ?thesis
    by (auto simp: lobby_snapshot_def)
qed

subsection \<open>Game values\<close>

text \<open>setting one game value makes it readable and leaves the others as they were, up to the normal
  form of numbers.\<close>

theorem game_values_set_get:
  assumes "mem_good s" "gv_get_all (mem_ops now) J s = JObject m" "sorted_obj m"
    and "text_safe J (JObject (obj_set k v m))"
  shows "\<exists>s'. gv_set (mem_ops now) J s k v = Inr s' \<and> gv_get (mem_ops now) J s' k d = norm v \<and>
    (\<forall>k'. k' \<noteq> k \<longrightarrow> gv_get (mem_ops now) J s' k' d = (case map_of m k' of Some u \<Rightarrow> norm u | None \<Rightarrow> d))"
  using gv.set_get [OF assms(1-4), of d] by blast

definition number_json :: json_lib where
  "number_json = \<lparr>jl_parse = (\<lambda>s. Some (JObject [(''round'', JUnsigned 3)])),
     jl_dump = (\<lambda>v. Some ''{}''), jl_what = (\<lambda>e. []), jl_float_int = (\<lambda>f. f)\<rparr>"

theorem game_values_set_get_witness:
  "\<exists>s'. gv_set (mem_ops 0) number_json [] ''round'' (JInt 3) = Inr s' \<and>
    gv_get (mem_ops 0) number_json s' ''round'' JNull = JUnsigned 3"
proof -
  have "gv_get_all (mem_ops 0) number_json [] = JObject []" by (simp add: gv_get_all_def mem_get_def)
  moreover have "text_safe number_json (JObject (obj_set ''round'' (JInt 3) []))"
    by (simp add: text_safe_def number_json_def)
  ultimately show ?thesis
    using game_values_set_get [of "[]" 0 number_json "[]" "''round''" "JInt 3" JNull]
    by (auto simp: mem_good_def sorted_obj_def)
qed

subsection \<open>Timers\<close>

text \<open>the worker of the scheduler, left alone at one moment of the clock, runs exactly the tasks that
  are due and not cancelled, in the order of their due times, tasks of the same time in the order
  in which they were set.\<close>

theorem timers_run_in_order:
  assumes "\<not> sc_stopping s"
  shows "serve now s = live_due now s"
  using assms by (rule serve_live_due)

theorem timers_run_in_order_witness:
  "map tk_callback (serve 10 \<lparr>sc_tasks = [\<lparr>tk_due = 9, tk_callback = ''late'', tk_flag = 0\<rparr>,
      \<lparr>tk_due = 3, tk_callback = ''gone'', tk_flag = 1\<rparr>, \<lparr>tk_due = 4, tk_callback = ''soon'', tk_flag = 2\<rparr>],
      sc_cancelled = (\<lambda>f. f = 1), sc_next_flag = 3, sc_stopping = False\<rparr>) = [''soon'', ''late'']"
  by (subst timers_run_in_order) (simp_all add: live_due_def)

subsection \<open>Callback lists\<close>

text \<open>\<open>Callback::call\<close> over the leave listeners of a live room runs every callback that is not spent
  exactly once, in the order of registration, and then drops the one-shot callbacks; the premise
  says that a callback returns and leaves the list alone.\<close>

theorem callbacks_called_in_order:
  assumes "\<And>f w cs. get_leave a w = Some cs \<Longrightarrow>
      \<exists>w'. invk f w = (Normal, w') \<and> get_leave a w' = Some cs \<and>
        put_leave a cb_empty w' = act f (put_leave a cb_empty w)"
    and "get_leave a w = Some cs"
  shows "\<exists>w' cs'. cb_call invk (get_leave a) (put_leave a) w = (Normal, w') \<and> get_leave a w' = Some cs' \<and>
    cb_entries cs' = map marked (filter (\<lambda>e. \<not> ce_once e) (cb_entries cs)) \<and>
    put_leave a cb_empty w' =
      fold act (map ce_callback (filter (\<lambda>e. \<not> spent e) (cb_entries cs))) (put_leave a cb_empty w)"
  by (rule leave_table.call_quiet [where act = act and invoke = invk and a = a and cs = cs])
    (use assms in blast)+

definition listener_world :: world where
  "listener_world = empty_world\<lparr>w_rooms := (\<lambda>_. None)(0 \<mapsto> (new_room [] [] no_client JNull JNull JNull)
     \<lparr>rm_leave_listeners := snd (cb_add ''b'' 8 True (snd (cb_add ''a'' 7 False cb_empty)))\<rparr>)\<rparr>"

definition note_call :: "nat \<Rightarrow> world \<Rightarrow> world" where
  "note_call f w = w\<lparr>w_log := w_log w @ [(f, OnLeave)]\<rparr>"

theorem callbacks_called_in_order_witness:
  "\<exists>w' cs'. cb_call (\<lambda>f. effect (note_call f) :: wstep) (get_leave 0) (put_leave 0) listener_world = (Normal, w') \<and>
    w_log w' = [(7, OnLeave), (8, OnLeave)] \<and> get_leave 0 w' = Some cs' \<and> map ce_id (cb_entries cs') = [''a'']"
proof -
  let ?cs = "snd (cb_add ''b'' 8 True (snd (cb_add ''a'' (7::nat) False cb_empty)))"
  have p: "\<And>f w cs. get_leave 0 w = Some cs \<Longrightarrow>
      \<exists>w'. (effect (note_call f) :: wstep) w = (Normal, w') \<and> get_leave 0 w' = Some cs \<and>
        put_leave 0 cb_empty w' = note_call f (put_leave 0 cb_empty w)"
    by (simp add: effect_def get_leave_def put_leave_def note_call_def)
  have g: "get_leave 0 listener_world = Some ?cs" by (simp add: get_leave_def listener_world_def)
  from callbacks_called_in_order [of 0 "\<lambda>f. effect (note_call f) :: wstep" note_call, OF p g]
  obtain w' cs' where w': "cb_call (\<lambda>f. effect (note_call f) :: wstep) (get_leave 0) (put_leave 0) listener_world = (Normal, w')"
      "get_leave 0 w' = Some cs'"
      "cb_entries cs' = map marked (filter (\<lambda>e. \<not> ce_once e) (cb_entries ?cs))"
      "put_leave 0 cb_empty w' =
         fold note_call (map ce_callback (filter (\<lambda>e. \<not> spent e) (cb_entries ?cs))) (put_leave 0 cb_empty listener_world)"
    by blast
  have "w_log w' = w_log (put_leave 0 cb_empty w')" by (simp add: put_leave_def)
  also have "\<dots> = [(7, OnLeave), (8, OnLeave)]"
    unfolding w'(4) by (simp add: cb_add_def cb_empty_def spent_def put_leave_def listener_world_def empty_world_def note_call_def)
  finally have "w_log w' = [(7, OnLeave), (8, OnLeave)]" .
  moreover have "map ce_id (cb_entries cs') = [''a'']"
    by (simp add: w'(3) cb_add_def cb_empty_def marked_def spent_def)
  ultimately show ?thesis using w'(1,2) by (intro exI conjI)
qed

end
