(* ===== verification/Socket.thy ===== *)
theory Socket imports Prelude
begin

text \<open>
  The byte stream under everything else: the abstract class \<open>Socket\<close>
  (common/include/blueboat/common/socket.hpp) as a record of its operations, and
  \<open>PlainSocket\<close> (common/src/socket.cpp) over a script of what the operating system answers: the
  pieces in which the peer's bytes arrive and the amounts that successive writes accept.  Every
  behaviour of \<open>recv\<close> and \<open>send\<close> is some script.
\<close>

text \<open>The answers of \<open>read\<close>: a positive count with its bytes, zero, and the negative ones by \<open>errno\<close>.\<close>

datatype recv = Got string | Eof | Again | Failed

record 's socket_ops =
  so_read :: "nat \<Rightarrow> 's \<Rightarrow> recv \<times> 's"
  so_write :: "string \<Rightarrow> 's \<Rightarrow> nat option \<times> 's"
  so_shutdown :: "'s \<Rightarrow> 's"

definition INT_MAX :: nat where "INT_MAX = 2147483647"

text \<open>
  The contract of \<open>read\<close> that the readers rely on: \<open>stream s\<close> are the bytes still to come before the
  first end, error or time-out.  \<open>TlsSocket::read\<close> converts the length to \<open>int\<close>, so the contract speaks of
  lengths that fit.
\<close>

locale byte_source =
  fixes S :: "'s socket_ops"
    and stream :: "'s \<Rightarrow> string"
  assumes read_some: "0 < n \<Longrightarrow> n \<le> INT_MAX \<Longrightarrow> stream s \<noteq> [] \<Longrightarrow>
      \<exists>d s'. so_read S n s = (Got d, s') \<and> d \<noteq> [] \<and> length d \<le> n \<and> stream s = d @ stream s'"
    and read_none: "0 < n \<Longrightarrow> n \<le> INT_MAX \<Longrightarrow> stream s = [] \<Longrightarrow> \<exists>r s'. so_read S n s = (r, s') \<and> (\<forall>d. r \<noteq> Got d)"
begin

lemma read_byte:
  assumes "stream s = c # cs"
  obtains s' where "so_read S 1 s = (Got [c], s')" "stream s' = cs"
proof -
  obtain d s' where d: "so_read S 1 s = (Got d, s')" "d \<noteq> []" "length d \<le> 1" "c # cs = d @ stream s'"
    using read_some [of 1 s] assms by (auto simp: INT_MAX_def)
  then obtain x where "d = [x]" by (cases d) auto
  with d that show thesis by simp
qed

end

text \<open>
  What a receive loop relies on: \<open>todo s\<close> bounds the reads that can still succeed or time out, and
  \<open>coming idle s\<close> are the bytes a loop will have read when it ends, which goes on after a time-out if
  \<open>idle\<close>.  Writing and shutting down leave both alone.
\<close>

locale finite_source =
  fixes S :: "'s socket_ops"
    and todo :: "'s \<Rightarrow> nat"
    and coming :: "bool \<Rightarrow> 's \<Rightarrow> string"
  assumes got: "0 < n \<Longrightarrow> n \<le> INT_MAX \<Longrightarrow> so_read S n s = (Got d, s') \<Longrightarrow>
      0 < length d \<and> length d \<le> n \<and> todo s' < todo s \<and> coming i s = d @ coming i s'"
    and again: "0 < n \<Longrightarrow> n \<le> INT_MAX \<Longrightarrow> so_read S n s = (Again, s') \<Longrightarrow>
      todo s' < todo s \<and> coming True s = coming True s' \<and> coming False s = []"
    and over: "0 < n \<Longrightarrow> n \<le> INT_MAX \<Longrightarrow> so_read S n s = (r, s') \<Longrightarrow> r = Eof \<or> r = Failed \<Longrightarrow> coming i s = []"
    and wrote: "so_write S b s = (k, s') \<Longrightarrow> todo s' = todo s \<and> coming i s' = coming i s"
    and shut: "todo (so_shutdown S s) = todo s \<and> coming i (so_shutdown S s) = coming i s"

subsection \<open>The scripted socket\<close>

datatype arrival = Piece string | Silence | Broken

record sock =
  sk_in :: "arrival list"
  sk_out :: string
  sk_accept :: "nat list"
  sk_shut :: bool

text \<open>\<open>PlainSocket::read\<close>: \<open>recv\<close> returns the bytes of the current piece, at most \<open>len\<close> of them.\<close>

fun plain_read :: "nat \<Rightarrow> sock \<Rightarrow> recv \<times> sock" where
  "plain_read len s =
     (case sk_in s of
        [] \<Rightarrow> (Eof, s)
      | Piece d # r \<Rightarrow>
          if d = [] then (Eof, s\<lparr>sk_in := r\<rparr>)
          else (Got (take len d), s\<lparr>sk_in := (if drop len d = [] then r else Piece (drop len d) # r)\<rparr>)
      | Silence # r \<Rightarrow> (Again, s\<lparr>sk_in := r\<rparr>)
      | Broken # r \<Rightarrow> (Failed, s\<lparr>sk_in := r\<rparr>))"

text \<open>\<open>PlainSocket::write\<close>: \<open>send\<close> takes a part of the bytes, or fails.\<close>

definition plain_write :: "string \<Rightarrow> sock \<Rightarrow> nat option \<times> sock" where
  "plain_write d s =
     (case sk_accept s of
        [] \<Rightarrow> (Some (length d), s\<lparr>sk_out := sk_out s @ d\<rparr>)
      | 0 # r \<Rightarrow> (None, s\<lparr>sk_accept := r\<rparr>)
      | k # r \<Rightarrow> (Some (min k (length d)), s\<lparr>sk_accept := r, sk_out := sk_out s @ take k d\<rparr>))"

definition plain_shutdown :: "sock \<Rightarrow> sock" where
  "plain_shutdown s = s\<lparr>sk_shut := True\<rparr>"

definition plain_ops :: "sock socket_ops" where
  "plain_ops = \<lparr>so_read = plain_read, so_write = plain_write, so_shutdown = plain_shutdown\<rparr>"

fun arriving :: "arrival list \<Rightarrow> string" where
  "arriving [] = []"
| "arriving (Piece d # r) = (if d = [] then [] else d @ arriving r)"
| "arriving (Silence # r) = []"
| "arriving (Broken # r) = []"

definition plain_stream :: "sock \<Rightarrow> string" where
  "plain_stream s = arriving (sk_in s)"

lemma plain_ops_simps [simp]: "so_read plain_ops = plain_read" "so_write plain_ops = plain_write"
  "so_shutdown plain_ops = plain_shutdown"
  by (simp_all add: plain_ops_def)

interpretation plain: byte_source plain_ops plain_stream
proof
  fix n :: nat and s assume n: "0 < n"
  show "plain_stream s \<noteq> [] \<Longrightarrow>
      \<exists>d s'. so_read plain_ops n s = (Got d, s') \<and> d \<noteq> [] \<and> length d \<le> n \<and> plain_stream s = d @ plain_stream s'"
    using n by (cases "sk_in s" rule: arriving.cases) (auto simp: plain_stream_def)
  show "plain_stream s = [] \<Longrightarrow> \<exists>r s'. so_read plain_ops n s = (r, s') \<and> (\<forall>d. r \<noteq> Got d)"
    by (cases "sk_in s" rule: arriving.cases) (auto simp: plain_stream_def split: if_splits)
qed

text \<open>The reads left, and what a receive loop will have read.\<close>

fun reads_left :: "arrival list \<Rightarrow> nat" where
  "reads_left [] = 0"
| "reads_left (Piece d # r) = Suc (length d) + reads_left r"
| "reads_left (a # r) = Suc (reads_left r)"

fun until_end :: "bool \<Rightarrow> arrival list \<Rightarrow> string" where
  "until_end idle [] = []"
| "until_end idle (Piece d # r) = (if d = [] then [] else d @ until_end idle r)"
| "until_end idle (Silence # r) = (if idle then until_end idle r else [])"
| "until_end idle (Broken # r) = []"

definition plain_todo :: "sock \<Rightarrow> nat" where
  "plain_todo s = reads_left (sk_in s)"

definition plain_coming :: "bool \<Rightarrow> sock \<Rightarrow> string" where
  "plain_coming idle s = until_end idle (sk_in s)"

lemma plain_write_keeps_input: "sk_in (snd (plain_write b s)) = sk_in s"
  by (simp add: plain_write_def split: list.split nat.split)

interpretation plain_loop: finite_source plain_ops plain_todo plain_coming
proof
  fix n :: nat and s s' :: sock and d b :: string and i :: bool and r :: recv and k :: "nat option"
  assume n: "0 < n"
  show "so_read plain_ops n s = (Got d, s') \<Longrightarrow>
      0 < length d \<and> length d \<le> n \<and> plain_todo s' < plain_todo s \<and> plain_coming i s = d @ plain_coming i s'"
    using n by (cases "sk_in s" rule: arriving.cases)
      (auto simp: plain_todo_def plain_coming_def split: if_splits)
  show "so_read plain_ops n s = (Again, s') \<Longrightarrow>
      plain_todo s' < plain_todo s \<and> plain_coming True s = plain_coming True s' \<and> plain_coming False s = []"
    by (cases "sk_in s" rule: arriving.cases) (auto simp: plain_todo_def plain_coming_def split: if_splits)
  show "so_read plain_ops n s = (r, s') \<Longrightarrow> r = Eof \<or> r = Failed \<Longrightarrow> plain_coming i s = []"
    by (cases "sk_in s" rule: arriving.cases) (auto simp: plain_coming_def split: if_splits)
next
  fix s s' :: sock and b :: string and i :: bool and k :: "nat option"
  show "so_write plain_ops b s = (k, s') \<Longrightarrow> plain_todo s' = plain_todo s \<and> plain_coming i s' = plain_coming i s"
    using plain_write_keeps_input [of b s] by (simp add: plain_todo_def plain_coming_def)
next
  fix s :: sock and i :: bool
  show "plain_todo (so_shutdown plain_ops s) = plain_todo s \<and>
      plain_coming i (so_shutdown plain_ops s) = plain_coming i s"
    by (simp add: plain_todo_def plain_coming_def plain_shutdown_def)
qed

end
