(* ===== verification/Tls.thy ===== *)
theory Tls imports Socket "HOL-Library.Word"
begin

text \<open>
  \<open>TlsSocket\<close> (common/src/tls_socket.cpp) over a script of what OpenSSL answers, the way \<open>PlainSocket\<close> is
  modelled over a script of what the operating system answers: decrypted pieces, errors by
  \<open>SSL_get_error\<close> with the \<open>errno\<close> they leave, and the amounts that writes take.  Every behaviour of the
  library is some script.
\<close>

datatype ssl_error = SSL_ERROR_WANT_READ | SSL_ERROR_WANT_WRITE | SSL_ERROR_ZERO_RETURN | SSL_ERROR_OTHER

datatype errno = EAGAIN | OTHER_ERRNO

datatype ssl_answer = Plaintext string | Trouble ssl_error errno

datatype ssl_taken = Taken nat | Untaken ssl_error errno

record tls_sock =
  ts_in :: "ssl_answer list"
  ts_out :: string
  ts_takes :: "ssl_taken list"
  ts_errno :: errno
  ts_shut :: bool

text \<open>\<open>static_cast<int>\<close> of a length.\<close>

definition int_len :: "nat \<Rightarrow> int" where
  "int_len len = sint (of_nat len :: 32 word)"

lemma int_len_fits: "len \<le> INT_MAX \<Longrightarrow> int_len len = int len"
  by (simp add: int_len_def INT_MAX_def sint_uint unsigned_of_nat take_bit_nat_eq_self
      signed_take_bit_int_eq_self)

subsection \<open>The library's two transfers\<close>

text \<open>\<open>SSL_read\<close>: the bytes, or the error that \<open>SSL_get_error\<close> then reports.  A length that is not
  positive is refused.\<close>

fun ssl_read :: "int \<Rightarrow> tls_sock \<Rightarrow> (ssl_error + string) \<times> tls_sock" where
  "ssl_read num s =
     (if num \<le> 0 then (Inl SSL_ERROR_OTHER, s\<lparr>ts_errno := OTHER_ERRNO\<rparr>)
      else case ts_in s of
        [] \<Rightarrow> (Inl SSL_ERROR_ZERO_RETURN, s)
      | Plaintext d # r \<Rightarrow>
          if d = [] then (Inl SSL_ERROR_ZERO_RETURN, s\<lparr>ts_in := r\<rparr>)
          else (Inr (take (nat num) d),
                s\<lparr>ts_in := (if drop (nat num) d = [] then r else Plaintext (drop (nat num) d) # r)\<rparr>)
      | Trouble e n # r \<Rightarrow> (Inl e, s\<lparr>ts_in := r, ts_errno := n\<rparr>))"

definition ssl_write :: "string \<Rightarrow> int \<Rightarrow> tls_sock \<Rightarrow> (ssl_error + nat) \<times> tls_sock" where
  "ssl_write d num s =
     (if num \<le> 0 then (Inl SSL_ERROR_OTHER, s\<lparr>ts_errno := OTHER_ERRNO\<rparr>)
      else case ts_takes s of
        [] \<Rightarrow> (Inr (nat num), s\<lparr>ts_out := ts_out s @ take (nat num) d\<rparr>)
      | Taken k # r \<Rightarrow>
          if k = 0 then (Inl SSL_ERROR_OTHER, s\<lparr>ts_takes := r\<rparr>)
          else (Inr (min k (nat num)), s\<lparr>ts_takes := r, ts_out := ts_out s @ take (min k (nat num)) d\<rparr>)
      | Untaken e n # r \<Rightarrow> (Inl e, s\<lparr>ts_takes := r, ts_errno := n\<rparr>))"

subsection \<open>The socket\<close>

text \<open>
  \<open>TlsSocket::read\<close>: a library that wants to be called again is reported as \<open>EAGAIN\<close>; any other error
  returns \<open>-1\<close> with \<open>errno\<close> as the library left it, which the caller reads.
\<close>

definition tls_read :: "nat \<Rightarrow> tls_sock \<Rightarrow> recv \<times> tls_sock" where
  "tls_read len s =
     (case ssl_read (int_len len) s of
        (Inr d, s') \<Rightarrow> (Got d, s')
      | (Inl err, s') \<Rightarrow>
          if err = SSL_ERROR_WANT_READ \<or> err = SSL_ERROR_WANT_WRITE then (Again, s'\<lparr>ts_errno := EAGAIN\<rparr>)
          else if err = SSL_ERROR_ZERO_RETURN then (Eof, s')
          else if ts_errno s' = EAGAIN then (Again, s') else (Failed, s'))"

definition tls_write :: "string \<Rightarrow> tls_sock \<Rightarrow> nat option \<times> tls_sock" where
  "tls_write d s =
     (case ssl_write d (int_len (length d)) s of
        (Inr n, s') \<Rightarrow> (Some n, s')
      | (Inl err, s') \<Rightarrow>
          if err = SSL_ERROR_WANT_READ \<or> err = SSL_ERROR_WANT_WRITE then (None, s'\<lparr>ts_errno := EAGAIN\<rparr>)
          else (None, s'))"

definition tls_shutdown :: "tls_sock \<Rightarrow> tls_sock" where
  "tls_shutdown s = s\<lparr>ts_shut := True\<rparr>"

definition tls_ops :: "tls_sock socket_ops" where
  "tls_ops = \<lparr>so_read = tls_read, so_write = tls_write, so_shutdown = tls_shutdown\<rparr>"

lemma tls_ops_simps [simp]: "so_read tls_ops = tls_read" "so_write tls_ops = tls_write"
  "so_shutdown tls_ops = tls_shutdown"
  by (simp_all add: tls_ops_def)

subsection \<open>Its contracts\<close>

fun decrypted :: "ssl_answer list \<Rightarrow> string" where
  "decrypted [] = []"
| "decrypted (Plaintext d # r) = (if d = [] then [] else d @ decrypted r)"
| "decrypted (Trouble e n # r) = []"

definition tls_stream :: "tls_sock \<Rightarrow> string" where
  "tls_stream s = decrypted (ts_in s)"

text \<open>Whether the caller sees a time-out, after which a receive loop with an idle callback goes on.\<close>

definition seen_as_idle :: "ssl_error \<Rightarrow> errno \<Rightarrow> bool" where
  "seen_as_idle e n \<longleftrightarrow> e = SSL_ERROR_WANT_READ \<or> e = SSL_ERROR_WANT_WRITE \<or> e = SSL_ERROR_OTHER \<and> n = EAGAIN"

fun ssl_reads_left :: "ssl_answer list \<Rightarrow> nat" where
  "ssl_reads_left [] = 0"
| "ssl_reads_left (Plaintext d # r) = Suc (length d) + ssl_reads_left r"
| "ssl_reads_left (Trouble e n # r) = Suc (ssl_reads_left r)"

fun decrypted_until_end :: "bool \<Rightarrow> ssl_answer list \<Rightarrow> string" where
  "decrypted_until_end idle [] = []"
| "decrypted_until_end idle (Plaintext d # r) = (if d = [] then [] else d @ decrypted_until_end idle r)"
| "decrypted_until_end idle (Trouble e n # r) =
     (if idle \<and> seen_as_idle e n then decrypted_until_end idle r else [])"

definition tls_todo :: "tls_sock \<Rightarrow> nat" where
  "tls_todo s = ssl_reads_left (ts_in s)"

definition tls_coming :: "bool \<Rightarrow> tls_sock \<Rightarrow> string" where
  "tls_coming idle s = decrypted_until_end idle (ts_in s)"

lemma tls_write_keeps_input: "ts_in (snd (tls_write b s)) = ts_in s"
  by (simp add: tls_write_def ssl_write_def split: list.split ssl_taken.split)

lemma tls_read_cases:
  assumes "0 < n" "n \<le> INT_MAX"
  shows "tls_read n s =
     (case ts_in s of
        [] \<Rightarrow> (Eof, s)
      | Plaintext d # r \<Rightarrow>
          if d = [] then (Eof, s\<lparr>ts_in := r\<rparr>)
          else (Got (take n d), s\<lparr>ts_in := (if drop n d = [] then r else Plaintext (drop n d) # r)\<rparr>)
      | Trouble e m # r \<Rightarrow>
          if seen_as_idle e m then (Again, s\<lparr>ts_in := r, ts_errno := EAGAIN\<rparr>)
          else if e = SSL_ERROR_ZERO_RETURN then (Eof, s\<lparr>ts_in := r, ts_errno := m\<rparr>)
          else (Failed, s\<lparr>ts_in := r, ts_errno := m\<rparr>))"
  using assms by (cases "ts_in s" rule: decrypted.cases)
    (auto simp: tls_read_def int_len_fits seen_as_idle_def intro: ssl_error.exhaust errno.exhaust)

interpretation tls: byte_source tls_ops tls_stream
proof
  fix n :: nat and s assume n: "0 < n" "n \<le> INT_MAX"
  show "tls_stream s \<noteq> [] \<Longrightarrow>
      \<exists>d s'. so_read tls_ops n s = (Got d, s') \<and> d \<noteq> [] \<and> length d \<le> n \<and> tls_stream s = d @ tls_stream s'"
    using n by (cases "ts_in s" rule: decrypted.cases) (auto simp: tls_stream_def tls_read_cases)
  show "tls_stream s = [] \<Longrightarrow> \<exists>r s'. so_read tls_ops n s = (r, s') \<and> (\<forall>d. r \<noteq> Got d)"
    using n by (cases "ts_in s" rule: decrypted.cases)
      (auto simp: tls_stream_def tls_read_cases split: if_splits)
qed

interpretation tls_loop: finite_source tls_ops tls_todo tls_coming
proof
  fix n :: nat and s s' :: tls_sock and d b :: string and i :: bool and r :: recv and k :: "nat option"
  assume n: "0 < n" "n \<le> INT_MAX"
  show "so_read tls_ops n s = (Got d, s') \<Longrightarrow>
      0 < length d \<and> length d \<le> n \<and> tls_todo s' < tls_todo s \<and> tls_coming i s = d @ tls_coming i s'"
    using n by (cases "ts_in s" rule: decrypted.cases)
      (auto simp: tls_todo_def tls_coming_def tls_read_cases split: if_splits)
  show "so_read tls_ops n s = (Again, s') \<Longrightarrow>
      tls_todo s' < tls_todo s \<and> tls_coming True s = tls_coming True s' \<and> tls_coming False s = []"
    using n by (cases "ts_in s" rule: decrypted.cases)
      (auto simp: tls_todo_def tls_coming_def tls_read_cases split: if_splits)
  show "so_read tls_ops n s = (r, s') \<Longrightarrow> r = Eof \<or> r = Failed \<Longrightarrow> tls_coming i s = []"
    using n by (cases "ts_in s" rule: decrypted.cases)
      (auto simp: tls_coming_def tls_read_cases split: if_splits)
next
  fix s s' :: tls_sock and b :: string and i :: bool and k :: "nat option"
  show "so_write tls_ops b s = (k, s') \<Longrightarrow> tls_todo s' = tls_todo s \<and> tls_coming i s' = tls_coming i s"
    using tls_write_keeps_input [of b s] by (simp add: tls_todo_def tls_coming_def)
next
  fix s :: tls_sock and i :: bool
  show "tls_todo (so_shutdown tls_ops s) = tls_todo s \<and> tls_coming i (so_shutdown tls_ops s) = tls_coming i s"
    by (simp add: tls_todo_def tls_coming_def tls_shutdown_def)
qed

end
