(* ===== verification/Http.thy ===== *)
theory Http imports Socket
begin

text \<open>
  HTTP requests and responses (common/src/http.cpp), over any socket.  The C++ streams that the code
  splits text with are modelled by what \<open>std::getline\<close> and \<open>operator>>\<close> return one after the other.
\<close>

definition MAX_HEADER_SIZE :: nat where
  "MAX_HEADER_SIZE = 64 * 1024"

definition MAX_BODY_SIZE :: nat where
  "MAX_BODY_SIZE = 8 * 1024 * 1024"

definition CR :: char where "CR = CHR 0x0D"
definition LF :: char where "LF = CHR 0x0A"
definition TAB :: char where "TAB = CHR 0x09"
definition crlf :: string where "crlf = [CR, LF]"

subsection \<open>Reading the header block\<close>

definition ends_block :: "string \<Rightarrow> bool" where
  "ends_block buf \<longleftrightarrow> 4 \<le> length buf \<and> drop (length buf - 4) buf = crlf @ crlf"

function read_until_double_crlf :: "'s socket_ops \<Rightarrow> string \<Rightarrow> 's \<Rightarrow> string option \<times> 's" where
  "read_until_double_crlf S buf s =
     (if length buf < MAX_HEADER_SIZE then
        (case so_read S 1 s of
           (Got (c # cs), s') \<Rightarrow>
             if ends_block (buf @ [c]) then (Some (buf @ [c]), s')
             else read_until_double_crlf S (buf @ [c]) s'
         | (_, s') \<Rightarrow> (None, s'))
      else (None, s))"
  by pat_completeness auto
termination
  by (relation "measure (\<lambda>(S, buf, s). MAX_HEADER_SIZE - length buf)") auto

declare read_until_double_crlf.simps [simp del]

subsection \<open>Text\<close>

definition to_lower :: "string \<Rightarrow> string" where
  "to_lower = map (\<lambda>c. if CHR ''A'' \<le> c \<and> c \<le> CHR ''Z'' then char_of (of_char c + 32 :: nat) else c)"

fun find_first :: "(char \<Rightarrow> bool) \<Rightarrow> string \<Rightarrow> nat option" where
  "find_first p [] = None"
| "find_first p (c # s) = (if p c then Some 0 else map_option Suc (find_first p s))"

fun find_last :: "(char \<Rightarrow> bool) \<Rightarrow> string \<Rightarrow> nat option" where
  "find_last p [] = None"
| "find_last p (c # s) = (case find_last p s of Some i \<Rightarrow> Some (Suc i) | None \<Rightarrow> if p c then Some 0 else None)"

text \<open>
  \<open>npos\<close> is the largest \<open>size_t\<close>; the length \<open>end - start + 1\<close> is computed in \<open>size_t\<close> and wraps when
  \<open>end\<close> is \<open>npos\<close>.
\<close>

definition npos :: "64 word" where
  "npos = -1"

definition pos_word :: "nat option \<Rightarrow> 64 word" where
  "pos_word i = (case i of None \<Rightarrow> npos | Some k \<Rightarrow> of_nat k)"

definition trim :: "string \<Rightarrow> string" where
  "trim s =
     (let start = find_first (\<lambda>c. c \<notin> {CHR '' '', TAB}) s;
          ende = find_last (\<lambda>c. c \<notin> {CHR '' '', TAB, CR, LF}) s in
      case start of
        None \<Rightarrow> []
      | Some k \<Rightarrow> take (unat (pos_word ende - of_nat k + 1)) (drop k s))"

text \<open>The strings that successive calls of \<open>std::getline(stream, line, d)\<close> return, until one fails.\<close>

function getlines :: "char \<Rightarrow> string \<Rightarrow> string list" where
  "getlines d [] = []"
| "getlines d (c # s) = takeWhile (\<lambda>x. x \<noteq> d) (c # s) # getlines d (tl (dropWhile (\<lambda>x. x \<noteq> d) (c # s)))"
  by pat_completeness auto
termination
proof (relation "measure (\<lambda>(d, s). length s)")
  fix d c :: char and s :: string
  have "length (dropWhile (\<lambda>x. x \<noteq> d) (c # s)) \<le> length (c # s)" by (rule length_dropWhile_le)
  then show "((d, tl (dropWhile (\<lambda>x. x \<noteq> d) (c # s))), d, c # s) \<in> measure (\<lambda>(d, s). length s)"
    by (cases "dropWhile (\<lambda>x. x \<noteq> d) (c # s)") auto
qed simp

definition strip_cr :: "string \<Rightarrow> string" where
  "strip_cr line = (if line \<noteq> [] \<and> last line = CR then butlast line else line)"

definition is_space :: "char \<Rightarrow> bool" where
  "is_space c \<longleftrightarrow> c = CHR '' '' \<or> (9 \<le> (of_char c :: nat) \<and> (of_char c :: nat) \<le> 13)"

text \<open>\<open>stream >> word\<close>: the next word, and what follows it; failure when there is none.\<close>

definition next_word :: "string \<Rightarrow> (string \<times> string) option" where
  "next_word s =
     (let t = dropWhile is_space s in
      if t = [] then None else Some (takeWhile (\<lambda>c. \<not> is_space c) t, dropWhile (\<lambda>c. \<not> is_space c) t))"

text \<open>\<open>s.find(c)\<close> and the two parts around the first occurrence.\<close>

definition split_at :: "char \<Rightarrow> string \<Rightarrow> (string \<times> string) option" where
  "split_at d s =
     (if d \<in> set s then Some (takeWhile (\<lambda>c. c \<noteq> d) s, tl (dropWhile (\<lambda>c. c \<noteq> d) s)) else None)"

definition is_digit :: "char \<Rightarrow> bool" where
  "is_digit c \<longleftrightarrow> CHR ''0'' \<le> c \<and> c \<le> CHR ''9''"

definition digit_value :: "char \<Rightarrow> nat" where
  "digit_value c = of_char c - 48"

definition number_of :: "string \<Rightarrow> nat" where
  "number_of ds = foldl (\<lambda>n c. 10 * n + digit_value c) 0 ds"

text \<open>
  \<open>std::stoul\<close>: leading white space, a sign, decimal digits; what follows is ignored.  No digits or
  a value beyond 64 bits throw; a minus sign negates modulo \<open>2^64\<close>.
\<close>

definition stoul :: "string \<Rightarrow> 64 word option" where
  "stoul s =
     (let t = dropWhile is_space s;
          neg = (t \<noteq> [] \<and> hd t = CHR ''-'');
          u = (if t \<noteq> [] \<and> (hd t = CHR ''-'' \<or> hd t = CHR ''+'') then tl t else t);
          ds = takeWhile is_digit u in
      if ds = [] \<or> 2 ^ 64 \<le> number_of ds then None
      else Some (if neg then - of_nat (number_of ds) else of_nat (number_of ds)))"

subsection \<open>Requests\<close>

record http_request =
  hr_method :: string
  hr_path :: string
  hr_query :: string
  hr_headers :: "(string \<times> string) list"
  hr_body :: string

definition header_step :: "(string \<times> string) list \<Rightarrow> string \<Rightarrow> (string \<times> string) list" where
  "header_step hs raw =
     (let line = strip_cr raw in
      if line = [] then hs
      else (case split_at (CHR '':'') line of
          None \<Rightarrow> hs
        | Some (k, v) \<Rightarrow> AList.update (to_lower k) (trim v) hs))"

definition parse_head :: "string \<Rightarrow> http_request option" where
  "parse_head raw =
     (case getlines LF raw of
        [] \<Rightarrow> None
      | l # ls \<Rightarrow>
          (case next_word (strip_cr l) of
             None \<Rightarrow> None
           | Some (meth, r1) \<Rightarrow>
               (case next_word r1 of
                  None \<Rightarrow> None
                | Some (target, r2) \<Rightarrow>
                    (case next_word r2 of
                       None \<Rightarrow> None
                     | Some (version, r3) \<Rightarrow>
                         let (p, q) = (case split_at (CHR ''?'') target of Some pq \<Rightarrow> pq | None \<Rightarrow> (target, []))
                         in Some \<lparr>hr_method = meth, hr_path = p, hr_query = q,
                                  hr_headers = foldl header_step [] ls, hr_body = []\<rparr>))))"

function read_body :: "'s socket_ops \<Rightarrow> nat \<Rightarrow> string \<Rightarrow> 's \<Rightarrow> string option \<times> 's" where
  "read_body S len body s =
     (if length body < len then
        (case so_read S (len - length body) s of
           (Got (c # cs), s') \<Rightarrow> read_body S len (body @ c # cs) s'
         | (_, s') \<Rightarrow> (None, s'))
      else (Some body, s))"
  by pat_completeness auto
termination
  by (relation "measure (\<lambda>(S, len, body, s). len - length body)") auto

declare read_body.simps [simp del]

definition read_request :: "'s socket_ops \<Rightarrow> 's \<Rightarrow> http_request option \<times> 's" where
  "read_request S s =
     (case read_until_double_crlf S [] s of
        (None, s1) \<Rightarrow> (None, s1)
      | (Some raw, s1) \<Rightarrow>
          (case parse_head raw of
             None \<Rightarrow> (None, s1)
           | Some req \<Rightarrow>
               (case map_of (hr_headers req) ''content-length'' of
                  None \<Rightarrow> (Some req, s1)
                | Some v \<Rightarrow>
                    (case stoul v of
                       None \<Rightarrow> (None, s1)
                     | Some n \<Rightarrow>
                         if MAX_BODY_SIZE < unat n then (None, s1)
                         else (case read_body S (unat n) [] s1 of
                             (None, s2) \<Rightarrow> (None, s2)
                           | (Some b, s2) \<Rightarrow> (Some (req\<lparr>hr_body := b\<rparr>), s2))))))"

definition parse_query :: "string \<Rightarrow> (string \<times> string) list" where
  "parse_query q =
     foldl (\<lambda>m pair. case split_at (CHR ''='') pair of
              None \<Rightarrow> AList.update pair [] m
            | Some (k, v) \<Rightarrow> AList.update k v m) [] (getlines (CHR ''&'') q)"

subsection \<open>Responses\<close>

text \<open>A number as \<open>ostream\<close> prints it.\<close>

fun dec :: "nat \<Rightarrow> string" where
  "dec n = (if n < 10 then [char_of (48 + n)] else dec (n div 10) @ [char_of (48 + n mod 10)])"

declare dec.simps [simp del]

definition response_text ::
  "nat \<Rightarrow> string \<Rightarrow> string \<Rightarrow> string \<Rightarrow> (string \<times> string) list \<Rightarrow> string" where
  "response_text status status_text content_type body extra =
     ''HTTP/1.1 '' @ dec status @ '' '' @ status_text @ crlf @
     ''Content-Type: '' @ content_type @ crlf @
     ''Content-Length: '' @ dec (length body) @ crlf @
     ''Connection: close'' @ crlf @
     concat (map (\<lambda>(k, v). k @ '': '' @ v @ crlf) extra) @ crlf @ body"

text \<open>The loop that sends a text in as many writes as the socket needs; it gives up on the first failure.\<close>

function write_all :: "'s socket_ops \<Rightarrow> string \<Rightarrow> 's \<Rightarrow> 's" where
  "write_all S data s =
     (if data = [] then s
      else (case so_write S data s of
          (Some (Suc n), s') \<Rightarrow> write_all S (drop (Suc n) data) s'
        | (_, s') \<Rightarrow> s'))"
  by pat_completeness auto
termination
  by (relation "measure (\<lambda>(S, data, s). length data)") auto

declare write_all.simps [simp del]

definition write_response ::
  "'s socket_ops \<Rightarrow> 's \<Rightarrow> nat \<Rightarrow> string \<Rightarrow> string \<Rightarrow> string \<Rightarrow> (string \<times> string) list \<Rightarrow> 's" where
  "write_response S s status status_text content_type body extra =
     write_all S (response_text status status_text content_type body extra) s"

end
