(* ===== verification/Http_Facts.thy ===== *)
theory Http_Facts imports Http
begin

text \<open>
  What reading a request delivers, for any way in which its bytes arrive, and what writing a response
  delivers, for any way in which the socket accepts bytes.
\<close>

subsection \<open>Lines\<close>

lemma getlines_line: "d \<notin> set l \<Longrightarrow> getlines d (l @ d # s) = l # getlines d s"
proof (cases l)
  case (Cons c l')
  assume "d \<notin> set l"
  then have "\<forall>x \<in> set l. x \<noteq> d" by auto
  then have "takeWhile (\<lambda>x. x \<noteq> d) (l @ d # s) = l" "dropWhile (\<lambda>x. x \<noteq> d) (l @ d # s) = d # s"
    by (simp_all add: takeWhile_append2 dropWhile_append2)
  with Cons show ?thesis by (simp del: takeWhile.simps dropWhile.simps)
qed simp

lemma getlines_append: "getlines d (a @ d # b) = getlines d (a @ [d]) @ getlines d b"
proof (induction "length a" arbitrary: a rule: less_induct)
  case less
  show ?case
  proof (cases "d \<in> set a")
    case False
    then show ?thesis using getlines_line [of d a "[]"] by (simp add: getlines_line)
  next
    case True
    then obtain x y where a: "a = x @ d # y" "d \<notin> set x" by (meson split_list_first)
    have "getlines d (y @ d # b) = getlines d (y @ [d]) @ getlines d b"
      using less [of y] a(1) by simp
    with a show ?thesis by (simp add: getlines_line)
  qed
qed

definition line_text :: "string list \<Rightarrow> string" where
  "line_text ls = concat (map (\<lambda>l. l @ crlf) ls)"

lemma getlines_line_text:
  "\<forall>l \<in> set ls. LF \<notin> set l \<Longrightarrow>
   getlines LF (line_text ls @ s) = map (\<lambda>l. l @ [CR]) ls @ getlines LF s"
proof (induction ls)
  case (Cons l ls)
  then have "LF \<notin> set (l @ [CR])" by (auto simp: CR_def LF_def)
  from getlines_line [OF this] Cons show ?case by (simp add: line_text_def crlf_def)
qed (simp add: line_text_def)

lemma ends_block_iff: "ends_block z \<longleftrightarrow> (\<exists>x. z = x @ crlf @ crlf)"
proof
  assume e: "ends_block z"
  then have "z = take (length z - 4) z @ crlf @ crlf"
    unfolding ends_block_def by (metis append_take_drop_id)
  then show "\<exists>x. z = x @ crlf @ crlf" ..
qed (auto simp: ends_block_def crlf_def)

text \<open>A block of non-empty lines and an empty line ends at the empty line and not before.\<close>

lemma block_ends_once:
  assumes lines: "\<forall>l \<in> set ls. LF \<notin> set l \<and> l \<noteq> []" and z: "line_text ls @ crlf = z @ w" and e: "ends_block z"
  shows "w = []"
proof -
  obtain x where x: "z = x @ crlf @ crlf" using e by (auto simp: ends_block_iff)
  have "getlines LF (line_text ls @ crlf) = map (\<lambda>l. l @ [CR]) ls @ [[CR]]"
    using lines getlines_line [of LF "[CR]" "[]"] getlines_line_text [of ls crlf]
    by (auto simp: crlf_def CR_def LF_def)
  moreover have "getlines LF (z @ w) = getlines LF (x @ [CR] @ [LF]) @ [CR] # getlines LF w"
    using getlines_append [of LF "x @ [CR]" "[CR] @ LF # w"] getlines_line [of LF "[CR]" w]
    by (simp add: x crlf_def CR_def LF_def)
  ultimately have eq: "map (\<lambda>l. l @ [CR]) ls @ [[CR]] = getlines LF (x @ [CR] @ [LF]) @ [CR] # getlines LF w"
    using z by metis
  have "[CR] \<notin> set (map (\<lambda>l. l @ [CR]) ls)" using lines by auto
  moreover have "[CR] \<in> set (butlast (getlines LF (x @ [CR] @ [LF]) @ [CR] # getlines LF w))" if "getlines LF w \<noteq> []"
    using that by (simp add: butlast_append)
  ultimately have "getlines LF w = []"
    using eq by (metis butlast_snoc)
  then show ?thesis by (cases w) auto
qed

subsection \<open>Reading the header block\<close>

context byte_source begin

lemma read_until_step:
  assumes "stream s = c # cs" "length buf < MAX_HEADER_SIZE"
  obtains s' where "stream s' = cs" "read_until_double_crlf S buf s =
    (if ends_block (buf @ [c]) then (Some (buf @ [c]), s') else read_until_double_crlf S (buf @ [c]) s')"
proof -
  obtain s' where "so_read S 1 s = (Got [c], s')" "stream s' = cs" by (rule read_byte [OF assms(1)])
  with assms(2) that show thesis by (simp add: read_until_double_crlf.simps [of S buf s])
qed

lemma read_until_block:
  assumes "stream s = x @ y" "x \<noteq> []" "ends_block (buf @ x)" "length (buf @ x) \<le> MAX_HEADER_SIZE"
    and "\<And>z w. x = z @ w \<Longrightarrow> z \<noteq> [] \<Longrightarrow> ends_block (buf @ z) \<Longrightarrow> w = []"
  shows "\<exists>s'. read_until_double_crlf S buf s = (Some (buf @ x), s') \<and> stream s' = y"
  using assms
proof (induction x arbitrary: buf s)
  case (Cons c x)
  have len: "length buf < MAX_HEADER_SIZE" using Cons.prems(4) by simp
  obtain s' where s': "stream s' = x @ y" "read_until_double_crlf S buf s =
      (if ends_block (buf @ [c]) then (Some (buf @ [c]), s') else read_until_double_crlf S (buf @ [c]) s')"
    using read_until_step [OF _ len] Cons.prems(1) by (metis append_Cons)
  show ?case
  proof (cases "ends_block (buf @ [c])")
    case True
    then have "x = []" using Cons.prems(5) [of "[c]" x] by simp
    with True s' show ?thesis by simp
  next
    case False
    then have ne: "x \<noteq> []" using Cons.prems(3) by auto
    have "\<exists>s''. read_until_double_crlf S (buf @ [c]) s' = (Some ((buf @ [c]) @ x), s'') \<and> stream s'' = y"
    proof (rule Cons.IH [OF s'(1) ne])
      fix z w assume "x = z @ w" "z \<noteq> []" "ends_block ((buf @ [c]) @ z)"
      then show "w = []" using Cons.prems(5) [of "c # z" w] by simp
    qed (use Cons.prems in simp_all)
    with False s'(2) show ?thesis by simp
  qed
qed simp

lemma read_until_some:
  assumes "read_until_double_crlf S buf s = (Some h, s')"
  shows "\<exists>x. h = buf @ x \<and> stream s = x @ stream s' \<and> ends_block h \<and> length h \<le> MAX_HEADER_SIZE"
  using assms
proof (induction "MAX_HEADER_SIZE - length buf" arbitrary: buf s)
  case 0
  then show ?case by (simp add: read_until_double_crlf.simps [of S buf s])
next
  case (Suc k)
  have len: "length buf < MAX_HEADER_SIZE" using Suc.hyps(2) by simp
  show ?case
  proof (cases "stream s")
    case Nil
    then obtain r u where "so_read S 1 s = (r, u)" "\<forall>d. r \<noteq> Got d" using read_none [of 1 s] by (auto simp: INT_MAX_def)
    with Suc.prems len show ?thesis
      by (cases r) (simp_all add: read_until_double_crlf.simps [of S buf s])
  next
    case (Cons c cs)
    obtain u where u: "stream u = cs" "read_until_double_crlf S buf s =
        (if ends_block (buf @ [c]) then (Some (buf @ [c]), u) else read_until_double_crlf S (buf @ [c]) u)"
      by (rule read_until_step [OF Cons len])
    show ?thesis
    proof (cases "ends_block (buf @ [c])")
      case True
      with Suc.prems u Cons len show ?thesis by auto
    next
      case False
      have "k = MAX_HEADER_SIZE - length (buf @ [c])" using Suc.hyps(2) by simp
      moreover have "read_until_double_crlf S (buf @ [c]) u = (Some h, s')" using Suc.prems u False by simp
      ultimately obtain x where "h = (buf @ [c]) @ x" "stream u = x @ stream s'" "ends_block h" "length h \<le> MAX_HEADER_SIZE"
        using Suc.hyps(1) by blast
      with u(1) Cons show ?thesis by (intro exI [of _ "c # x"]) simp
    qed
  qed
qed

subsection \<open>Reading the body\<close>

lemma read_body_all:
  assumes "stream s = x @ y" "length (body @ x) = len" "len \<le> INT_MAX"
  shows "\<exists>s'. read_body S len body s = (Some (body @ x), s') \<and> stream s' = y"
  using assms
proof (induction "length x" arbitrary: x body s rule: less_induct)
  case less
  show ?case
  proof (cases "x = []")
    case True
    with less.prems show ?thesis by (simp add: read_body.simps [of S len body s])
  next
    case False
    then have pos: "0 < len - length body" using less.prems(2) by auto
    have le: "len - length body \<le> INT_MAX" using less.prems(3) by linarith
    obtain d s1 where d: "so_read S (len - length body) s = (Got d, s1)" "d \<noteq> []"
        "length d \<le> len - length body" "x @ y = d @ stream s1"
      using read_some [OF pos le, of s] less.prems(1) False by auto
    have "length d \<le> length x" using d(3) less.prems(2) by simp
    then obtain x' where x': "x = d @ x'" "stream s1 = x' @ y"
      using d(4) by (auto simp: append_eq_append_conv2)
    have "\<exists>s'. read_body S len (body @ d) s1 = (Some ((body @ d) @ x'), s') \<and> stream s' = y"
      using less.prems(2,3) d(2) x' by (intro less.hyps) auto
    with pos d(1,2) x'(1) show ?thesis
      by (cases d) (simp_all add: read_body.simps [of S len body s])
  qed
qed

lemma read_body_length:
  "read_body S len body s = (Some b, s') \<Longrightarrow> length body \<le> len \<Longrightarrow> len \<le> INT_MAX \<Longrightarrow>
   length b = len \<and> (\<exists>x. b = body @ x \<and> stream s = x @ stream s')"
proof (induction "len - length body" arbitrary: body s rule: less_induct)
  case less
  show ?case
  proof (cases "length body < len")
    case False
    with less.prems show ?thesis by (auto simp: read_body.simps [of S len body s])
  next
    case True
    have le: "len - length body \<le> INT_MAX" using less.prems(3) by linarith
    show ?thesis
    proof (cases "stream s = []")
      case True
      then obtain r u where "so_read S (len - length body) s = (r, u)" "\<forall>d. r \<noteq> Got d"
        using read_none [OF _ le, of s] \<open>length body < len\<close> by auto
      with less.prems(1) \<open>length body < len\<close> show ?thesis
        by (cases r) (simp_all add: read_body.simps [of S len body s])
    next
      case False
      then obtain d s1 where d: "so_read S (len - length body) s = (Got d, s1)" "d \<noteq> []"
          "length d \<le> len - length body" "stream s = d @ stream s1"
        using read_some [OF _ le, of s] True by auto
      have "read_body S len (body @ d) s1 = (Some b, s')"
        using less.prems(1) True d(1,2) by (cases d) (simp_all add: read_body.simps [of S len body s])
      moreover have "len - length (body @ d) < len - length body" using True d(2) by (cases d) auto
      moreover have "length (body @ d) \<le> len" using d(3) True by simp
      ultimately have "length b = len \<and> (\<exists>x. b = (body @ d) @ x \<and> stream s1 = x @ stream s')"
        using less.hyps less.prems(3) by blast
      with d(4) show ?thesis by auto
    qed
  qed
qed

end

subsection \<open>Parsing the header block\<close>

definition token :: "string \<Rightarrow> bool" where
  "token x \<longleftrightarrow> x \<noteq> [] \<and> (\<forall>c \<in> set x. \<not> is_space c)"

lemma next_word_token:
  assumes "token x" "\<forall>c \<in> set pre. is_space c" "r = [] \<or> is_space (hd r)"
  shows "next_word (pre @ x @ r) = Some (x, r)"
proof -
  have d: "dropWhile is_space (pre @ x @ r) = x @ r"
    using assms(1,2) by (cases x) (auto simp: token_def dropWhile_append2)
  have "takeWhile (\<lambda>c. \<not> is_space c) (x @ r) = x" "dropWhile (\<lambda>c. \<not> is_space c) (x @ r) = r"
    using assms(1,3) by (cases r; auto simp: token_def takeWhile_append2 dropWhile_append2)+
  with d assms(1) show ?thesis by (simp add: next_word_def token_def)
qed

lemma split_at_first: "d \<notin> set k \<Longrightarrow> split_at d (k @ d # v) = Some (k, v)"
proof -
  assume "d \<notin> set k"
  then have "\<forall>x \<in> set k. x \<noteq> d" by auto
  then show ?thesis by (simp add: split_at_def takeWhile_append2 dropWhile_append2)
qed

lemma split_at_none: "d \<notin> set s \<Longrightarrow> split_at d s = None"
  by (simp add: split_at_def)

lemma strip_cr_snoc [simp]: "strip_cr (l @ [CR]) = l"
  by (simp add: strip_cr_def)

lemma find_first_some: "find_first p s = Some k \<Longrightarrow> k < length s \<and> p (s ! k) \<and> (\<forall>i < k. \<not> p (s ! i))"
  by (induction s arbitrary: k) (auto split: if_splits simp: less_Suc_eq_0_disj)

lemma find_first_none: "find_first p s = None \<longleftrightarrow> (\<forall>c \<in> set s. \<not> p c)"
  by (induction s) auto

lemma find_last_none: "find_last p s = None \<longleftrightarrow> (\<forall>c \<in> set s. \<not> p c)"
  by (induction s) (auto split: option.splits)

lemma find_last_snoc: "p c \<Longrightarrow> find_last p (s @ [c]) = Some (length s)"
  by (induction s) auto

text \<open>A value without surrounding white space is what \<open>trim\<close> makes of it with a space in front.\<close>

definition trimmed :: "string \<Rightarrow> bool" where
  "trimmed v \<longleftrightarrow> v = [] \<or> (hd v \<notin> {CHR '' '', TAB} \<and> last v \<notin> {CHR '' '', TAB, CR, LF})"

lemma trim_trimmed:
  assumes "trimmed v" "length v < 2 ^ 32"
  shows "trim (CHR '' '' # v) = v"
proof (cases v)
  case Nil
  then show ?thesis by (simp add: trim_def)
next
  case (Cons c v')
  with assms have c: "c \<notin> {CHR '' '', TAB}" "last v \<notin> {CHR '' '', TAB, CR, LF}" "v \<noteq> []"
    by (auto simp: trimmed_def)
  have first: "find_first (\<lambda>c. c \<notin> {CHR '' '', TAB}) (CHR '' '' # v) = Some 1"
    using c(1) Cons by simp
  have "find_last (\<lambda>c. c \<notin> {CHR '' '', TAB, CR, LF}) (CHR '' '' # v) = Some (length v)"
    using find_last_snoc [of "\<lambda>c. c \<notin> {CHR '' '', TAB, CR, LF}" "last v" "CHR '' '' # butlast v"] c(2,3)
    by simp
  moreover have "unat (of_nat (length v) - of_nat 1 + 1 :: 64 word) = length v"
    using assms(2) by (simp add: unat_of_nat take_bit_nat_eq_self)
  ultimately show ?thesis
    using first by (simp only: trim_def Let_def option.case pos_word_def) simp
qed

text \<open>Lookup in the header map: the last line of a name wins.\<close>

definition header_line :: "string \<times> string \<Rightarrow> string" where
  "header_line kv = fst kv @ '': '' @ snd kv"

definition header_ok :: "string \<times> string \<Rightarrow> bool" where
  "header_ok kv \<longleftrightarrow> CHR '':'' \<notin> set (fst kv) \<and> LF \<notin> set (fst kv) \<and> LF \<notin> set (snd kv) \<and>
     trimmed (snd kv) \<and> length (snd kv) < 2 ^ 32"

definition lower_key :: "string \<times> string \<Rightarrow> string \<times> string" where
  "lower_key kv = (to_lower (fst kv), snd kv)"

lemma header_step_line:
  assumes "header_ok kv"
  shows "header_step hs (header_line kv @ [CR]) = AList.update (to_lower (fst kv)) (snd kv) hs"
proof -
  have "split_at (CHR '':'') (header_line kv) = Some (fst kv, CHR '' '' # snd kv)"
    using assms split_at_first [of "CHR '':''" "fst kv" "CHR '' '' # snd kv"] by (simp add: header_ok_def header_line_def)
  moreover have "header_line kv \<noteq> []" by (simp add: header_line_def)
  moreover have "trim (CHR '' '' # snd kv) = snd kv"
    using assms by (intro trim_trimmed) (simp_all add: header_ok_def)
  ultimately show ?thesis by (simp add: header_step_def)
qed

lemma header_fold:
  "\<forall>kv \<in> set hs. header_ok kv \<Longrightarrow>
   map_of (foldl header_step acc (map (\<lambda>kv. header_line kv @ [CR]) hs)) k =
     map_of (rev (map lower_key hs) @ acc) k"
  by (induction hs arbitrary: acc) (auto simp: header_step_line update_conv lower_key_def map_add_def split: option.splits)

definition path_part :: "string \<Rightarrow> string" where
  "path_part target = takeWhile (\<lambda>c. c \<noteq> CHR ''?'') target"

definition query_part :: "string \<Rightarrow> string" where
  "query_part target = tl (dropWhile (\<lambda>c. c \<noteq> CHR ''?'') target)"

lemma split_target:
  "(case split_at (CHR ''?'') target of Some pq \<Rightarrow> pq | None \<Rightarrow> (target, [])) = (path_part target, query_part target)"
proof (cases "CHR ''?'' \<in> set target")
  case False
  then have e: "dropWhile (\<lambda>c. c \<noteq> CHR ''?'') target = []" "takeWhile (\<lambda>c. c \<noteq> CHR ''?'') target = target"
    by auto
  from False show ?thesis by (simp add: split_at_def path_part_def query_part_def e)
qed (simp add: split_at_def path_part_def query_part_def)

definition request_line :: "string \<Rightarrow> string \<Rightarrow> string" where
  "request_line meth target = meth @ '' '' @ target @ '' HTTP/1.1''"

definition request_head :: "string \<Rightarrow> string \<Rightarrow> (string \<times> string) list \<Rightarrow> string" where
  "request_head meth target hs = line_text (request_line meth target # map header_line hs) @ crlf"

lemma token_no_lf: "token x \<Longrightarrow> LF \<notin> set x"
proof
  assume "token x" "LF \<in> set x"
  then have "\<not> is_space LF" by (simp add: token_def)
  then show False by (simp add: is_space_def LF_def)
qed

lemma parse_request_line:
  assumes "token meth" "token target"
  shows "\<exists>r1 r2. next_word (request_line meth target) = Some (meth, r1) \<and> next_word r1 = Some (target, r2) \<and>
    next_word r2 = Some (''HTTP/1.1'', [])"
proof (intro exI conjI)
  show "next_word (request_line meth target) = Some (meth, '' '' @ target @ '' HTTP/1.1'')"
    using next_word_token [OF assms(1), of "[]"] by (simp add: request_line_def is_space_def)
  show "next_word ('' '' @ target @ '' HTTP/1.1'') = Some (target, '' HTTP/1.1'')"
    using next_word_token [OF assms(2), of "'' ''" "'' HTTP/1.1''"] by (simp add: is_space_def)
  show "next_word '' HTTP/1.1'' = Some (''HTTP/1.1'', [])"
    by (simp add: next_word_def is_space_def)
qed

lemma header_line_ok: "header_ok kv \<Longrightarrow> LF \<notin> set (header_line kv) \<and> header_line kv \<noteq> []"
  by (auto simp: header_ok_def header_line_def LF_def)

lemma request_lines_ok:
  assumes "token meth" "token target" "\<forall>kv \<in> set hs. header_ok kv"
  shows "\<forall>l \<in> set (request_line meth target # map header_line hs). LF \<notin> set l \<and> l \<noteq> []"
proof -
  have "LF \<notin> set (request_line meth target)" "request_line meth target \<noteq> []"
    using assms(1,2) token_no_lf by (auto simp: request_line_def LF_def)
  with assms(3) header_line_ok show ?thesis by auto
qed

lemma parse_request_head:
  assumes "token meth" "token target" "\<forall>kv \<in> set hs. header_ok kv"
  obtains req where "parse_head (request_head meth target hs) = Some req"
    "hr_method req = meth" "hr_path req = path_part target" "hr_query req = query_part target"
    "hr_body req = []" "map_of (hr_headers req) = map_of (rev (map lower_key hs))"
proof -
  let ?ls = "map (\<lambda>kv. header_line kv @ [CR]) hs @ [[CR]]"
  have "getlines LF (request_head meth target hs) = (request_line meth target @ [CR]) # ?ls"
    using request_lines_ok [OF assms] getlines_line_text [of "request_line meth target # map header_line hs" crlf]
      getlines_line [of LF "[CR]" "[]"]
    by (auto simp: request_head_def crlf_def CR_def LF_def)
  moreover obtain r1 r2 where "next_word (request_line meth target) = Some (meth, r1)"
      "next_word r1 = Some (target, r2)" "next_word r2 = Some (''HTTP/1.1'', [])"
    using parse_request_line [OF assms(1,2)] by blast
  ultimately have "parse_head (request_head meth target hs) =
      Some \<lparr>hr_method = meth, hr_path = path_part target, hr_query = query_part target,
            hr_headers = foldl header_step [] ?ls, hr_body = []\<rparr>"
    by (simp add: parse_head_def split_target)
  moreover have "foldl header_step [] ?ls = foldl header_step [] (map (\<lambda>kv. header_line kv @ [CR]) hs)"
    using strip_cr_snoc [of "[]"] by (simp add: header_step_def)
  ultimately show thesis
    using header_fold [OF assms(3), of "[]"] by (intro that) auto
qed

subsection \<open>Numbers\<close>

lemma digit_char: "d < 10 \<Longrightarrow> is_digit (char_of (48 + d :: nat)) \<and> digit_value (char_of (48 + d)) = d"
proof -
  assume "d < 10"
  then have "d \<in> {0, 1, 2, 3, 4, 5, 6, 7, 8, 9}" by auto
  then show ?thesis by (auto simp: is_digit_def digit_value_def less_eq_char_def)
qed

lemma dec_digits: "\<forall>c \<in> set (dec n). is_digit c"
proof (induction n rule: dec.induct)
  case (1 n)
  then show ?case
    using digit_char [of n] digit_char [of "n mod 10"] by (auto simp: dec.simps [of n])
qed

lemma dec_nonempty: "dec n \<noteq> []"
  by (simp add: dec.simps [of n])

lemma number_of_dec: "number_of (dec n) = n"
proof (induction n rule: dec.induct)
  case (1 n)
  show ?case
  proof (cases "n < 10")
    case True
    then show ?thesis using digit_char [of n] by (simp add: dec.simps [of n] number_of_def)
  next
    case False
    then have "number_of (dec (n div 10)) = n div 10" using 1 by simp
    then show ?thesis
      using False digit_char [of "n mod 10"] by (simp add: dec.simps [of n] number_of_def)
  qed
qed

lemma stoul_dec:
  assumes "n < 2 ^ 64"
  shows "stoul (dec n) = Some (of_nat n)"
proof -
  obtain c ds where d: "dec n = c # ds" using dec_nonempty [of n] by (cases "dec n") auto
  have "is_digit c" using dec_digits [of n] d by auto
  then have c: "\<not> is_space c" "c \<noteq> CHR ''-''" "c \<noteq> CHR ''+''"
    by (auto simp: is_digit_def is_space_def less_eq_char_def)
  have t: "takeWhile is_digit (dec n) = dec n" using dec_digits [of n] by simp
  from c d have "dropWhile is_space (dec n) = dec n" "hd (dec n) = c" by simp_all
  with c assms show ?thesis
    by (simp add: stoul_def Let_def dec_nonempty number_of_dec t)
qed

end
