(* ===== verification/Http_Props.thy ===== *)
theory Http_Props imports Http_Facts
begin

text \<open>Properties of the HTTP reader and writer.\<close>

subsection \<open>Requests over any byte source\<close>

context byte_source begin

lemma read_request_received:
  assumes ok: "token meth" "token target" "\<forall>kv \<in> set hs. header_ok kv"
    and size: "length (request_head meth target hs) \<le> MAX_HEADER_SIZE" "length body \<le> MAX_BODY_SIZE"
    and len: "map_of (rev (map lower_key hs)) ''content-length'' = Some (dec (length body)) \<or>
      body = [] \<and> map_of (rev (map lower_key hs)) ''content-length'' = None"
    and s: "stream s = request_head meth target hs @ body @ rest"
  shows "\<exists>req s'. read_request S s = (Some req, s') \<and> stream s' = rest \<and> hr_method req = meth \<and>
    hr_path req = path_part target \<and> hr_query req = query_part target \<and> hr_body req = body \<and>
    map_of (hr_headers req) = map_of (rev (map lower_key hs))"
proof -
  let ?h = "request_head meth target hs"
  obtain x where x: "?h = x @ crlf @ crlf"
    by (cases "map header_line hs" rule: rev_cases) (auto simp: request_head_def line_text_def)
  obtain s1 where s1: "read_until_double_crlf S [] s = (Some ?h, s1)" "stream s1 = body @ rest"
  proof -
    have "\<exists>s'. read_until_double_crlf S [] s = (Some ([] @ ?h), s') \<and> stream s' = body @ rest"
    proof (rule read_until_block [OF s])
      show "?h \<noteq> []" "ends_block ([] @ ?h)" using x by (auto simp: crlf_def ends_block_iff)
      fix z w assume "?h = z @ w" "ends_block ([] @ z)"
      then show "w = []" using block_ends_once [OF request_lines_ok [OF ok]] by (simp add: request_head_def)
    qed (use size in simp)
    then show thesis using that by auto
  qed
  obtain req where req: "parse_head ?h = Some req" "hr_method req = meth" "hr_path req = path_part target"
      "hr_query req = query_part target" "hr_body req = []" "map_of (hr_headers req) = map_of (rev (map lower_key hs))"
    by (rule parse_request_head [OF ok])
  have small: "length body < 2 ^ 64" using size(2) by (simp add: MAX_BODY_SIZE_def)
  then have u: "unat (of_nat (length body) :: 64 word) = length body"
    by (simp add: unat_of_nat take_bit_nat_eq_self)
  obtain s2 where s2: "read_body S (length body) [] s1 = (Some body, s2)" "stream s2 = rest"
    using read_body_all [OF s1(2), of "[]"] size(2) by (auto simp: MAX_BODY_SIZE_def INT_MAX_def)
  from len show ?thesis
  proof
    assume "map_of (rev (map lower_key hs)) ''content-length'' = Some (dec (length body))"
    then show ?thesis
      using s1 req size(2) s2 stoul_dec [OF small] by (simp add: read_request_def u)
  next
    assume "body = [] \<and> map_of (rev (map lower_key hs)) ''content-length'' = None"
    then show ?thesis using s1 req by (simp add: read_request_def)
  qed
qed

lemma read_request_some:
  assumes "read_request S s = (Some req, s')"
  shows "\<exists>h. stream s = h @ hr_body req @ stream s' \<and> ends_block h \<and> length h \<le> MAX_HEADER_SIZE \<and>
    length (hr_body req) \<le> MAX_BODY_SIZE \<and> parse_head h = Some (req\<lparr>hr_body := []\<rparr>) \<and>
    (case map_of (hr_headers req) ''content-length'' of None \<Rightarrow> hr_body req = []
     | Some v \<Rightarrow> map_option unat (stoul v) = Some (length (hr_body req)))"
proof -
  obtain h s1 where h: "read_until_double_crlf S [] s = (Some h, s1)"
    using assms by (auto simp: read_request_def split: prod.splits option.splits)
  then have st: "stream s = h @ stream s1" "ends_block h" "length h \<le> MAX_HEADER_SIZE"
    using read_until_some [OF h] by auto
  obtain r0 where r0: "parse_head h = Some r0"
    using assms h by (auto simp: read_request_def split: option.splits)
  then have b0: "hr_body r0 = []" by (auto simp: parse_head_def Let_def split: list.splits option.splits prod.splits)
  show ?thesis
  proof (cases "map_of (hr_headers r0) ''content-length''")
    case None
    with assms h r0 have "req = r0" "s' = s1" by (simp_all add: read_request_def)
    with None st r0 b0 show ?thesis by auto
  next
    case (Some v)
    with assms h r0 obtain n b where n: "stoul v = Some n" "unat n \<le> MAX_BODY_SIZE"
        "read_body S (unat n) [] s1 = (Some b, s')" "req = r0\<lparr>hr_body := b\<rparr>"
      by (auto simp: read_request_def split: option.splits prod.splits if_splits)
    have "length b = unat n \<and> stream s1 = b @ stream s'"
      using read_body_length [OF n(3)] n(2) by (simp add: MAX_BODY_SIZE_def INT_MAX_def)
    with n st r0 b0 Some show ?thesis by auto
  qed
qed

end

subsection \<open>Queries\<close>

lemma getlines_last: "d \<notin> set l \<Longrightarrow> l \<noteq> [] \<Longrightarrow> getlines d l = [l]"
proof (cases l)
  case (Cons c l')
  assume "d \<notin> set l"
  then have e: "takeWhile (\<lambda>x. x \<noteq> d) l = l" "dropWhile (\<lambda>x. x \<noteq> d) l = []" by auto
  have "getlines d l = takeWhile (\<lambda>x. x \<noteq> d) l # getlines d (tl (dropWhile (\<lambda>x. x \<noteq> d) l))"
    unfolding Cons by (rule getlines.simps)
  then show ?thesis by (simp only: e list.sel getlines.simps)
qed simp

definition pair_text :: "string \<times> string \<Rightarrow> string" where
  "pair_text kv = fst kv @ ''='' @ snd kv"

fun query_text :: "(string \<times> string) list \<Rightarrow> string" where
  "query_text [] = []"
| "query_text [kv] = pair_text kv"
| "query_text (kv # kvs) = pair_text kv @ ''&'' @ query_text kvs"

definition query_ok :: "string \<times> string \<Rightarrow> bool" where
  "query_ok kv \<longleftrightarrow> CHR ''='' \<notin> set (fst kv) \<and> CHR ''&'' \<notin> set (fst kv) \<and> CHR ''&'' \<notin> set (snd kv)"

lemma pair_text_ok: "query_ok kv \<Longrightarrow> CHR ''&'' \<notin> set (pair_text kv) \<and> pair_text kv \<noteq> []"
  by (auto simp: query_ok_def pair_text_def)

lemma getlines_query: "\<forall>kv \<in> set kvs. query_ok kv \<Longrightarrow> getlines (CHR ''&'') (query_text kvs) = map pair_text kvs"
proof (induction kvs rule: query_text.induct)
  case (2 kv)
  then show ?case using getlines_last [of "CHR ''&''" "pair_text kv"] pair_text_ok by simp
next
  case (3 kv kv' kvs)
  then show ?case using getlines_line [of "CHR ''&''" "pair_text kv"] pair_text_ok by simp
qed simp

lemma query_fold:
  "\<forall>kv \<in> set kvs. query_ok kv \<Longrightarrow>
   map_of (foldl (\<lambda>m pair. case split_at (CHR ''='') pair of
              None \<Rightarrow> AList.update pair [] m
            | Some (k, v) \<Rightarrow> AList.update k v m) acc (map pair_text kvs)) k =
     map_of (rev kvs @ acc) k"
proof (induction kvs arbitrary: acc)
  case (Cons kv kvs)
  then have "split_at (CHR ''='') (pair_text kv) = Some (fst kv, snd kv)"
    using split_at_first [of "CHR ''=''" "fst kv" "snd kv"] by (simp add: query_ok_def pair_text_def)
  with Cons show ?case by (cases kv) (auto simp: update_conv map_add_def split: option.splits)
qed simp

subsection \<open>Writing\<close>

lemma write_all_prefix:
  "\<exists>d. sk_out (write_all plain_ops data s) = sk_out s @ d \<and> prefix d data \<and>
     (0 \<notin> set (sk_accept s) \<longrightarrow> d = data)"
proof (induction "length data" arbitrary: data s rule: less_induct)
  case less
  show ?case
  proof (cases "data = []")
    case False
    show ?thesis
    proof (cases "sk_accept s")
      case Nil
      obtain n where n: "length data = Suc n" using False by (cases data) auto
      with Nil False show ?thesis
        by (simp add: write_all.simps [of plain_ops data s] plain_write_def write_all.simps [of plain_ops "[]"])
    next
      case (Cons k r)
      show ?thesis
      proof (cases k)
        case 0
        with Cons False show ?thesis
          by (simp add: write_all.simps [of plain_ops data s] plain_write_def)
      next
        case (Suc m)
        let ?s = "s\<lparr>sk_accept := r, sk_out := sk_out s @ take k data\<rparr>"
        have "length (drop k data) < length data" using Suc False by (cases data) auto
        then obtain d where d: "sk_out (write_all plain_ops (drop k data) ?s) = sk_out ?s @ d"
            "prefix d (drop k data)" "0 \<notin> set (sk_accept ?s) \<longrightarrow> d = drop k data"
          using less by blast
        obtain j where j: "min k (length data) = Suc j" using Suc False by (cases data) auto
        have "drop (Suc j) data = drop k data" using j by (cases "k \<le> length data") (auto simp: min_def)
        then have "write_all plain_ops data s = write_all plain_ops (drop k data) ?s"
          using False Cons Suc j by (simp add: write_all.simps [of plain_ops data s] plain_write_def)
        moreover have "prefix (take k data @ d) data"
          using d(2) by (metis append_take_drop_id same_prefix_prefix)
        ultimately show ?thesis using d(1,3) Cons by (intro exI [of _ "take k data @ d"]) auto
      qed
    qed
  qed (simp add: write_all.simps)
qed

subsection \<open>Properties\<close>

text \<open>C24: A request whose header block and body fit the limits is read completely, however its bytes are
  cut into pieces on the way: the method, the path, the query and the body arrive as sent, the header
  table maps every lower-case name to the value of its last line, and what follows the request is left
  on the connection.
\<close>

theorem request_received:
  assumes "token meth" "token target" "\<forall>kv \<in> set hs. header_ok kv"
    and "length (request_head meth target hs) \<le> MAX_HEADER_SIZE" "length body \<le> MAX_BODY_SIZE"
    and "map_of (rev (map lower_key hs)) ''content-length'' = Some (dec (length body)) \<or>
      body = [] \<and> map_of (rev (map lower_key hs)) ''content-length'' = None"
    and "plain_stream s = request_head meth target hs @ body @ rest"
  shows "\<exists>req s'. read_request plain_ops s = (Some req, s') \<and> plain_stream s' = rest \<and> hr_method req = meth \<and>
    hr_path req = path_part target \<and> hr_query req = query_part target \<and> hr_body req = body \<and>
    map_of (hr_headers req) = map_of (rev (map lower_key hs))"
  by (rule plain.read_request_received [OF assms])

definition demo_post :: sock where
  "demo_post = \<lparr>sk_in = [Piece ''POST /mat'', Piece (''chmake?a=1 HTTP/1.1'' @ [CR]), Piece ([LF] @ ''Content-Length: 2'' @ [CR]),
       Piece (LF # crlf @ ''h''), Piece ''i'', Silence],
     sk_out = [], sk_accept = [], sk_shut = False\<rparr>"

theorem request_received_witness:
  "\<exists>req s'. read_request plain_ops demo_post = (Some req, s') \<and> plain_stream s' = [] \<and> hr_method req = ''POST'' \<and>
    hr_path req = path_part ''/matchmake?a=1'' \<and> hr_query req = query_part ''/matchmake?a=1'' \<and> hr_body req = ''hi'' \<and>
    map_of (hr_headers req) = map_of (rev (map lower_key [(''Content-Length'', ''2'')]))"
proof (rule request_received)
  show "map_of (rev (map lower_key [(''Content-Length'', ''2'')])) ''content-length'' = Some (dec (length ''hi'')) \<or>
      ''hi'' = [] \<and> map_of (rev (map lower_key [(''Content-Length'', ''2'')])) ''content-length'' = None"
    by code_simp
qed (simp_all add: token_def is_space_def header_ok_def trimmed_def LF_def CR_def TAB_def request_head_def line_text_def
    header_line_def request_line_def crlf_def MAX_HEADER_SIZE_def MAX_BODY_SIZE_def plain_stream_def demo_post_def)

text \<open>C25: The reader takes exactly one request off the connection and keeps to its limits: when it returns a
  request, the bytes consumed are a header block that ends with the first empty line and is at most
  64 KiB long, followed by the body, which has the length that the content-length header announces and
  at most 8 MiB; without that header the body is empty.
\<close>

theorem request_bounds:
  assumes "read_request plain_ops s = (Some req, s')"
  shows "\<exists>h. plain_stream s = h @ hr_body req @ plain_stream s' \<and> ends_block h \<and> length h \<le> 65536 \<and>
    length (hr_body req) \<le> 8388608 \<and> parse_head h = Some (req\<lparr>hr_body := []\<rparr>) \<and>
    (case map_of (hr_headers req) ''content-length'' of None \<Rightarrow> hr_body req = []
     | Some v \<Rightarrow> map_option unat (stoul v) = Some (length (hr_body req)))"
  using plain.read_request_some [OF assms] by (simp add: MAX_HEADER_SIZE_def MAX_BODY_SIZE_def)

definition demo_get :: sock where
  "demo_get = \<lparr>sk_in = [Piece (''GET / H'' @ crlf @ crlf @ ''rest'')], sk_out = [], sk_accept = [], sk_shut = False\<rparr>"

definition demo_get_request :: http_request where
  "demo_get_request = \<lparr>hr_method = ''GET'', hr_path = ''/'', hr_query = [], hr_headers = [], hr_body = []\<rparr>"

theorem request_bounds_witness:
  "\<exists>h. plain_stream demo_get = h @ hr_body demo_get_request @ plain_stream (demo_get\<lparr>sk_in := [Piece ''rest'']\<rparr>) \<and>
    ends_block h \<and> length h \<le> 65536 \<and> length (hr_body demo_get_request) \<le> 8388608 \<and>
    parse_head h = Some (demo_get_request\<lparr>hr_body := []\<rparr>) \<and>
    (case map_of (hr_headers demo_get_request) ''content-length'' of None \<Rightarrow> hr_body demo_get_request = []
     | Some v \<Rightarrow> map_option unat (stoul v) = Some (length (hr_body demo_get_request)))"
  by (rule request_bounds)
    (simp add: read_request_def demo_get_def demo_get_request_def read_until_double_crlf.simps MAX_HEADER_SIZE_def
      ends_block_def crlf_def CR_def LF_def parse_head_def next_word_def is_space_def strip_cr_def split_at_def header_step_def)

text \<open>A query string made of \<open>key=value\<close> pairs is parsed into the table of its pairs, the last one of a
  key winning; values may contain the equals sign.
\<close>

theorem query_parsed:
  assumes "\<forall>kv \<in> set kvs. query_ok kv"
  shows "map_of (parse_query (query_text kvs)) = map_of (rev kvs)"
  using query_fold [OF assms, of "[]"] by (auto simp: parse_query_def getlines_query [OF assms])

theorem query_parsed_witness:
  "map_of (parse_query (query_text [(''a'', ''1''), (''b'', ''x=y''), (''a'', ''2'')])) =
     map_of (rev [(''a'', ''1''), (''b'', ''x=y''), (''a'', ''2'')])"
  by (rule query_parsed) (simp add: query_ok_def)

text \<open>Writing a response sends a prefix of its text, whatever the socket accepts at a time, and all of it
  when no write fails.
\<close>

theorem response_delivered:
  "\<exists>d. sk_out (write_response plain_ops s status status_text content_type body extra) = sk_out s @ d \<and>
     prefix d (response_text status status_text content_type body extra) \<and>
     (0 \<notin> set (sk_accept s) \<longrightarrow> d = response_text status status_text content_type body extra)"
  unfolding write_response_def by (rule write_all_prefix)

definition demo_slow :: sock where
  "demo_slow = \<lparr>sk_in = [], sk_out = [], sk_accept = [10, 1, 20], sk_shut = False\<rparr>"

theorem response_delivered_witness:
  "sk_out (write_response plain_ops demo_slow 404 ''Not Found'' ''text/plain'' ''No room found'' []) =
     response_text 404 ''Not Found'' ''text/plain'' ''No room found'' []"
  using response_delivered [of demo_slow 404 "''Not Found''" "''text/plain''" "''No room found''" "[]"]
  by (auto simp: demo_slow_def)

end
