(* ===== verification/Msgpack.thy ===== *)
theory Msgpack imports Json
begin

text \<open>
  The binary encoding of values (common/src/msgpack_codec.cpp).  The MessagePack library is not part of
  the repository: the code drives it through a sequence of \<open>packer\<close> calls and reads the tree of
  \<open>msgpack::object\<close>s that \<open>unpack\<close> returns.  Both are datatypes here; the bytes that the calls produce
  and the reading of bytes are the two fields of \<open>msgpack_lib\<close>, parameters of the definitions.
\<close>

datatype pack_call =
    PackNil
  | PackTrue
  | PackFalse
  | PackUint64 "64 word"
  | PackInt64 "64 word"
  | PackDouble "64 word"
  | PackStr "32 word"
  | PackStrBody string
  | PackArray "32 word"
  | PackMap "32 word"

datatype mp_object =
    MNil
  | MBoolean bool
  | MPositive "64 word"
  | MNegative "64 word"
  | MFloat32 "64 word"
  | MFloat64 "64 word"
  | MStr string
  | MBin string
  | MArray "mp_object list"
  | MMap "(mp_object \<times> mp_object) list"
  | MExt

text \<open>\<open>unpack\<close> throws a \<open>std::exception\<close> with some text when the bytes are not one encoded object.\<close>

record msgpack_lib =
  ml_bytes :: "pack_call list \<Rightarrow> string"
  ml_unpack :: "string \<Rightarrow> string + mp_object"

subsection \<open>The code\<close>

definition pack_str :: "string \<Rightarrow> pack_call list" where
  "pack_str s = [PackStr (of_nat (length s)), PackStrBody s]"

fun pack_json :: "json \<Rightarrow> pack_call list" where
  "pack_json JNull = [PackNil]"
| "pack_json (JBool b) = [if b then PackTrue else PackFalse]"
| "pack_json (JUnsigned u) = [PackUint64 u]"
| "pack_json (JInt i) = [PackInt64 i]"
| "pack_json (JFloat f) = [PackDouble f]"
| "pack_json (JString s) = pack_str s"
| "pack_json (JArray xs) = PackArray (of_nat (length xs)) # concat (map pack_json xs)"
| "pack_json (JObject m) =
     PackMap (of_nat (length m)) # concat (map (\<lambda>(k, v). pack_str k @ pack_json v) m)"
| "pack_json (JBinary b) = [PackNil]"

definition map_key :: "mp_object \<Rightarrow> string" where
  "map_key k = (case k of MStr s \<Rightarrow> s | _ \<Rightarrow> [])"

fun unpack_object :: "mp_object \<Rightarrow> json" where
  "unpack_object MNil = JNull"
| "unpack_object (MBoolean b) = JBool b"
| "unpack_object (MPositive u) = JUnsigned u"
| "unpack_object (MNegative i) = JInt i"
| "unpack_object (MFloat32 f) = JFloat f"
| "unpack_object (MFloat64 f) = JFloat f"
| "unpack_object (MStr s) = JString s"
| "unpack_object (MBin s) = JString s"
| "unpack_object (MArray xs) = JArray (map unpack_object xs)"
| "unpack_object (MMap m) =
     JObject (fold (\<lambda>(k, v). obj_set k v) (map (\<lambda>(k, v). (map_key k, unpack_object v)) m) [])"
| "unpack_object MExt = JNull"

definition encode_msgpack :: "msgpack_lib \<Rightarrow> json \<Rightarrow> string" where
  "encode_msgpack M v = ml_bytes M (pack_json v)"

definition decode_msgpack :: "msgpack_lib \<Rightarrow> string \<Rightarrow> json jres" where
  "decode_msgpack M bytes =
     (case ml_unpack M bytes of Inl m \<Rightarrow> Inl (RuntimeError m) | Inr ob \<Rightarrow> Inr (unpack_object ob))"

subsection \<open>What a sequence of calls describes\<close>

text \<open>
  The format's documentation: a string is its announced length and as many bytes, an array its
  announced size and as many objects, a map as many pairs; an integer is read back by its sign.
  \<open>read_call n cs\<close> reads one object off the calls, to the depth \<open>n\<close>.
\<close>

fun pair_up :: "'a list \<Rightarrow> ('a \<times> 'a) list" where
  "pair_up (x # y # r) = (x, y) # pair_up r"
| "pair_up r = []"

fun read_call :: "nat \<Rightarrow> pack_call list \<Rightarrow> (mp_object \<times> pack_call list) option"
and read_calls :: "nat \<Rightarrow> nat \<Rightarrow> pack_call list \<Rightarrow> (mp_object list \<times> pack_call list) option" where
  "read_call 0 cs = None"
| "read_call (Suc n) cs =
     (case cs of
        PackNil # r \<Rightarrow> Some (MNil, r)
      | PackTrue # r \<Rightarrow> Some (MBoolean True, r)
      | PackFalse # r \<Rightarrow> Some (MBoolean False, r)
      | PackUint64 u # r \<Rightarrow> Some (MPositive u, r)
      | PackInt64 i # r \<Rightarrow> Some (if 0 \<le> sint i then MPositive i else MNegative i, r)
      | PackDouble f # r \<Rightarrow> Some (MFloat64 f, r)
      | PackStr l # PackStrBody s # r \<Rightarrow> if unat l = length s then Some (MStr s, r) else None
      | PackArray l # r \<Rightarrow> map_option (\<lambda>(xs, r'). (MArray xs, r')) (read_calls n (unat l) r)
      | PackMap l # r \<Rightarrow>
          (case read_calls n (2 * unat l) r of
             None \<Rightarrow> None
           | Some (xs, r') \<Rightarrow> Some (MMap (pair_up xs), r'))
      | _ \<Rightarrow> None)"
| "read_calls n 0 cs = Some ([], cs)"
| "read_calls 0 (Suc k) cs = None"
| "read_calls (Suc n) (Suc k) cs =
     (case read_call n cs of
        None \<Rightarrow> None
      | Some (x, r) \<Rightarrow> map_option (\<lambda>(xs, r'). (x # xs, r')) (read_calls n k r))"

definition described :: "pack_call list \<Rightarrow> mp_object option" where
  "described cs = (case read_call (2 * length cs) cs of Some (ob, []) \<Rightarrow> Some ob | _ \<Rightarrow> None)"

text \<open>The library's promise for one sequence of calls: \<open>unpack\<close> returns the object they describe.\<close>

definition reads_back :: "msgpack_lib \<Rightarrow> pack_call list \<Rightarrow> bool" where
  "reads_back M cs \<longleftrightarrow>
     (case described cs of Some ob \<Rightarrow> ml_unpack M (ml_bytes M cs) = Inr ob | None \<Rightarrow> True)"

text \<open>
  Values whose sizes survive the casts to 32 bits, whose objects are maps, and which hold no
  \<open>binary\<close>, for which the code has no case.
\<close>

fun packable :: "json \<Rightarrow> bool" where
  "packable (JString s) = (length s < 2 ^ 32)"
| "packable (JArray xs) = (length xs < 2 ^ 32 \<and> list_all packable xs)"
| "packable (JObject m) =
     (length m < 2 ^ 32 \<and> sorted_obj m \<and> list_all (\<lambda>(k, v). length k < 2 ^ 32 \<and> packable v) m)"
| "packable (JBinary b) = False"
| "packable j = True"

end
