(* ===== verification/Msgpack_Facts.thy ===== *)
theory Msgpack_Facts imports Msgpack
begin

text \<open>The encoded calls describe the value that was packed, and unpacking them gives it back.\<close>

fun object_of :: "json \<Rightarrow> mp_object" where
  "object_of JNull = MNil"
| "object_of (JBool b) = MBoolean b"
| "object_of (JUnsigned u) = MPositive u"
| "object_of (JInt i) = (if 0 \<le> sint i then MPositive i else MNegative i)"
| "object_of (JFloat f) = MFloat64 f"
| "object_of (JString s) = MStr s"
| "object_of (JArray xs) = MArray (map object_of xs)"
| "object_of (JObject m) = MMap (map (\<lambda>(k, v). (MStr k, object_of v)) m)"
| "object_of (JBinary b) = MNil"

lemma size32 [simp]: "n < 4294967296 \<Longrightarrow> unat (of_nat n :: 32 word) = n"
  by (simp add: unat_of_nat take_bit_nat_eq_self)

lemma length_pack_str [simp]: "length (pack_str s) = 2"
  by (simp add: pack_str_def)

lemma read_str: "length s < 2 ^ 32 \<Longrightarrow> read_call (Suc n) (pack_str s @ r) = Some (MStr s, r)"
  by (simp add: pack_str_def)

lemma pack_nonempty: "0 < length (pack_json v)"
  by (cases v) (auto simp: pack_str_def)

definition reads :: "json \<Rightarrow> bool" where
  "reads v \<longleftrightarrow> (\<forall>n r. 2 * length (pack_json v) \<le> n \<longrightarrow> read_call n (pack_json v @ r) = Some (object_of v, r))"

lemma read_call_packed: "reads v \<Longrightarrow> 2 * length (pack_json v) \<le> n \<Longrightarrow>
    read_call n (pack_json v @ r) = Some (object_of v, r)"
  by (simp add: reads_def)

lemma reads_leaf: "(\<And>n r. read_call (Suc n) (pack_json v @ r) = Some (object_of v, r)) \<Longrightarrow> reads v"
  unfolding reads_def by (metis pack_nonempty gr0_conv_Suc mult_is_0 not_gr_zero le_zero_eq zero_neq_numeral)

lemma read_array:
  "\<forall>x \<in> set xs. reads x \<Longrightarrow> 2 * length (concat (map pack_json xs)) < n \<Longrightarrow>
   read_calls n (length xs) (concat (map pack_json xs) @ r) = Some (map object_of xs, r)"
proof (induction xs arbitrary: n)
  case (Cons x xs)
  then obtain n' where n: "n = Suc n'" by (cases n) auto
  have "read_call n' (pack_json x @ concat (map pack_json xs) @ r) = Some (object_of x, concat (map pack_json xs) @ r)"
    using Cons.prems n by (intro read_call_packed) auto
  moreover have "read_calls n' (length xs) (concat (map pack_json xs) @ r) = Some (map object_of xs, r)"
  proof (rule Cons.IH)
    obtain j where "length (pack_json x) = Suc j" using pack_nonempty [of x] by (auto simp: gr0_conv_Suc)
    then show "2 * length (concat (map pack_json xs)) < n'" using Cons.prems(2) n by simp
  qed (use Cons.prems(1) in auto)
  ultimately show ?case by (simp add: n)
qed simp

lemma read_map:
  "\<forall>(k, v) \<in> set m. length k < 2 ^ 32 \<and> reads v \<Longrightarrow>
   2 * length (concat (map (\<lambda>(k, v). pack_str k @ pack_json v) m)) < n \<Longrightarrow>
   read_calls n (2 * length m) (concat (map (\<lambda>(k, v). pack_str k @ pack_json v) m) @ r) =
     Some (concat (map (\<lambda>(k, v). [MStr k, object_of v]) m), r)"
proof (induction m arbitrary: n)
  case (Cons kv m)
  obtain k v where kv: "kv = (k, v)" by (cases kv)
  let ?rest = "concat (map (\<lambda>(k, v). pack_str k @ pack_json v) m) @ r"
  obtain n' where n: "n = Suc (Suc (Suc n'))" "2 * length (pack_json v) \<le> Suc n'"
      "2 * length (concat (map (\<lambda>(k, v). pack_str k @ pack_json v) m)) < Suc n'"
  proof (rule that [of "n - 3"])
  qed (use Cons.prems(2) kv pack_nonempty [of v] in auto)
  have k: "read_call (Suc (Suc n')) (pack_str k @ pack_json v @ ?rest) = Some (MStr k, pack_json v @ ?rest)"
    using Cons.prems(1) kv by (intro read_str) auto
  have v: "read_call (Suc n') (pack_json v @ ?rest) = Some (object_of v, ?rest)"
    using Cons.prems(1) kv n(2) by (intro read_call_packed) auto
  have m: "read_calls (Suc n') (2 * length m) ?rest = Some (concat (map (\<lambda>(k, v). [MStr k, object_of v]) m), r)"
    using Cons.prems(1) n(3) by (intro Cons.IH) auto
  have l: "2 * length (kv # m) = Suc (Suc (2 * length m))" by simp
  show ?case
    unfolding n(1) l using k v m by (simp add: kv del: read_call.simps)
qed simp

lemma pair_up_concat: "pair_up (concat (map (\<lambda>(k, v). [f k, g v]) m)) = map (\<lambda>(k, v). (f k, g v)) m"
  by (induction m) auto

lemma packable_reads: "packable v \<Longrightarrow> reads v"
proof (induction v rule: packable.induct)
  case (1 s)
  have "read_call n (pack_str s @ r) = Some (MStr s, r)" if "4 \<le> n" for n r
    using that read_str [of s "n - 1" r] 1 by simp
  then show ?case by (simp add: reads_def)
next
  case (2 xs)
  have all: "\<forall>x \<in> set xs. reads x" using 2 by (auto simp: list_all_iff)
  show ?case
    unfolding reads_def
  proof (intro allI impI)
    fix n r assume n: "2 * length (pack_json (JArray xs)) \<le> n"
    then obtain n' where "n = Suc n'" "2 * length (concat (map pack_json xs)) < n'" by (cases n) auto
    with read_array [OF all, of n' r] 2(2)
    show "read_call n (pack_json (JArray xs) @ r) = Some (object_of (JArray xs), r)" by simp
  qed
next
  case (3 m)
  have all: "\<forall>(k, v) \<in> set m. length k < 2 ^ 32 \<and> reads v" using 3 by (auto simp: list_all_iff)
  show ?case
    unfolding reads_def
  proof (intro allI impI)
    fix n r assume n: "2 * length (pack_json (JObject m)) \<le> n"
    then obtain n' where "n = Suc n'" "2 * length (concat (map (\<lambda>(k, v). pack_str k @ pack_json v) m)) < n'"
      by (cases n) auto
    with read_map [OF all, of n' r] 3(2)
    show "read_call n (pack_json (JObject m) @ r) = Some (object_of (JObject m), r)"
      by (simp add: pair_up_concat)
  qed
qed (auto intro: reads_leaf)

lemma described_packed: "packable v \<Longrightarrow> described (pack_json v) = Some (object_of v)"
  using read_call_packed [OF packable_reads, of v "2 * length (pack_json v)" "[]"] by (simp add: described_def)

subsection \<open>Unpacking\<close>

lemma obj_set_last: "sorted_obj (a @ [(k, v)]) \<Longrightarrow> obj_set k v a = a @ [(k, v)]"
proof (induction a)
  case (Cons kv a)
  then have "fst kv < k" "sorted_obj (a @ [(k, v)])" by (auto simp: sorted_obj_def)
  then have "k \<noteq> fst kv" "\<not> k < fst kv" by auto
  with Cons \<open>sorted_obj (a @ [(k, v)])\<close> show ?case by (cases kv) simp
qed simp

lemma fold_obj_set: "sorted_obj m \<Longrightarrow> fold (\<lambda>(k, v). obj_set k v) m [] = m"
proof (induction m rule: rev_induct)
  case (snoc kv m)
  have "sorted_obj m" using snoc.prems by (simp add: sorted_obj_def sorted_wrt_append)
  with snoc show ?case by (cases kv) (simp add: obj_set_last)
qed simp

lemma unpack_object_of: "packable v \<Longrightarrow> unpack_object (object_of v) = norm v"
proof (induction v rule: packable.induct)
  case (3 m)
  have e: "map ((\<lambda>(k, v). (map_key k, unpack_object v)) \<circ> (\<lambda>(k, v). (MStr k, object_of v))) m = map (\<lambda>(k, v). (k, norm v)) m"
    using 3 by (intro map_cong refl) (auto simp: map_key_def list_all_iff)
  have "sorted_obj (map (\<lambda>(k, v). (k, norm v)) m)"
    using 3(2) by (simp add: sorted_obj_def comp_def case_prod_unfold)
  then show ?case by (simp add: e fold_obj_set)
qed (auto simp: list_all_iff)

lemma decode_encode:
  assumes "packable v" "reads_back M (pack_json v)"
  shows "decode_msgpack M (encode_msgpack M v) = Inr (norm v)"
  using assms by (simp add: decode_msgpack_def encode_msgpack_def reads_back_def described_packed unpack_object_of)

end
