(* ===== verification/Sio.thy ===== *)
theory Sio imports Msgpack
begin

text \<open>
  The frames of the socket.io protocol (common/src/sio_protocol.cpp and its header): the builders, and
  the parser with the exceptions that it catches and the ones that it lets through.
\<close>

definition CONNECT :: "32 word" where "CONNECT = 0"
definition DISCONNECT :: "32 word" where "DISCONNECT = 1"
definition EVENT :: "32 word" where "EVENT = 2"
definition SIO_ERROR :: "32 word" where "SIO_ERROR = 4"
definition BINARY_EVENT :: "32 word" where "BINARY_EVENT = 5"

lemmas sio_type_defs = CONNECT_def DISCONNECT_def EVENT_def SIO_ERROR_def BINARY_EVENT_def

definition PING_PACKET :: string where "PING_PACKET = ''2''"
definition PONG_PACKET :: string where "PONG_PACKET = ''3''"
definition CLOSE_PACKET :: string where "CLOSE_PACKET = ''1''"

text \<open>The enumerators of \<open>SioType\<close> have an unsigned underlying type.\<close>

definition sio_type :: "32 word \<Rightarrow> json" where
  "sio_type t = JUnsigned (ucast t)"

subsection \<open>Building frames\<close>

definition open_payload :: "string \<Rightarrow> 32 word \<Rightarrow> 32 word \<Rightarrow> json" where
  "open_payload sid ping_interval_ms ping_timeout_ms =
     jobj [(''sid'', JString sid), (''upgrades'', empty_array),
           (''pingInterval'', JInt (scast ping_interval_ms)), (''pingTimeout'', JInt (scast ping_timeout_ms))]"

definition build_open_frame :: "json_lib \<Rightarrow> string \<Rightarrow> 32 word \<Rightarrow> 32 word \<Rightarrow> string jres" where
  "build_open_frame J sid ping_interval_ms ping_timeout_ms =
     rbind (dump J (open_payload sid ping_interval_ms ping_timeout_ms)) (\<lambda>s. Inr (CHR ''0'' # s))"

definition control_payload :: "32 word \<Rightarrow> json" where
  "control_payload t = jobj [(''type'', sio_type t), (''nsp'', JString ''/'')]"

definition build_connect_ack_frame :: "json_lib \<Rightarrow> string jres" where
  "build_connect_ack_frame J = rbind (dump J (control_payload CONNECT)) (\<lambda>s. Inr (CHR ''4'' # s))"

definition build_disconnect_frame :: "json_lib \<Rightarrow> string jres" where
  "build_disconnect_frame J = rbind (dump J (control_payload DISCONNECT)) (\<lambda>s. Inr (CHR ''4'' # s))"

definition event_packet :: "string \<Rightarrow> json \<Rightarrow> json" where
  "event_packet event_name data =
     jobj [(''type'', sio_type EVENT), (''nsp'', JString ''/''),
           (''data'', JArray (JString event_name # (if is_null data then [] else [data])))]"

definition build_event_frame :: "msgpack_lib \<Rightarrow> string \<Rightarrow> json \<Rightarrow> string" where
  "build_event_frame M event_name data = CHR 0x04 # encode_msgpack M (event_packet event_name data)"

subsection \<open>Parsing frames\<close>

datatype frame_kind =
  FOpen | FConnect | FDisconnect | FEvent | FPing | FPong | FClose | FError | FOther

record parsed_frame =
  pf_kind :: frame_kind
  pf_sid :: string
  pf_ping_interval_ms :: "32 word"
  pf_ping_timeout_ms :: "32 word"
  pf_event :: string
  pf_data :: json

definition frame_default :: parsed_frame where
  "frame_default = \<lparr>pf_kind = FOther, pf_sid = [], pf_ping_interval_ms = 25000, pf_ping_timeout_ms = 5000,
     pf_event = [], pf_data = JNull\<rparr>"

definition frame_of :: "frame_kind \<Rightarrow> parsed_frame" where
  "frame_of k = frame_default\<lparr>pf_kind := k\<rparr>"

text \<open>The assignments of the \<open>case '0'\<close> block up to the one that throws stay in effect.\<close>

definition parse_open :: "json_lib \<Rightarrow> string \<Rightarrow> parsed_frame" where
  "parse_open J rest =
     (case parse J rest of
        Inl e \<Rightarrow> frame_default
      | Inr op \<Rightarrow>
          let f0 = frame_of FOpen in
          (case jvalue get_string ''sid'' [] op of
             Inl e \<Rightarrow> f0
           | Inr sid \<Rightarrow>
               let f1 = f0\<lparr>pf_sid := sid\<rparr> in
               (case jvalue (get_int J) ''pingInterval'' 25000 op of
                  Inl e \<Rightarrow> f1
                | Inr i \<Rightarrow>
                    let f2 = f1\<lparr>pf_ping_interval_ms := i\<rparr> in
                    (case jvalue (get_int J) ''pingTimeout'' 5000 op of
                       Inl e \<Rightarrow> f2
                     | Inr t \<Rightarrow> f2\<lparr>pf_ping_timeout_ms := t\<rparr>))))"

definition parse_control :: "json_lib \<Rightarrow> string \<Rightarrow> parsed_frame" where
  "parse_control J rest =
     (case rbind (parse J rest) (jvalue (get_int J) ''type'' (- 1)) of
        Inl e \<Rightarrow> frame_default
      | Inr type \<Rightarrow>
          if type = CONNECT then frame_of FConnect
          else if type = DISCONNECT then frame_of FDisconnect
          else if type = SIO_ERROR then frame_of FError
          else frame_default)"

text \<open>The type of a binary packet is read outside the \<open>try\<close> block: its conversion error escapes.\<close>

definition parse_binary :: "json_lib \<Rightarrow> msgpack_lib \<Rightarrow> string \<Rightarrow> parsed_frame jres" where
  "parse_binary J M payload =
     (if payload = [] \<or> hd payload \<noteq> CHR 0x04 then Inr frame_default
      else (case decode_msgpack M (tl payload) of
          Inl e \<Rightarrow> Inr frame_default
        | Inr packet \<Rightarrow>
            if \<not> is_object packet then Inr frame_default
            else rbind (jvalue (get_int J) ''type'' (- 1) packet) (\<lambda>type.
              if type = EVENT \<or> type = BINARY_EVENT then
                rbind (jvalue get_json ''data'' empty_array packet) (\<lambda>args.
                  Inr (case args of
                      JArray (JString ev # others) \<Rightarrow>
                        (frame_of FEvent)\<lparr>pf_event := ev, pf_data := (case others of [] \<Rightarrow> JNull | v # _ \<Rightarrow> v)\<rparr>
                    | _ \<Rightarrow> frame_default))
              else Inr frame_default)))"

definition parse_text :: "json_lib \<Rightarrow> string \<Rightarrow> parsed_frame" where
  "parse_text J payload =
     (case payload of
        [] \<Rightarrow> frame_default
      | c # rest \<Rightarrow>
          if c = CHR ''0'' then parse_open J rest
          else if c = CHR ''1'' then frame_of FClose
          else if c = CHR ''2'' then frame_of FPing
          else if c = CHR ''3'' then frame_of FPong
          else if c = CHR ''4'' then parse_control J rest
          else frame_default)"

definition parse_frame :: "json_lib \<Rightarrow> msgpack_lib \<Rightarrow> bool \<Rightarrow> string \<Rightarrow> parsed_frame jres" where
  "parse_frame J M is_binary payload =
     (if is_binary then parse_binary J M payload else Inr (parse_text J payload))"

end
