(* ===== verification/Sio_Props.thy ===== *)
theory Sio_Props imports Sio Msgpack_Facts
begin

text \<open>Properties of the binary encoding and of the frames: what one side builds the other side parses.\<close>

lemma norm_JNull_iff [simp]: "norm v = JNull \<longleftrightarrow> v = JNull"
  by (cases v) auto

lemma is_null_iff: "is_null v \<longleftrightarrow> v = JNull"
  by (cases v) auto

lemma event_packet_object:
  "event_packet ev d = JObject [(''data'', JArray (JString ev # (if is_null d then [] else [d]))),
     (''nsp'', JString ''/''), (''type'', sio_type EVENT)]"
  by (simp add: event_packet_def jobj_def less_list_code less_char_def)

lemma packable_event:
  "packable d \<Longrightarrow> length ev < 2 ^ 32 \<Longrightarrow> packable (event_packet ev d)"
  by (simp add: event_packet_object sorted_obj_def sio_type_def less_list_code less_char_def)

lemma open_payload_object:
  "open_payload sid i t = JObject [(''pingInterval'', JInt (scast i)), (''pingTimeout'', JInt (scast t)),
     (''sid'', JString sid), (''upgrades'', empty_array)]"
  by (simp add: open_payload_def jobj_def less_list_code less_char_def)

lemma control_payload_object: "control_payload t = JObject [(''nsp'', JString ''/''), (''type'', sio_type t)]"
  by (simp add: control_payload_def jobj_def less_list_code less_char_def)

lemma ucast_up_down [simp]: "ucast (ucast (x :: 32 word) :: 64 word) = x"
  by (rule bit_word_eqI) (auto simp: bit_simps)

lemma ucast_scast_down [simp]: "ucast (scast (x :: 32 word) :: 64 word) = x"
  by (rule bit_word_eqI) (auto simp: bit_simps)

lemma get_int_norm: "get_int J (norm (JInt (scast (i :: 32 word)))) = Inr i"
  by simp

text \<open>C27: Encoding a value as MessagePack and decoding it gives the value back, apart from the sign of the
  type of its non-negative integers, for values whose sizes fit 32 bits and that hold no binary data.
\<close>

theorem msgpack_roundtrip:
  assumes "packable v" "reads_back M (pack_json v)"
  shows "decode_msgpack M (encode_msgpack M v) = Inr (norm v)"
  using assms by (rule decode_encode)

definition demo_value :: json where
  "demo_value = JObject [(''a'', JArray [JInt 5, JInt (- 5), JBool True]), (''b'', JString ''x'')]"

definition demo_msgpack :: "json \<Rightarrow> msgpack_lib" where
  "demo_msgpack v = \<lparr>ml_bytes = (\<lambda>cs. if cs = pack_json v then ''packed'' else []),
     ml_unpack = (\<lambda>s. if s = ''packed'' then Inr (object_of v) else Inl ''insufficient bytes'')\<rparr>"

lemma demo_reads_back: "packable v \<Longrightarrow> reads_back (demo_msgpack v) (pack_json v)"
  by (simp add: reads_back_def described_packed demo_msgpack_def)

theorem msgpack_roundtrip_witness:
  "decode_msgpack (demo_msgpack demo_value) (encode_msgpack (demo_msgpack demo_value) demo_value) =
     Inr (JObject [(''a'', JArray [JUnsigned 5, JInt (- 5), JBool True]), (''b'', JString ''x'')])"
proof -
  have p: "packable demo_value"
    by (simp add: demo_value_def sorted_obj_def less_list_code less_char_def)
  have "norm demo_value = JObject [(''a'', JArray [JUnsigned 5, JInt (- 5), JBool True]), (''b'', JString ''x'')]"
    by (simp add: demo_value_def)
  with msgpack_roundtrip [OF p demo_reads_back [OF p]] show ?thesis by simp
qed

definition frames_json :: json_lib where
  "frames_json = \<lparr>jl_parse = (\<lambda>s. if s = ''open'' then Some (norm (open_payload ''s'' 25000 5000))
       else if s = ''ack'' then Some (control_payload CONNECT)
       else if s = ''bye'' then Some (control_payload DISCONNECT) else None),
     jl_dump = (\<lambda>v. if v = open_payload ''s'' 25000 5000 then Some ''open''
       else if v = control_payload CONNECT then Some ''ack'' else Some ''bye''),
     jl_what = (\<lambda>e. []), jl_float_int = (\<lambda>f. f)\<rparr>"

lemma event_frame_parsed:
  assumes "decode_msgpack M (encode_msgpack M (event_packet ev d)) = Inr (norm (event_packet ev d))"
  shows "parse_frame J M True (build_event_frame M ev d) =
    Inr ((frame_of FEvent)\<lparr>pf_event := ev, pf_data := norm d\<rparr>)"
  using assms
  by (simp add: parse_frame_def parse_binary_def build_event_frame_def event_packet_object sio_type_def
      sio_type_defs json_access is_null_iff)

text \<open>C26: A frame built for an event is parsed, on the other side, as that event with the data that was given
  (a null is not sent and is read back as null).
\<close>

theorem event_frame_roundtrip:
  assumes "packable d" "length ev < 2 ^ 32" "reads_back M (pack_json (event_packet ev d))"
  shows "parse_frame J M True (build_event_frame M ev d) =
    Inr ((frame_of FEvent)\<lparr>pf_event := ev, pf_data := norm d\<rparr>)"
proof -
  have "decode_msgpack M (encode_msgpack M (event_packet ev d)) = Inr (norm (event_packet ev d))"
    using packable_event [OF assms(1,2)] assms(3) by (rule decode_encode)
  then show ?thesis by (rule event_frame_parsed)
qed

theorem event_frame_roundtrip_witness:
  "parse_frame frames_json (demo_msgpack (event_packet ''hello'' demo_value)) True
      (build_event_frame (demo_msgpack (event_packet ''hello'' demo_value)) ''hello'' demo_value) =
    Inr ((frame_of FEvent)\<lparr>pf_event := ''hello'', pf_data := norm demo_value\<rparr>)"
proof -
  have p: "packable demo_value"
    by (simp add: demo_value_def sorted_obj_def less_list_code less_char_def)
  show ?thesis
    by (rule event_frame_roundtrip [OF p _ demo_reads_back [OF packable_event [OF p]]]) simp_all
qed

lemma open_frame_parsed:
  assumes "text_safe J (open_payload sid i t)"
  shows "\<exists>f. build_open_frame J sid i t = Inr f \<and> parse_frame J M False f =
      Inr ((frame_of FOpen)\<lparr>pf_sid := sid, pf_ping_interval_ms := i, pf_ping_timeout_ms := t\<rparr>)"
  using text_safe_dump [OF assms] get_int_norm [of J i] get_int_norm [of J t]
  by (auto simp: build_open_frame_def parse_frame_def parse_text_def parse_open_def open_payload_object
      json_access Let_def simp del: norm.simps(1) get_int.simps)

lemma control_parsed:
  assumes "text_safe J (control_payload ty)"
  shows "\<exists>s. dump J (control_payload ty) = Inr s \<and> parse_control J s =
    (if ty = CONNECT then frame_of FConnect else if ty = DISCONNECT then frame_of FDisconnect
     else if ty = SIO_ERROR then frame_of FError else frame_default)"
  using text_safe_dump [OF assms]
  by (auto simp: parse_control_def control_payload_object sio_type_def json_access)

lemma ack_frame_parsed:
  assumes "text_safe J (control_payload CONNECT)"
  shows "\<exists>f. build_connect_ack_frame J = Inr f \<and> parse_frame J M False f = Inr (frame_of FConnect)"
  using control_parsed [OF assms] by (auto simp: build_connect_ack_frame_def parse_frame_def parse_text_def)

lemma disconnect_frame_parsed:
  assumes "text_safe J (control_payload DISCONNECT)"
  shows "\<exists>f. build_disconnect_frame J = Inr f \<and> parse_frame J M False f = Inr (frame_of FDisconnect)"
  using control_parsed [OF assms]
  by (auto simp: build_disconnect_frame_def parse_frame_def parse_text_def sio_type_defs)

text \<open>The text frames are parsed as what they are: the opening frame gives the session identifier and the
  two intervals, the acknowledgement and the disconnection of the namespace, the ping, the pong and the
  closing packet their kinds.
\<close>

theorem control_frames_roundtrip:
  assumes "text_safe J (open_payload sid i t)" "text_safe J (control_payload CONNECT)"
    and "text_safe J (control_payload DISCONNECT)"
  shows "(\<exists>f. build_open_frame J sid i t = Inr f \<and> parse_frame J M False f =
      Inr ((frame_of FOpen)\<lparr>pf_sid := sid, pf_ping_interval_ms := i, pf_ping_timeout_ms := t\<rparr>)) \<and>
    (\<exists>f. build_connect_ack_frame J = Inr f \<and> parse_frame J M False f = Inr (frame_of FConnect)) \<and>
    (\<exists>f. build_disconnect_frame J = Inr f \<and> parse_frame J M False f = Inr (frame_of FDisconnect)) \<and>
    parse_frame J M False PING_PACKET = Inr (frame_of FPing) \<and>
    parse_frame J M False PONG_PACKET = Inr (frame_of FPong) \<and>
    parse_frame J M False CLOSE_PACKET = Inr (frame_of FClose)"
  using open_frame_parsed [OF assms(1)] ack_frame_parsed [OF assms(2)] disconnect_frame_parsed [OF assms(3)]
  by (simp add: parse_frame_def parse_text_def PING_PACKET_def PONG_PACKET_def CLOSE_PACKET_def)

theorem control_frames_roundtrip_witness:
  "(\<exists>f. build_open_frame frames_json ''s'' 25000 5000 = Inr f \<and> parse_frame frames_json (demo_msgpack demo_value) False f =
      Inr ((frame_of FOpen)\<lparr>pf_sid := ''s'', pf_ping_interval_ms := 25000, pf_ping_timeout_ms := 5000\<rparr>)) \<and>
    (\<exists>f. build_connect_ack_frame frames_json = Inr f \<and> parse_frame frames_json (demo_msgpack demo_value) False f = Inr (frame_of FConnect)) \<and>
    (\<exists>f. build_disconnect_frame frames_json = Inr f \<and> parse_frame frames_json (demo_msgpack demo_value) False f = Inr (frame_of FDisconnect)) \<and>
    parse_frame frames_json (demo_msgpack demo_value) False PING_PACKET = Inr (frame_of FPing) \<and>
    parse_frame frames_json (demo_msgpack demo_value) False PONG_PACKET = Inr (frame_of FPong) \<and>
    parse_frame frames_json (demo_msgpack demo_value) False CLOSE_PACKET = Inr (frame_of FClose)"
  by (rule control_frames_roundtrip)
    (simp_all add: text_safe_def frames_json_def open_payload_object control_payload_object sio_type_def sio_type_defs)

text \<open>A binary frame whose packet has a string for its type makes the parser throw, although it
  catches the errors of every other malformed frame: text frames never throw, and neither do binary
  frames that cannot be decoded.
\<close>

theorem bad_packet_type_throws:
  assumes "ml_unpack M bytes = Inr (MMap m)" "jlookup ''type'' (unpack_object (MMap m)) = Some v" "is_string v"
    and "ml_unpack M other = Inl err"
  shows "parse_frame J M True (CHR 0x04 # bytes) = Inl (JsonError (TypeMismatch v)) \<and>
    parse_frame J M True (CHR 0x04 # other) = Inr frame_default \<and> (\<exists>f. parse_frame J M False text = Inr f)"
proof -
  obtain s where "v = JString s" using assms(3) by (cases v) auto
  with assms show ?thesis
    by (simp add: parse_frame_def parse_binary_def decode_msgpack_def jvalue_def)
qed

definition bad_packet :: mp_object where
  "bad_packet = MMap [(MStr ''type'', MStr ''event'')]"

definition bad_packet_msgpack :: msgpack_lib where
  "bad_packet_msgpack = \<lparr>ml_bytes = (\<lambda>cs. []),
     ml_unpack = (\<lambda>s. if s = ''bad'' then Inr bad_packet else Inl ''insufficient bytes'')\<rparr>"

theorem bad_packet_type_throws_witness:
  "parse_frame frames_json bad_packet_msgpack True (CHR 0x04 # ''bad'') = Inl (JsonError (TypeMismatch (JString ''event''))) \<and>
    parse_frame frames_json bad_packet_msgpack True (CHR 0x04 # ''x'') = Inr frame_default \<and>
    (\<exists>f. parse_frame frames_json bad_packet_msgpack False ''0[]'' = Inr f)"
  by (rule bad_packet_type_throws [where m = "[(MStr ''type'', MStr ''event'')]"])
    (simp_all add: bad_packet_msgpack_def bad_packet_def jlookup_def map_key_def)

end
