(* ===== verification/Ws_Connection.thy ===== *)
theory Ws_Connection imports Socket
begin

text \<open>
  \<open>WsConnection\<close> (common/src/ws_connection.cpp): the object that drives the wslay library over a socket.
  The library's event context is a parameter: a type of contexts \<open>'c\<close> and a record of the functions the
  code calls, which get the connection (their \<open>user_data\<close>) and the code's callbacks.  The handlers
  (\<open>on_message_\<close>, \<open>on_close_\<close>, \<open>on_idle\<close>) are arbitrary functions on the connection, since they may send on
  it and close it; their own state is the field \<open>cn_app\<close>.
\<close>

datatype wslay_error = WOULDBLOCK | CALLBACK_FAILURE

record ('c, 's, 'a) ws_conn =
  cn_socket :: 's
  cn_ctx :: 'c
  cn_pending_recv :: string
  cn_pending_messages :: "(nat \<times> string) list"
  cn_closed :: bool
  cn_drawn :: nat
  cn_app :: 'a

text \<open>The functions of wslay that the code calls, with the callbacks they are given.\<close>

record ('c, 'k) wslay =
  wl_init :: "bool \<Rightarrow> 'c"
  wl_recv :: "('k \<Rightarrow> nat \<Rightarrow> (wslay_error + string) \<times> 'k) \<Rightarrow> ('k \<Rightarrow> nat \<Rightarrow> string \<Rightarrow> 'k) \<Rightarrow> 'c \<Rightarrow> 'k \<Rightarrow> int \<times> 'c \<times> 'k"
  wl_send :: "('k \<Rightarrow> string \<Rightarrow> (wslay_error + nat) \<times> 'k) \<Rightarrow> ('k \<Rightarrow> nat \<Rightarrow> string \<times> 'k) \<Rightarrow> 'c \<Rightarrow> 'k \<Rightarrow> 'c \<times> 'k"
  wl_queue_msg :: "nat \<Rightarrow> string \<Rightarrow> 'c \<Rightarrow> int \<times> 'c"
  wl_queue_close :: "nat \<Rightarrow> 'c \<Rightarrow> 'c"
  wl_read_enabled :: "'c \<Rightarrow> bool"

type_synonym ('c, 's, 'a) wslay_on = "('c, ('c, 's, 'a) ws_conn) wslay"

definition WSLAY_TEXT_FRAME :: nat where "WSLAY_TEXT_FRAME = 1"
definition WSLAY_BINARY_FRAME :: nat where "WSLAY_BINARY_FRAME = 2"

text \<open>The draws of \<open>std::random_device\<close>, the handlers, and what other threads do between two turns.\<close>

record ('c, 's, 'a) ws_env =
  we_rd :: "nat \<Rightarrow> nat"
  we_on_message :: "(bool \<Rightarrow> string \<Rightarrow> ('c, 's, 'a) ws_conn \<Rightarrow> ('c, 's, 'a) ws_conn) option"
  we_on_close :: "(('c, 's, 'a) ws_conn \<Rightarrow> ('c, 's, 'a) ws_conn) option"
  we_on_idle :: "(('c, 's, 'a) ws_conn \<Rightarrow> ('c, 's, 'a) ws_conn) option"
  we_elsewhere :: "('c, 's, 'a) ws_conn \<Rightarrow> ('c, 's, 'a) ws_conn"

text \<open>
  The constructor makes the context of a client or of a server; the destructor frees it, shuts the socket
  down, and destroys it.
\<close>

definition new_ws_conn ::
  "('c, 's, 'a) wslay_on \<Rightarrow> bool \<Rightarrow> 's \<Rightarrow> 'a \<Rightarrow> ('c, 's, 'a) ws_conn" where
  "new_ws_conn L is_client socket app =
     \<lparr>cn_socket = socket, cn_ctx = wl_init L is_client, cn_pending_recv = [], cn_pending_messages = [],
      cn_closed = False, cn_drawn = 0, cn_app = app\<rparr>"

definition destroy_ws_conn :: "'s socket_ops \<Rightarrow> ('c, 's, 'a) ws_conn \<Rightarrow> 's" where
  "destroy_ws_conn S self = so_shutdown S (cn_socket self)"

subsection \<open>The callbacks\<close>

definition recv_cb :: "('c, 's, 'a) ws_conn \<Rightarrow> nat \<Rightarrow> (wslay_error + string) \<times> ('c, 's, 'a) ws_conn" where
  "recv_cb self len =
     (if cn_pending_recv self = [] then (Inl WOULDBLOCK, self)
      else (Inr (take (min len (length (cn_pending_recv self))) (cn_pending_recv self)),
            self\<lparr>cn_pending_recv := drop (min len (length (cn_pending_recv self))) (cn_pending_recv self)\<rparr>))"

definition send_cb ::
  "'s socket_ops \<Rightarrow> ('c, 's, 'a) ws_conn \<Rightarrow> string \<Rightarrow> (wslay_error + nat) \<times> ('c, 's, 'a) ws_conn" where
  "send_cb S self data =
     (case so_write S data (cn_socket self) of
        (Some (Suc k), s) \<Rightarrow> (Inr (Suc k), self\<lparr>cn_socket := s\<rparr>)
      | (_, s) \<Rightarrow> (Inl CALLBACK_FAILURE, self\<lparr>cn_socket := s\<rparr>))"

fun genmask_cb :: "(nat \<Rightarrow> nat) \<Rightarrow> ('c, 's, 'a) ws_conn \<Rightarrow> nat \<Rightarrow> string \<times> ('c, 's, 'a) ws_conn" where
  "genmask_cb rd self 0 = ([], self)"
| "genmask_cb rd self (Suc n) =
     (let (buf, self') = genmask_cb rd (self\<lparr>cn_drawn := Suc (cn_drawn self)\<rparr>) n
      in (char_of (rd (cn_drawn self) mod 256) # buf, self'))"

definition on_msg_recv_cb :: "('c, 's, 'a) ws_conn \<Rightarrow> nat \<Rightarrow> string \<Rightarrow> ('c, 's, 'a) ws_conn" where
  "on_msg_recv_cb self opcode msg = self\<lparr>cn_pending_messages := cn_pending_messages self @ [(opcode, msg)]\<rparr>"

subsection \<open>Sending and closing\<close>

text \<open>\<open>wslay_event_send\<close> and \<open>wslay_event_recv\<close> on the connection's context.\<close>

definition event_send ::
  "'s socket_ops \<Rightarrow> ('c, 's, 'a) wslay_on \<Rightarrow> (nat \<Rightarrow> nat) \<Rightarrow> ('c, 's, 'a) ws_conn \<Rightarrow> ('c, 's, 'a) ws_conn" where
  "event_send S L rd self =
     (let (ctx, k) = wl_send L (send_cb S) (genmask_cb rd) (cn_ctx self) self in k\<lparr>cn_ctx := ctx\<rparr>)"

definition event_recv ::
  "('c, 's, 'a) wslay_on \<Rightarrow> ('c, 's, 'a) ws_conn \<Rightarrow> int \<times> ('c, 's, 'a) ws_conn" where
  "event_recv L self =
     (let (rv, ctx, k) = wl_recv L recv_cb on_msg_recv_cb (cn_ctx self) self in (rv, k\<lparr>cn_ctx := ctx\<rparr>))"

definition ws_send_frame ::
  "'s socket_ops \<Rightarrow> ('c, 's, 'a) wslay_on \<Rightarrow> (nat \<Rightarrow> nat) \<Rightarrow> nat \<Rightarrow> string \<Rightarrow> ('c, 's, 'a) ws_conn \<Rightarrow>
   bool \<times> ('c, 's, 'a) ws_conn" where
  "ws_send_frame S L rd opcode payload self =
     (if cn_closed self then (False, self)
      else case wl_queue_msg L opcode payload (cn_ctx self) of
        (rv, ctx) \<Rightarrow>
          if rv \<noteq> 0 then (False, self\<lparr>cn_ctx := ctx\<rparr>)
          else (True, event_send S L rd (self\<lparr>cn_ctx := ctx\<rparr>)))"

definition ws_send_text ::
  "'s socket_ops \<Rightarrow> ('c, 's, 'a) wslay_on \<Rightarrow> (nat \<Rightarrow> nat) \<Rightarrow> string \<Rightarrow> ('c, 's, 'a) ws_conn \<Rightarrow>
   bool \<times> ('c, 's, 'a) ws_conn" where
  "ws_send_text S L rd = ws_send_frame S L rd WSLAY_TEXT_FRAME"

definition ws_send_binary ::
  "'s socket_ops \<Rightarrow> ('c, 's, 'a) wslay_on \<Rightarrow> (nat \<Rightarrow> nat) \<Rightarrow> string \<Rightarrow> ('c, 's, 'a) ws_conn \<Rightarrow>
   bool \<times> ('c, 's, 'a) ws_conn" where
  "ws_send_binary S L rd = ws_send_frame S L rd WSLAY_BINARY_FRAME"

definition ws_close ::
  "'s socket_ops \<Rightarrow> ('c, 's, 'a) wslay_on \<Rightarrow> (nat \<Rightarrow> nat) \<Rightarrow> nat \<Rightarrow> ('c, 's, 'a) ws_conn \<Rightarrow> ('c, 's, 'a) ws_conn" where
  "ws_close S L rd code self =
     (let self' = (if cn_closed self then self
                   else event_send S L rd (self\<lparr>cn_ctx := wl_queue_close L code (cn_ctx self)\<rparr>))
      in self'\<lparr>cn_socket := so_shutdown S (cn_socket self')\<rparr>)"

subsection \<open>The receive loop\<close>

definition RECV_BUFFER :: nat where "RECV_BUFFER = 65536"

text \<open>The messages a turn hands on: text and binary frames, tagged with \<open>is_binary\<close>.\<close>

fun dispatchable :: "(nat \<times> string) list \<Rightarrow> (bool \<times> string) list" where
  "dispatchable [] = []"
| "dispatchable ((opcode, m) # es) =
     (if opcode = WSLAY_TEXT_FRAME then (False, m) # dispatchable es
      else if opcode = WSLAY_BINARY_FRAME then (True, m) # dispatchable es
      else dispatchable es)"

text \<open>The part of a turn under the lock: what to dispatch, and whether to stop.\<close>

definition locked_turn ::
  "'s socket_ops \<Rightarrow> ('c, 's, 'a) wslay_on \<Rightarrow> (nat \<Rightarrow> nat) \<Rightarrow> string \<Rightarrow> ('c, 's, 'a) ws_conn \<Rightarrow>
   (bool \<times> string) list \<times> bool \<times> ('c, 's, 'a) ws_conn" where
  "locked_turn S L rd d self =
     (if cn_closed self then ([], True, self)
      else
        let (rv, k) = event_recv L (self\<lparr>cn_pending_recv := cn_pending_recv self @ d\<rparr>);
            k = event_send S L rd k;
            dispatch = dispatchable (cn_pending_messages k);
            k = k\<lparr>cn_pending_messages := []\<rparr>
        in (dispatch, rv \<noteq> 0 \<or> \<not> wl_read_enabled L (cn_ctx k), k))"

fun dispatch_all ::
  "('c, 's, 'a) ws_env \<Rightarrow> (bool \<times> string) list \<Rightarrow> ('c, 's, 'a) ws_conn \<Rightarrow> ('c, 's, 'a) ws_conn" where
  "dispatch_all H [] self = self"
| "dispatch_all H ((b, m) # ms) self =
     dispatch_all H ms (case we_on_message H of Some f \<Rightarrow> f b m self | None \<Rightarrow> self)"

text \<open>One turn: \<open>True\<close> when the loop goes on.\<close>

definition recv_turn ::
  "'s socket_ops \<Rightarrow> ('c, 's, 'a) wslay_on \<Rightarrow> ('c, 's, 'a) ws_env \<Rightarrow> ('c, 's, 'a) ws_conn \<Rightarrow>
   bool \<times> ('c, 's, 'a) ws_conn" where
  "recv_turn S L H self =
     (case so_read S RECV_BUFFER (cn_socket self) of
        (Eof, s) \<Rightarrow> (False, self\<lparr>cn_socket := s\<rparr>)
      | (Failed, s) \<Rightarrow> (False, self\<lparr>cn_socket := s\<rparr>)
      | (Again, s) \<Rightarrow>
          (case we_on_idle H of
             Some f \<Rightarrow> (True, f (we_elsewhere H (self\<lparr>cn_socket := s\<rparr>)))
           | None \<Rightarrow> (False, self\<lparr>cn_socket := s\<rparr>))
      | (Got d, s) \<Rightarrow>
          (case locked_turn S L (we_rd H) d (we_elsewhere H (self\<lparr>cn_socket := s\<rparr>)) of
             (dispatch, stop, k) \<Rightarrow> (\<not> stop, dispatch_all H dispatch k)))"

partial_function (option) recv_loop ::
  "'s socket_ops \<Rightarrow> ('c, 's, 'a) wslay_on \<Rightarrow> ('c, 's, 'a) ws_env \<Rightarrow> ('c, 's, 'a) ws_conn \<Rightarrow>
   ('c, 's, 'a) ws_conn option" where
  "recv_loop S L H self =
     (if fst (recv_turn S L H self) then recv_loop S L H (snd (recv_turn S L H self))
      else Some (snd (recv_turn S L H self)))"

definition finish ::
  "('c, 's, 'a) ws_env \<Rightarrow> ('c, 's, 'a) ws_conn \<Rightarrow> ('c, 's, 'a) ws_conn" where
  "finish H self = (case we_on_close H of
      Some f \<Rightarrow> f (self\<lparr>cn_closed := True\<rparr>) | None \<Rightarrow> self\<lparr>cn_closed := True\<rparr>)"

definition run_recv_loop ::
  "'s socket_ops \<Rightarrow> ('c, 's, 'a) wslay_on \<Rightarrow> ('c, 's, 'a) ws_env \<Rightarrow> ('c, 's, 'a) ws_conn \<Rightarrow>
   ('c, 's, 'a) ws_conn option" where
  "run_recv_loop S L H self = map_option (finish H) (recv_loop S L H self)"

end
