(* ===== verification/Ws_Props.thy ===== *)
theory Ws_Props imports Ws_Connection Tls
begin

text \<open>
  Properties of the receive loop of \<open>WsConnection\<close>: it ends, whatever the handlers do, and what it hands to
  the message handler is the decoding of the whole byte stream, however the bytes were cut into reads.
  What wslay is relied on for are the definitions \<open>uses_callbacks\<close> and \<open>decodes\<close>.
\<close>

lemmas recv_buffer = RECV_BUFFER_def INT_MAX_def

subsection \<open>What is relied on\<close>

text \<open>
  wslay reaches the connection only through the callbacks: a property of the connection that every
  callback keeps is kept by a call.
\<close>

definition uses_callbacks :: "('c, 'k) wslay \<Rightarrow> bool" where
  "uses_callbacks L \<longleftrightarrow>
     (\<forall>P rcb mcb ctx k. P k \<longrightarrow> (\<forall>k n. P k \<longrightarrow> P (snd (rcb k n))) \<longrightarrow> (\<forall>k n m. P k \<longrightarrow> P (mcb k n m)) \<longrightarrow>
        P (snd (snd (wl_recv L rcb mcb ctx k)))) \<and>
     (\<forall>P scb gcb ctx k. P k \<longrightarrow> (\<forall>k d. P k \<longrightarrow> P (snd (scb k d))) \<longrightarrow> (\<forall>k n. P k \<longrightarrow> P (snd (gcb k n))) \<longrightarrow>
        P (snd (wl_send L scb gcb ctx k)))"

text \<open>
  The reference decoder: an automaton that reads one byte at a time; a step gives the messages completed
  and whether reading goes on.
\<close>

fun decode :: "('v \<Rightarrow> char \<Rightarrow> 'v \<times> (nat \<times> string) list \<times> bool) \<Rightarrow> 'v \<Rightarrow> string \<Rightarrow>
    'v \<times> (nat \<times> string) list \<times> bool" where
  "decode step v [] = (v, [], True)"
| "decode step v (c # cs) =
     (case step v c of (v1, ms, ok) \<Rightarrow>
        if ok then (case decode step v1 cs of (v2, ms2, ok2) \<Rightarrow> (v2, ms @ ms2, ok2)) else (v1, ms, False))"

lemma decode_append:
  "decode step v (a @ b) =
     (case decode step v a of (v1, ms, ok) \<Rightarrow>
        if ok then (case decode step v1 b of (v2, ms2, ok2) \<Rightarrow> (v2, ms @ ms2, ok2)) else (v1, ms, False))"
  by (induction a arbitrary: v) (auto split: prod.split)

text \<open>
  wslay decodes like an automaton: \<open>view\<close> is the part of the context the decoding depends on, while
  reading is enabled.
  \<open>wslay_event_recv\<close> takes all the pending bytes unless it fails or stops reading, hands on the messages
  completed, and \<open>wslay_event_send\<close> leaves the decoding alone.
\<close>

definition decodes ::
  "('c, 's, 'a) wslay_on \<Rightarrow> ('c \<Rightarrow> 'v) \<Rightarrow> ('v \<Rightarrow> char \<Rightarrow> 'v \<times> (nat \<times> string) list \<times> bool) \<Rightarrow> bool" where
  "decodes L view step \<longleftrightarrow>
     (\<forall>ctx k. wl_read_enabled L ctx \<longrightarrow> length (cn_pending_recv k) \<le> RECV_BUFFER \<longrightarrow>
        (case decode step (view ctx) (cn_pending_recv k) of (v, ms, ok) \<Rightarrow>
           \<exists>rv ctx' rest. wl_recv L recv_cb on_msg_recv_cb ctx k =
             (rv, ctx', k\<lparr>cn_pending_recv := rest, cn_pending_messages := cn_pending_messages k @ ms\<rparr>) \<and>
             view ctx' = v \<and> (rv = 0 \<and> wl_read_enabled L ctx' \<longleftrightarrow> ok) \<and> (ok \<longrightarrow> rest = []))) \<and>
     (\<forall>scb gcb ctx k. view (fst (wl_send L scb gcb ctx k)) = view ctx \<and>
        wl_read_enabled L (fst (wl_send L scb gcb ctx k)) = wl_read_enabled L ctx)"

subsection \<open>Handlers\<close>

text \<open>Handlers that do not reach into the socket's input.\<close>

definition leaves_input :: "('s \<Rightarrow> 'x) \<Rightarrow> (('c, 's, 'a) ws_conn \<Rightarrow> ('c, 's, 'a) ws_conn) \<Rightarrow> bool" where
  "leaves_input inp f \<longleftrightarrow> (\<forall>k. inp (cn_socket (f k)) = inp (cn_socket k))"

definition plain_handlers :: "('s \<Rightarrow> 'x) \<Rightarrow> ('c, 's, 'a) ws_env \<Rightarrow> bool" where
  "plain_handlers inp H \<longleftrightarrow> leaves_input inp (we_elsewhere H) \<and>
     pred_option (leaves_input inp) (we_on_idle H) \<and>
     pred_option (\<lambda>f. \<forall>b m. leaves_input inp (f b m)) (we_on_message H)"

text \<open>
  Handlers that may send, but neither end the loop nor touch what is being received; \<open>g\<close> is what the
  handler does to the state of its own.
\<close>

definition changes ::
  "('s \<Rightarrow> 'x) \<Rightarrow> ('c \<Rightarrow> 'v) \<Rightarrow> ('a \<Rightarrow> 'a) \<Rightarrow> (('c, 's, 'a) ws_conn \<Rightarrow> ('c, 's, 'a) ws_conn) \<Rightarrow> bool" where
  "changes inp view g f \<longleftrightarrow> (\<forall>k. inp (cn_socket (f k)) = inp (cn_socket k) \<and> view (cn_ctx (f k)) = view (cn_ctx k) \<and>
     cn_closed (f k) = cn_closed k \<and> cn_pending_recv (f k) = cn_pending_recv k \<and>
     cn_pending_messages (f k) = cn_pending_messages k \<and> cn_app (f k) = g (cn_app k))"

text \<open>What happens to the handlers' state: a message, an idle second, a step of the other threads.\<close>

datatype happening = Heard bool string | Idled | Other

fun happen :: "(happening \<Rightarrow> 'a \<Rightarrow> 'a) \<Rightarrow> happening list \<Rightarrow> 'a \<Rightarrow> 'a" where
  "happen g [] a = a"
| "happen g (x # xs) a = happen g xs (g x a)"

fun heard :: "happening list \<Rightarrow> (bool \<times> string) list" where
  "heard [] = []"
| "heard (Heard b m # xs) = (b, m) # heard xs"
| "heard (Idled # xs) = heard xs"
| "heard (Other # xs) = heard xs"

definition steady_handlers ::
  "('s \<Rightarrow> 'x) \<Rightarrow> ('c \<Rightarrow> 'v) \<Rightarrow> (happening \<Rightarrow> 'a \<Rightarrow> 'a) \<Rightarrow> ('c, 's, 'a) ws_env \<Rightarrow> bool" where
  "steady_handlers inp view g H \<longleftrightarrow> changes inp view (g Other) (we_elsewhere H) \<and>
     pred_option (changes inp view (g Idled)) (we_on_idle H) \<and> we_on_message H \<noteq> None \<and>
     pred_option (\<lambda>f. \<forall>b m. changes inp view (g (Heard b m)) (f b m)) (we_on_message H)"

lemma happen_append: "happen g (xs @ ys) a = happen g ys (happen g xs a)"
  by (induction xs arbitrary: a) simp_all

lemma heard_append: "heard (xs @ ys) = heard xs @ heard ys"
  by (induction xs rule: heard.induct) simp_all

lemma heard_messages [simp]: "heard (map (\<lambda>(b, m). Heard b m) ms) = ms"
  by (induction ms) auto

lemma dispatch_leaves_input:
  "plain_handlers inp H \<Longrightarrow> inp (cn_socket (dispatch_all H ms k)) = inp (cn_socket k)"
  by (induction ms arbitrary: k)
    (auto simp: plain_handlers_def leaves_input_def pred_option_def split: option.split)

lemma dispatch_changes:
  "steady_handlers inp view g H \<Longrightarrow> changes inp view (happen g (map (\<lambda>(b, m). Heard b m) ms)) (dispatch_all H ms)"
proof (induction ms)
  case (Cons bm ms)
  obtain f where f: "we_on_message H = Some f" "\<And>b m. changes inp view (g (Heard b m)) (f b m)"
    using Cons.prems by (auto simp: steady_handlers_def pred_option_def)
  with Cons show ?case by (cases bm) (simp add: changes_def)
qed (simp add: changes_def)

lemma dispatchable_append: "dispatchable (xs @ ys) = dispatchable xs @ dispatchable ys"
  by (induction xs rule: dispatchable.induct) simp_all

lemma genmask_drawn: "snd (genmask_cb rd k n) = k\<lparr>cn_drawn := cn_drawn k + n\<rparr>"
  by (induction n arbitrary: k) (simp_all add: split_beta Let_def)

lemma send_invariant:
  assumes "uses_callbacks L" "P k" "\<And>k d. P k \<Longrightarrow> P (snd (scb k d))" "\<And>k n. P k \<Longrightarrow> P (snd (gcb k n))"
  shows "P (snd (wl_send L scb gcb ctx k))"
  using conjunct2 [OF assms(1) [unfolded uses_callbacks_def], rule_format, of P k scb gcb ctx] assms(2-4) by simp

lemma recv_invariant:
  assumes "uses_callbacks L" "P k" "\<And>k n. P k \<Longrightarrow> P (snd (rcb k n))" "\<And>k n m. P k \<Longrightarrow> P (mcb k n m)"
  shows "P (snd (snd (wl_recv L rcb mcb ctx k)))"
  using conjunct1 [OF assms(1) [unfolded uses_callbacks_def], rule_format, of P k rcb mcb ctx] assms(2-4) by simp

subsection \<open>The loop over any source that dries up\<close>

context finite_source begin

lemma send_cb_keeps:
  "todo (cn_socket (snd (send_cb S k d))) = todo (cn_socket k)"
  "coming i (cn_socket (snd (send_cb S k d))) = coming i (cn_socket k)"
  "cn_closed (snd (send_cb S k d)) = cn_closed k"
  "cn_pending_recv (snd (send_cb S k d)) = cn_pending_recv k"
  "cn_pending_messages (snd (send_cb S k d)) = cn_pending_messages k"
  "cn_app (snd (send_cb S k d)) = cn_app k"
  using wrote [of d "cn_socket k"] by (auto simp: send_cb_def split: prod.split option.split nat.split)

text \<open>What sending keeps of a connection.\<close>

definition same_input :: "('c, 's, 'a) ws_conn \<Rightarrow> ('c, 's, 'a) ws_conn \<Rightarrow> bool" where
  "same_input k q \<longleftrightarrow> todo (cn_socket q) = todo (cn_socket k) \<and>
     (\<forall>i. coming i (cn_socket q) = coming i (cn_socket k)) \<and> cn_closed q = cn_closed k \<and>
     cn_pending_recv q = cn_pending_recv k \<and> cn_pending_messages q = cn_pending_messages k \<and> cn_app q = cn_app k"

lemma event_send_same:
  assumes "uses_callbacks L"
  shows "same_input k (event_send S L rd k)"
proof -
  have "same_input k (snd (wl_send L (send_cb S) (genmask_cb rd) (cn_ctx k) k))"
    by (rule send_invariant [OF assms]) (simp_all add: same_input_def send_cb_keeps genmask_drawn)
  then show ?thesis by (simp add: event_send_def same_input_def split_beta)
qed

lemma event_recv_todo:
  assumes "uses_callbacks L"
  shows "todo (cn_socket (snd (event_recv L k))) = todo (cn_socket k)"
proof -
  have "todo (cn_socket (snd (snd (wl_recv L recv_cb on_msg_recv_cb (cn_ctx k) k)))) = todo (cn_socket k)"
    by (rule recv_invariant [OF assms]) (simp_all add: recv_cb_def on_msg_recv_cb_def)
  then show ?thesis by (simp add: event_recv_def split_beta)
qed

lemma locked_turn_todo:
  assumes "uses_callbacks L" "locked_turn S L rd d k = (ms, stop, q)"
  shows "todo (cn_socket q) = todo (cn_socket k)"
  using assms(2) event_recv_todo [OF assms(1), of "k\<lparr>cn_pending_recv := cn_pending_recv k @ d\<rparr>"]
    event_send_same [OF assms(1), of "snd (event_recv L (k\<lparr>cn_pending_recv := cn_pending_recv k @ d\<rparr>))" rd]
  by (auto simp: locked_turn_def Let_def split_beta same_input_def split: if_splits)

lemma turn_decreases:
  assumes "uses_callbacks L" "plain_handlers inp H" "\<And>s s'. inp s = inp s' \<Longrightarrow> todo s = todo s'"
    and "recv_turn S L H k = (True, q)"
  shows "todo (cn_socket q) < todo (cn_socket k)"
proof -
  obtain r s where r: "so_read S RECV_BUFFER (cn_socket k) = (r, s)" by fastforce
  have e: "todo (cn_socket (we_elsewhere H (k\<lparr>cn_socket := s\<rparr>))) = todo s"
    by (rule assms(3)) (use assms(2) in \<open>simp add: plain_handlers_def leaves_input_def\<close>)
  show ?thesis
  proof (cases r)
    case (Got d)
    with r have less: "todo s < todo (cn_socket k)" using got [of RECV_BUFFER "cn_socket k" d s] by (simp add: recv_buffer)
    obtain ms stop u where u: "locked_turn S L (we_rd H) d (we_elsewhere H (k\<lparr>cn_socket := s\<rparr>)) = (ms, stop, u)"
      by (metis surj_pair)
    then have "q = dispatch_all H ms u" using assms(4) r Got by (simp add: recv_turn_def)
    then have "inp (cn_socket q) = inp (cn_socket u)" using dispatch_leaves_input [OF assms(2)] by simp
    then show ?thesis using assms(3) less locked_turn_todo [OF assms(1) u] e by metis
  next
    case Again
    with r have less: "todo s < todo (cn_socket k)" using again [of RECV_BUFFER "cn_socket k" s] by (simp add: recv_buffer)
    obtain f where f: "we_on_idle H = Some f" "q = f (we_elsewhere H (k\<lparr>cn_socket := s\<rparr>))"
      using assms(4) r Again by (auto simp: recv_turn_def split: option.splits)
    then have "inp (cn_socket q) = inp (cn_socket (we_elsewhere H (k\<lparr>cn_socket := s\<rparr>)))"
      using assms(2) by (simp add: plain_handlers_def leaves_input_def)
    then show ?thesis using assms(3) less e by metis
  qed (use assms(4) r in \<open>simp_all add: recv_turn_def\<close>)
qed

lemma recv_loop_ends:
  assumes "uses_callbacks L" "plain_handlers inp H" "\<And>s s'. inp s = inp s' \<Longrightarrow> todo s = todo s'"
  shows "\<exists>q. recv_loop S L H k = Some q"
proof (induction "todo (cn_socket k)" arbitrary: k rule: less_induct)
  case less
  obtain b q where t: "recv_turn S L H k = (b, q)" by fastforce
  show ?case
  proof (cases b)
    case True
    then have "todo (cn_socket q) < todo (cn_socket k)" using turn_decreases [OF assms] t by simp
    then obtain u where "recv_loop S L H q = Some u" using less by blast
    with t True show ?thesis by (simp add: recv_loop.simps [of S L H k])
  next
    case False
    with t show ?thesis by (simp add: recv_loop.simps [of S L H k])
  qed
qed

subsection \<open>What is handed to the message handler\<close>

lemma locked_turn_decodes:
  assumes "uses_callbacks L" "decodes L view step" "\<not> cn_closed k" "cn_pending_recv k = []" "cn_pending_messages k = []"
    and on: "wl_read_enabled L (cn_ctx k)" and "length d \<le> RECV_BUFFER" "decode step (view (cn_ctx k)) d = (v, ms, ok)"
  obtains q where "locked_turn S L rd d k = (dispatchable ms, \<not> ok, q)" "view (cn_ctx q) = v"
    "coming i (cn_socket q) = coming i (cn_socket k)" "\<not> cn_closed q" "ok \<Longrightarrow> cn_pending_recv q = []"
    "cn_pending_messages q = []" "cn_app q = cn_app k" "todo (cn_socket q) = todo (cn_socket k)"
    "wl_read_enabled L (cn_ctx q) \<or> \<not> ok"
proof -
  let ?k = "k\<lparr>cn_pending_recv := d\<rparr>"
  obtain rv ctx rest where r: "wl_recv L recv_cb on_msg_recv_cb (cn_ctx k) ?k =
      (rv, ctx, ?k\<lparr>cn_pending_recv := rest, cn_pending_messages := ms\<rparr>)"
      "view ctx = v" "rv = 0 \<and> wl_read_enabled L ctx \<longleftrightarrow> ok" "ok \<Longrightarrow> rest = []"
    using conjunct1 [OF assms(2) [unfolded decodes_def], rule_format, of "cn_ctx k" ?k] assms(5,7,8) on by auto
  let ?q = "?k\<lparr>cn_pending_recv := rest, cn_pending_messages := ms, cn_ctx := ctx\<rparr>"
  have s: "view (cn_ctx (event_send S L rd ?q)) = v"
      "wl_read_enabled L (cn_ctx (event_send S L rd ?q)) = wl_read_enabled L ctx"
    using conjunct2 [OF assms(2) [unfolded decodes_def], rule_format, of "send_cb S" "genmask_cb rd" ctx ?q] r(2)
    by (simp_all add: event_send_def split_beta)
  have same: "same_input ?q (event_send S L rd ?q)" by (rule event_send_same [OF assms(1)])
  have t: "locked_turn S L rd d k = (dispatchable ms, \<not> ok, event_send S L rd ?q\<lparr>cn_pending_messages := []\<rparr>)"
    using assms(3,4) r(1,3) s same by (auto simp: locked_turn_def event_recv_def same_input_def)
  show thesis by (rule that [OF t]) (use s same r(3,4) assms(3) in \<open>auto simp: same_input_def\<close>)
qed

lemma loop_decodes:
  assumes L: "uses_callbacks L" "decodes L view step" and H: "steady_handlers inp (\<lambda>c. (view c, wl_read_enabled L c)) g H"
    and inp: "\<And>s s'. inp s = inp s' \<Longrightarrow> todo s = todo s'" "\<And>s s' i. inp s = inp s' \<Longrightarrow> coming i s = coming i s'"
    and idle: "i = (we_on_idle H \<noteq> None)"
    and k: "\<not> cn_closed k" "cn_pending_recv k = []" "cn_pending_messages k = []" "wl_read_enabled L (cn_ctx k)"
  shows "\<exists>q xs. recv_loop S L H k = Some q \<and> cn_app q = happen g xs (cn_app k) \<and>
    heard xs = dispatchable (fst (snd (decode step (view (cn_ctx k)) (coming i (cn_socket k)))))"
  using k
proof (induction "todo (cn_socket k)" arbitrary: k rule: less_induct)
  case less
  obtain r s where r: "so_read S RECV_BUFFER (cn_socket k) = (r, s)" by fastforce
  define e where "e = we_elsewhere H (k\<lparr>cn_socket := s\<rparr>)"
  have "inp (cn_socket e) = inp s" and e: "view (cn_ctx e) = view (cn_ctx k)" "wl_read_enabled L (cn_ctx e) = wl_read_enabled L (cn_ctx k)" "cn_closed e = cn_closed k"
      "cn_pending_recv e = cn_pending_recv k" "cn_pending_messages e = cn_pending_messages k" "cn_app e = g Other (cn_app k)"
    using H by (simp_all add: steady_handlers_def changes_def e_def)
  then have es: "todo (cn_socket e) = todo s" "\<And>i. coming i (cn_socket e) = coming i s" using inp by blast+
  note unroll = recv_loop.simps [of S L H k]
  have stop: ?case if "\<not> b" "recv_turn S L H k = (b, q)" "cn_app q = happen g xs (cn_app k)"
      "heard xs = dispatchable (fst (snd (decode step (view (cn_ctx k)) (coming i (cn_socket k)))))" for b q xs
    using that by (auto simp: unroll)
  have ended: "r = Eof \<or> r = Failed \<Longrightarrow> ?case"
    using over [of RECV_BUFFER "cn_socket k" r s i] r
    by (intro stop [of False "k\<lparr>cn_socket := s\<rparr>" "[]"]) (auto simp: recv_turn_def recv_buffer)
  show ?case
  proof (cases r)
    case (Got d)
    have g: "length d \<le> RECV_BUFFER" "todo s < todo (cn_socket k)" "coming i (cn_socket k) = d @ coming i s"
      using got [of RECV_BUFFER "cn_socket k" d s] r Got by (auto simp: recv_buffer)
    obtain v ms ok where d: "decode step (view (cn_ctx e)) d = (v, ms, ok)" by (metis surj_pair)
    obtain u where u: "locked_turn S L (we_rd H) d e = (dispatchable ms, \<not> ok, u)" "view (cn_ctx u) = v"
        "coming i (cn_socket u) = coming i (cn_socket e)" "\<not> cn_closed u" "ok \<Longrightarrow> cn_pending_recv u = []"
        "cn_pending_messages u = []" "cn_app u = cn_app e" "todo (cn_socket u) = todo (cn_socket e)" "wl_read_enabled L (cn_ctx u) \<or> \<not> ok"
      by (rule locked_turn_decodes [OF L _ _ _ _ g(1) d, where i = i and rd = "we_rd H"]) (use less.prems e in simp_all)
    define q where "q = dispatch_all H (dispatchable ms) u"
    have "inp (cn_socket q) = inp (cn_socket u)" and q: "view (cn_ctx q) = v" "wl_read_enabled L (cn_ctx q) \<or> \<not> ok" "\<not> cn_closed q"
        "cn_pending_recv q = cn_pending_recv u" "cn_pending_messages q = []" "cn_app q = happen g (Other # map (\<lambda>(b, m). Heard b m) (dispatchable ms)) (cn_app k)"
      using dispatch_changes [OF H, of "dispatchable ms"] u e by (simp_all add: changes_def q_def)
    then have qs: "todo (cn_socket q) = todo s" "coming i (cn_socket q) = coming i s" using inp u es by metis+
    have t: "recv_turn S L H k = (ok, q)" using r Got u(1) by (simp add: recv_turn_def e_def q_def)
    show ?thesis
    proof (cases ok)
      case True
      then obtain z xs where z: "recv_loop S L H q = Some z" "cn_app z = happen g xs (cn_app q)"
          "heard xs = dispatchable (fst (snd (decode step (view (cn_ctx q)) (coming i (cn_socket q)))))"
        using less.hyps [of q] qs q u(5) g(2) True by auto
      let ?xs = "(Other # map (\<lambda>(b, m). Heard b m) (dispatchable ms)) @ xs"
      have "cn_app z = happen g ?xs (cn_app k)" using z(2) q(6) by (simp add: happen_append)
      moreover have "heard ?xs = dispatchable (fst (snd (decode step (view (cn_ctx k)) (coming i (cn_socket k)))))"
        using z(3) True d e q(1) qs(2) g(3) by (simp add: heard_append decode_append dispatchable_append split_beta)
      moreover have "recv_loop S L H k = Some z" using z(1) True t by (simp add: unroll)
      ultimately show ?thesis by blast
    next
      case False
      with t d e q g(3) show ?thesis
        by (intro stop [of ok q "Other # map (\<lambda>(b, m). Heard b m) (dispatchable ms)"]) (simp_all add: decode_append)
    qed
  next
    case Again
    have a: "todo s < todo (cn_socket k)" "coming True (cn_socket k) = coming True s" "coming False (cn_socket k) = []"
      using again [of RECV_BUFFER "cn_socket k" s] r Again by (auto simp: recv_buffer)
    show ?thesis
    proof (cases "we_on_idle H")
      case None
      with r Again a idle show ?thesis
        by (intro stop [of False "k\<lparr>cn_socket := s\<rparr>" "[]"]) (simp_all add: recv_turn_def)
    next
      case (Some f)
      have "inp (cn_socket (f e)) = inp (cn_socket e)" and f: "view (cn_ctx (f e)) = view (cn_ctx e)" "wl_read_enabled L (cn_ctx (f e)) = wl_read_enabled L (cn_ctx e)"
          "cn_closed (f e) = cn_closed e" "cn_pending_recv (f e) = cn_pending_recv e"
          "cn_pending_messages (f e) = cn_pending_messages e" "cn_app (f e) = g Idled (cn_app e)"
        using H Some by (simp_all add: steady_handlers_def changes_def)
      then have fs: "todo (cn_socket (f e)) = todo s" "coming i (cn_socket (f e)) = coming i s" using inp es by metis+
      have t: "recv_turn S L H k = (True, f e)" using r Again Some by (simp add: recv_turn_def e_def)
      have "\<exists>z xs. recv_loop S L H (f e) = Some z \<and> cn_app z = happen g xs (cn_app (f e)) \<and>
          heard xs = dispatchable (fst (snd (decode step (view (cn_ctx (f e))) (coming i (cn_socket (f e))))))"
        by (rule less.hyps) (use f fs e a less.prems in simp_all)
      then obtain z xs where z: "recv_loop S L H (f e) = Some z" "cn_app z = happen g xs (cn_app (f e))"
          "heard xs = dispatchable (fst (snd (decode step (view (cn_ctx (f e))) (coming i (cn_socket (f e))))))"
        by blast
      have "cn_app z = happen g (Other # Idled # xs) (cn_app k)" using z(2) f(6) e(6) by simp
      moreover have "heard (Other # Idled # xs) = dispatchable (fst (snd (decode step (view (cn_ctx k)) (coming i (cn_socket k)))))"
        using z(3) f fs e a Some idle by simp
      moreover have "recv_loop S L H k = Some z" using z(1) t by (simp add: unroll)
      ultimately show ?thesis by blast
    qed
  qed (use ended in blast)+
qed

end

subsection \<open>A small framing\<close>

text \<open>
  An instance of the library's interface for the witnesses: a frame is two bytes, its kind and its payload,
  and the kind \<open>c\<close> ends the reading.  A context is the byte read of an unfinished frame, and whether
  reading is enabled.
\<close>

type_synonym pair_ctx = "char option \<times> bool"

fun pair_step :: "char option \<Rightarrow> char \<Rightarrow> char option \<times> (nat \<times> string) list \<times> bool" where
  "pair_step None c = (Some c, [], True)"
| "pair_step (Some o1) c =
     (if o1 = CHR ''c'' then (None, [], False)
      else (None, [(if o1 = CHR ''t'' then 1 else if o1 = CHR ''b'' then 2 else 9, [c])], True))"

fun pair_recv :: "('k \<Rightarrow> nat \<Rightarrow> (wslay_error + string) \<times> 'k) \<Rightarrow> ('k \<Rightarrow> nat \<Rightarrow> string \<Rightarrow> 'k) \<Rightarrow> pair_ctx \<Rightarrow> 'k \<Rightarrow>
    int \<times> pair_ctx \<times> 'k" where
  "pair_recv rcb mcb (h, en) k =
     (if \<not> en then (0, (h, en), k)
      else case rcb k RECV_BUFFER of
        (Inl e, k1) \<Rightarrow> (0, (h, en), k1)
      | (Inr p, k1) \<Rightarrow>
          (case decode pair_step h p of (v, ms, ok) \<Rightarrow> (0, (v, ok), foldl (\<lambda>k m. mcb k (fst m) (snd m)) k1 ms)))"

definition pair_wslay :: "(pair_ctx, 'k) wslay" where
  "pair_wslay = \<lparr>wl_init = (\<lambda>b. (None, True)), wl_recv = pair_recv, wl_send = (\<lambda>scb gcb ctx k. (ctx, snd (scb k ''!''))),
     wl_queue_msg = (\<lambda>n m ctx. (0, ctx)), wl_queue_close = (\<lambda>n ctx. ctx), wl_read_enabled = snd\<rparr>"

lemma foldl_keeps: "P k \<Longrightarrow> (\<And>k x. P k \<Longrightarrow> P (f k x)) \<Longrightarrow> P (foldl f k xs)"
  by (induction xs arbitrary: k) auto

lemma pair_recv_keeps:
  assumes "P k" "\<And>k n. P k \<Longrightarrow> P (snd (rcb k n))" "\<And>k n m. P k \<Longrightarrow> P (mcb k n m)"
  shows "P (snd (snd (pair_recv rcb mcb ctx k)))"
proof (cases ctx)
  case (Pair h en)
  obtain r k1 where r: "rcb k RECV_BUFFER = (r, k1)" by fastforce
  then have k1: "P k1" using assms(1,2) by (metis snd_conv)
  have "P (foldl (\<lambda>k m. mcb k (fst m) (snd m)) k1 ms)" for ms
    by (rule foldl_keeps [where P = P]) (rule k1, rule assms(3))
  with Pair r k1 assms(1) show ?thesis by (auto split: sum.split prod.split)
qed

lemma pair_uses_callbacks: "uses_callbacks pair_wslay"
  unfolding uses_callbacks_def
proof (intro conjI allI impI)
  fix P :: "'k \<Rightarrow> bool" and rcb :: "'k \<Rightarrow> nat \<Rightarrow> (wslay_error + string) \<times> 'k" and mcb :: "'k \<Rightarrow> nat \<Rightarrow> string \<Rightarrow> 'k"
    and ctx :: pair_ctx and k
  assume "P k" "\<forall>k n. P k \<longrightarrow> P (snd (rcb k n))" "\<forall>k n m. P k \<longrightarrow> P (mcb k n m)"
  then have "P (snd (snd (pair_recv rcb mcb ctx k)))" by (intro pair_recv_keeps [where P = P]) blast+
  then show "P (snd (snd (wl_recv pair_wslay rcb mcb ctx k)))" by (simp add: pair_wslay_def)
qed (simp add: pair_wslay_def)

lemma foldl_on_msg: "foldl (\<lambda>k m. on_msg_recv_cb k (fst m) (snd m)) k ms =
    k\<lparr>cn_pending_messages := cn_pending_messages k @ ms\<rparr>"
  by (induction ms arbitrary: k) (simp_all add: on_msg_recv_cb_def)

lemma pair_decodes: "decodes pair_wslay fst pair_step"
proof -
  have "case decode pair_step h (cn_pending_recv k) of (v, ms, ok) \<Rightarrow>
      \<exists>rv ctx' rest. pair_recv recv_cb on_msg_recv_cb (h, True) k =
        (rv, ctx', k\<lparr>cn_pending_recv := rest, cn_pending_messages := cn_pending_messages k @ ms\<rparr>) \<and>
        fst ctx' = v \<and> (rv = 0 \<and> snd ctx' \<longleftrightarrow> ok) \<and> (ok \<longrightarrow> rest = [])"
    if "length (cn_pending_recv k) \<le> RECV_BUFFER" for h and k :: "(pair_ctx, 'a, 'b) ws_conn"
    using that by (cases "cn_pending_recv k = []") (auto simp: recv_cb_def foldl_on_msg split: prod.split)
  then show ?thesis by (auto simp: decodes_def pair_wslay_def)
qed

definition note_message :: "bool \<Rightarrow> string \<Rightarrow> (pair_ctx, 's, (bool \<times> string) list) ws_conn \<Rightarrow>
    (pair_ctx, 's, (bool \<times> string) list) ws_conn" where
  "note_message b m k = k\<lparr>cn_app := cn_app k @ [(b, m)]\<rparr>"

definition pair_env :: "(pair_ctx, 's, (bool \<times> string) list) ws_env" where
  "pair_env = \<lparr>we_rd = (\<lambda>n. n), we_on_message = Some note_message, we_on_close = None,
     we_on_idle = Some (\<lambda>k. k), we_elsewhere = (\<lambda>k. k)\<rparr>"

definition demo_conn :: "'s \<Rightarrow> (pair_ctx, 's, (bool \<times> string) list) ws_conn" where
  "demo_conn s = new_ws_conn pair_wslay False s []"

definition demo_arrivals :: sock where
  "demo_arrivals = \<lparr>sk_in = [Piece ''t1b'', Silence, Piece ''2x3t'', Piece ''4c0t5''], sk_out = [], sk_accept = [],
     sk_shut = False\<rparr>"

definition demo_answers :: tls_sock where
  "demo_answers = \<lparr>ts_in = [Plaintext ''t1b'', Trouble SSL_ERROR_WANT_READ EAGAIN, Plaintext ''2''], ts_out = [],
     ts_takes = [], ts_errno = OTHER_ERRNO, ts_shut = False\<rparr>"

lemma demo_plain: "plain_handlers inp pair_env"
  by (simp add: plain_handlers_def leaves_input_def pair_env_def note_message_def)

text \<open>Handlers that keep a list of what they are given, and do nothing else to their own state.\<close>

fun record_heard :: "happening \<Rightarrow> (bool \<times> string) list \<Rightarrow> (bool \<times> string) list" where
  "record_heard (Heard b m) ms = ms @ [(b, m)]"
| "record_heard Idled ms = ms"
| "record_heard Other ms = ms"

lemma happen_record [simp]: "happen record_heard xs ms = ms @ heard xs"
  by (induction xs arbitrary: ms rule: heard.induct) simp_all

lemma demo_records: "steady_handlers inp view record_heard pair_env"
  by (simp add: steady_handlers_def changes_def pair_env_def note_message_def)

subsection \<open>Properties\<close>



text \<open>C11: The receive loop is equivalent to decoding the whole stream at once: when wslay decodes like an
  automaton, the messages handed to the message handler are, in order, the text and binary messages of the
  stream that arrives until its end (or until a time-out, without an idle callback), however the bytes were
  cut into reads; other opcodes are dropped, and nothing after the point where reading stops is handed on.\<close>

theorem messages_are_stream_decoded:
  assumes "uses_callbacks L" "decodes L view step"
    and "steady_handlers sk_in (\<lambda>c. (view c, wl_read_enabled L c)) record_heard H"
    and "\<not> cn_closed k" "cn_pending_recv k = []" "cn_pending_messages k = []" "wl_read_enabled L (cn_ctx k)"
  shows "\<exists>q. recv_loop plain_ops L H k = Some q \<and>
    cn_app q = cn_app k @ dispatchable (fst (snd (decode step (view (cn_ctx k))
      (until_end (we_on_idle H \<noteq> None) (sk_in (cn_socket k))))))"
  using plain_loop.loop_decodes [OF assms(1-3) _ _ refl assms(4-7)] by (auto simp: plain_todo_def plain_coming_def)

theorem messages_are_stream_decoded_witness:
  "\<exists>q. recv_loop plain_ops pair_wslay pair_env (demo_conn demo_arrivals) = Some q \<and>
    cn_app q = [(False, ''1''), (True, ''2''), (False, ''4'')]"
proof -
  have "dispatchable (fst (snd (decode pair_step None ''t1b2x3t4c0t5''))) =
      [(False, ''1''), (True, ''2''), (False, ''4'')]"
    by (simp add: WSLAY_TEXT_FRAME_def WSLAY_BINARY_FRAME_def)
  then show ?thesis
    using messages_are_stream_decoded [OF pair_uses_callbacks pair_decodes demo_records, of "demo_conn demo_arrivals"]
    by (simp add: demo_conn_def new_ws_conn_def demo_arrivals_def pair_env_def pair_wslay_def)
qed

end
