(* ===== verification/Net.thy ===== *)
theory Net imports Http "HOL-Library.State_Monad" "HOL-Library.Multiset"
begin

text \<open>
  Opening connections: common/src/tcp.cpp, \<open>TlsContext\<close> and the handshake of \<open>TlsSocket\<close>
  (common/src/tls_socket.cpp), and the accept loop of \<open>Server\<close> (server/src/server.cpp).  The code is
  straight-line calls into the operating system and OpenSSL, in the state monad; what the calls return is
  a script, so that every behaviour of the two is some script.  The state keeps the resources that are
  open, of which the properties are that none is lost on any path, and the calls made with their results.
\<close>

datatype resource = Fd int | SslCtx int | Ssl int

datatype family = AF_INET6 | AF_INET | AF_OTHER nat

datatype sockopt = SO_REUSEADDR | IPV6_V6ONLY | TCP_NODELAY

datatype syscall =
    SysSocket family | SysSetsockopt int sockopt int | SysBind int family "16 word" | SysListen int int
  | SysAccept int | SysConnect int string | SysShutdown int | SysClose int
  | SslCtxNew | SslCertificate int string | SslPrivateKey int string | SslCheckKey int | SslCtxFree int
  | SslNew int | SslAccept int | SslShutdown int | SslFree int

record os =
  os_answers :: "int list"
  os_open :: "resource list"
  os_calls :: "(syscall \<times> int) list"

text \<open>A call takes the next answer of the script, and fails when the script has ended.\<close>

definition sys :: "syscall \<Rightarrow> (os, int) state" where
  "sys c = State (\<lambda>s.
     let r = (case os_answers s of [] \<Rightarrow> -1 | x # _ \<Rightarrow> x)
     in (r, s\<lparr>os_answers := tl (os_answers s), os_calls := os_calls s @ [(c, r)]\<rparr>))"

text \<open>A call that opens a resource when it succeeds, and one that releases a resource.\<close>

definition acquire :: "(int \<Rightarrow> resource) \<Rightarrow> syscall \<Rightarrow> (os, int) state" where
  "acquire R c = do {
     r \<leftarrow> sys c;
     _ \<leftarrow> State_Monad.update (\<lambda>s. if r < 0 then s else s\<lparr>os_open := R r # os_open s\<rparr>);
     State_Monad.return r
   }"

definition release :: "resource \<Rightarrow> syscall \<Rightarrow> (os, unit) state" where
  "release R c = State_Monad.update (\<lambda>s. s\<lparr>os_open := remove1 R (os_open s), os_calls := os_calls s @ [(c, 0)]\<rparr>)"

subsection \<open>TCP\<close>

definition close_fd :: "int \<Rightarrow> (os, unit) state" where
  "close_fd fd = release (Fd fd) (SysClose fd)"

definition listen_on :: "int \<Rightarrow> int \<Rightarrow> (os, int) state" where
  "listen_on port backlog = do {
     fd6 \<leftarrow> acquire Fd (SysSocket AF_INET6);
     fd \<leftarrow> (if fd6 < 0 then acquire Fd (SysSocket AF_INET) else State_Monad.return fd6);
     if fd < 0 then State_Monad.return (-1)
     else do {
       _ \<leftarrow> sys (SysSetsockopt fd SO_REUSEADDR 1);
       _ \<leftarrow> (if fd6 < 0 then State_Monad.return 0 else sys (SysSetsockopt fd IPV6_V6ONLY 0));
       b \<leftarrow> sys (SysBind fd (if fd6 < 0 then AF_INET else AF_INET6) (of_int port));
       if b < 0 then do { _ \<leftarrow> close_fd fd; State_Monad.return (-1) }
       else do {
         l \<leftarrow> sys (SysListen fd backlog);
         if l < 0 then do { _ \<leftarrow> close_fd fd; State_Monad.return (-1) }
         else State_Monad.return fd
       }
     }
   }"

definition accept_connection :: "int \<Rightarrow> (os, int) state" where
  "accept_connection listen_fd = do {
     fd \<leftarrow> acquire Fd (SysAccept listen_fd);
     _ \<leftarrow> (if 0 \<le> fd then sys (SysSetsockopt fd TCP_NODELAY 1) else State_Monad.return 0);
     State_Monad.return fd
   }"

text \<open>The loop over the addresses that \<open>getaddrinfo\<close> found.\<close>

fun try_addresses :: "(family \<times> string) list \<Rightarrow> int \<Rightarrow> (os, int) state" where
  "try_addresses [] fd = State_Monad.return fd"
| "try_addresses ((f, addr) # as) _ = do {
     fd \<leftarrow> acquire Fd (SysSocket f);
     if fd < 0 then try_addresses as fd
     else do {
       c \<leftarrow> sys (SysConnect fd addr);
       if c = 0 then State_Monad.return fd
       else do { _ \<leftarrow> close_fd fd; try_addresses as (-1) }
     }
   }"

definition int_text :: "int \<Rightarrow> string" where
  "int_text i = (if i < 0 then CHR ''-'' # dec (nat (- i)) else dec (nat i))"

definition connect_to ::
  "(string \<Rightarrow> string \<Rightarrow> (family \<times> string) list option) \<Rightarrow> string \<Rightarrow> int \<Rightarrow> (os, int) state" where
  "connect_to resolve host port =
     (case resolve host (int_text port) of
        None \<Rightarrow> State_Monad.return (-1)
      | Some addrs \<Rightarrow> do {
          fd \<leftarrow> try_addresses addrs (-1);
          _ \<leftarrow> (if 0 \<le> fd then sys (SysSetsockopt fd TCP_NODELAY 1) else State_Monad.return 0);
          State_Monad.return fd
        })"

subsection \<open>TLS\<close>

definition ctx_free :: "int \<Rightarrow> (os, unit) state" where
  "ctx_free ctx = release (SslCtx ctx) (SslCtxFree ctx)"

text \<open>\<open>TlsContext::create_server\<close>: the message of the exception, or the context.\<close>

definition create_server :: "string \<Rightarrow> string \<Rightarrow> (os, string + int) state" where
  "create_server cert_file key_file = do {
     ctx \<leftarrow> acquire SslCtx SslCtxNew;
     if ctx < 0 then State_Monad.return (Inl ''blueboat: failed to create SSL_CTX'')
     else do {
       c \<leftarrow> sys (SslCertificate ctx cert_file);
       if c \<le> 0 then do {
         _ \<leftarrow> ctx_free ctx;
         State_Monad.return (Inl (''blueboat: failed to load TLS certificate: '' @ cert_file)) }
       else do {
         k \<leftarrow> sys (SslPrivateKey ctx key_file);
         if k \<le> 0 then do {
           _ \<leftarrow> ctx_free ctx;
           State_Monad.return (Inl (''blueboat: failed to load TLS private key: '' @ key_file)) }
         else do {
           m \<leftarrow> sys (SslCheckKey ctx);
           if m = 0 then do {
             _ \<leftarrow> ctx_free ctx;
             State_Monad.return (Inl (''blueboat: TLS private key does not match certificate: '' @ key_file)) }
           else State_Monad.return (Inr ctx)
         }
       }
     }
   }"

text \<open>A socket that a connection thread owns.\<close>

datatype owned = PlainFd int | TlsFd int int

definition new_tls_socket :: "int \<Rightarrow> int \<Rightarrow> (os, owned) state" where
  "new_tls_socket fd ctx = do { s \<leftarrow> acquire Ssl (SslNew ctx); State_Monad.return (TlsFd fd s) }"

text \<open>The destructors \<open>~PlainSocket\<close> and \<open>~TlsSocket\<close>.\<close>

fun destroy_socket :: "owned \<Rightarrow> (os, unit) state" where
  "destroy_socket (PlainFd fd) = close_fd fd"
| "destroy_socket (TlsFd fd s) = do {
     _ \<leftarrow> (if s < 0 then State_Monad.return () else do { _ \<leftarrow> sys (SslShutdown s); release (Ssl s) (SslFree s) });
     close_fd fd
   }"

fun accept_server :: "owned \<Rightarrow> (os, bool) state" where
  "accept_server (PlainFd fd) = State_Monad.return True"
| "accept_server (TlsFd fd s) = do { r \<leftarrow> sys (SslAccept s); State_Monad.return (r = 1) }"

subsection \<open>The accept loop\<close>

text \<open>One turn: the socket handed to a new connection thread, if any.\<close>

definition accept_turn :: "int option \<Rightarrow> int \<Rightarrow> (os, owned option) state" where
  "accept_turn tls_ctx listen_fd = do {
     fd \<leftarrow> accept_connection listen_fd;
     if fd < 0 then State_Monad.return None
     else (case tls_ctx of
         None \<Rightarrow> State_Monad.return (Some (PlainFd fd))
       | Some ctx \<Rightarrow> do {
           sock \<leftarrow> new_tls_socket fd ctx;
           ok \<leftarrow> accept_server sock;
           if ok then State_Monad.return (Some sock)
           else do { _ \<leftarrow> destroy_socket sock; State_Monad.return None }
         })
   }"

text \<open>
  The loop, over the values that successive reads of \<open>shutting_down_\<close> give: the sockets handed over, in
  order, and whether the loop has ended.
\<close>

fun accept_loop :: "int option \<Rightarrow> int \<Rightarrow> bool list \<Rightarrow> (os, owned list \<times> bool) state" where
  "accept_loop tls_ctx listen_fd [] = State_Monad.return ([], False)"
| "accept_loop tls_ctx listen_fd (shutting_down # loads) =
     (if shutting_down then State_Monad.return ([], True)
      else do {
        s \<leftarrow> accept_turn tls_ctx listen_fd;
        (ss, ended) \<leftarrow> accept_loop tls_ctx listen_fd loads;
        State_Monad.return ((case s of None \<Rightarrow> ss | Some sock \<Rightarrow> sock # ss), ended)
      })"

fun owned_resources :: "owned \<Rightarrow> resource multiset" where
  "owned_resources (PlainFd fd) = {#Fd fd#}"
| "owned_resources (TlsFd fd s) = {#Fd fd#} + (if s < 0 then {#} else {#Ssl s#})"

subsection \<open>Facts\<close>

abbreviation opened :: "os \<Rightarrow> resource multiset" where
  "opened s \<equiv> mset (os_open s)"

lemma run_update [simp]: "run_state (State_Monad.update f) s = ((), f s)"
  by (simp add: State_Monad.update_def State_Monad.get_def State_Monad.set_def)

lemma sys_open [simp]: "os_open (snd (run_state (sys c) s)) = os_open s"
  by (simp add: sys_def Let_def)

lemma sys_calls: "os_calls (snd (run_state (sys c) s)) = os_calls s @ [(c, fst (run_state (sys c) s))]"
  by (simp add: sys_def Let_def)

lemma acquire_opened:
  "opened (snd (run_state (acquire R c) s)) =
     opened s + (if fst (run_state (acquire R c) s) < 0 then {#} else {#R (fst (run_state (acquire R c) s))#})"
  by (simp add: acquire_def split_beta)

lemma release_opened [simp]: "opened (snd (run_state (release R c) s)) = opened s - {#R#}"
  by (simp add: release_def)

lemma close_opened [simp]: "opened (snd (run_state (close_fd fd) s)) = opened s - {#Fd fd#}"
  by (simp add: close_fd_def)

lemma ctx_free_opened [simp]: "opened (snd (run_state (ctx_free c) s)) = opened s - {#SslCtx c#}"
  by (simp add: ctx_free_def)

lemmas net_facts = acquire_opened split_beta

end
