(* ===== verification/Net_Props.thy ===== *)
theory Net_Props imports Net
begin

text \<open>
  What opening connections leaves open: on every path of \<open>listen_on\<close>, \<open>connect_to\<close>,
  \<open>create_server\<close> and the accept loop, exactly the descriptors and TLS objects that the result names.
\<close>

lemma listen_opened:
  "opened (snd (run_state (listen_on port backlog) s)) =
     opened s + (if fst (run_state (listen_on port backlog) s) < 0 then {#}
       else {#Fd (fst (run_state (listen_on port backlog) s))#})"
  by (simp add: listen_on_def net_facts)

lemma accept_opened:
  "opened (snd (run_state (accept_connection l) s)) =
     opened s + (if fst (run_state (accept_connection l) s) < 0 then {#}
       else {#Fd (fst (run_state (accept_connection l) s))#})"
  by (simp add: accept_connection_def net_facts)

lemma try_opened:
  "opened (snd (run_state (try_addresses as fd) s)) =
     opened s + (if fst (run_state (try_addresses as fd) s) < 0 \<or> as = [] then {#}
       else {#Fd (fst (run_state (try_addresses as fd) s))#})"
  by (induction as fd arbitrary: s rule: try_addresses.induct) (simp_all add: net_facts)

lemma connect_opened:
  "opened (snd (run_state (connect_to resolve host port) s)) =
     opened s + (if fst (run_state (connect_to resolve host port) s) < 0 then {#}
       else {#Fd (fst (run_state (connect_to resolve host port) s))#})"
  by (simp add: connect_to_def net_facts try_opened split: option.split)

lemma create_server_opened:
  "opened (snd (run_state (create_server c k) s)) =
     opened s + (case fst (run_state (create_server c k) s) of Inl e \<Rightarrow> {#} | Inr ctx \<Rightarrow> {#SslCtx ctx#})"
  by (simp add: create_server_def net_facts)

lemma destroy_opened: "opened (snd (run_state (destroy_socket q) s)) = opened s - owned_resources q"
  by (cases q) (simp_all add: net_facts)

lemma turn_opened:
  "opened (snd (run_state (accept_turn t l) s)) =
     opened s + (case fst (run_state (accept_turn t l) s) of None \<Rightarrow> {#} | Some q \<Rightarrow> owned_resources q)"
  by (simp add: accept_turn_def net_facts accept_opened destroy_opened new_tls_socket_def split: option.split)

lemma loop_opened:
  "opened (snd (run_state (accept_loop t l loads) s)) =
     opened s + (\<Sum>q \<leftarrow> fst (fst (run_state (accept_loop t l loads) s)). owned_resources q)"
proof (induction loads arbitrary: s)
  case (Cons b loads)
  show ?case
    using Cons.IH [of "snd (run_state (accept_turn t l) s)"] turn_opened [of t l s]
    by (cases "fst (run_state (accept_turn t l) s)") (simp_all add: split_beta)
qed simp

text \<open>The connection threads destroy what they own.\<close>

fun destroy_sockets :: "owned list \<Rightarrow> (os, unit) state" where
  "destroy_sockets [] = State_Monad.return ()"
| "destroy_sockets (q # qs) = do { _ \<leftarrow> destroy_socket q; destroy_sockets qs }"

lemma destroy_all_opened:
  "opened (snd (run_state (destroy_sockets qs) s)) = opened s - (\<Sum>q \<leftarrow> qs. owned_resources q)"
  by (induction qs arbitrary: s) (simp_all add: split_beta destroy_opened)

subsection \<open>Handshakes\<close>

definition handshaken :: "int option \<Rightarrow> os \<Rightarrow> owned \<Rightarrow> bool" where
  "handshaken t s q \<longleftrightarrow> (case q of PlainFd fd \<Rightarrow> t = None | TlsFd fd x \<Rightarrow> t \<noteq> None \<and> (SslAccept x, 1) \<in> set (os_calls s))"

lemma calls_grow:
  "set (os_calls s) \<subseteq> set (os_calls (snd (run_state (sys c) s)))"
  "set (os_calls s) \<subseteq> set (os_calls (snd (run_state (acquire R c) s)))"
  "set (os_calls s) \<subseteq> set (os_calls (snd (run_state (release r c) s)))"
  by (auto simp: sys_calls acquire_def release_def split_beta)

lemma accept_calls: "set (os_calls s) \<subseteq> set (os_calls (snd (run_state (accept_connection l) s)))"
  using calls_grow by (simp add: accept_connection_def split_beta) blast

lemma destroy_calls: "set (os_calls s) \<subseteq> set (os_calls (snd (run_state (destroy_socket q) s)))"
  by (cases q) (auto simp: close_fd_def release_def sys_calls split_beta)

lemma handshake_calls: "set (os_calls s) \<subseteq> set (os_calls (snd (run_state (accept_server q) s)))"
  by (cases q) (auto simp: sys_calls split_beta)

lemma turn_calls: "set (os_calls s) \<subseteq> set (os_calls (snd (run_state (accept_turn t l) s)))"
proof -
  let ?a = "snd (run_state (accept_connection l) s)"
  let ?n = "\<lambda>ctx. snd (run_state (new_tls_socket (fst (run_state (accept_connection l) s)) ctx) ?a)"
  have n: "set (os_calls s) \<subseteq> set (os_calls (?n ctx))" for ctx
    using accept_calls [of s l] calls_grow(2) [of ?a Ssl "SslNew ctx"]
    by (auto simp: new_tls_socket_def split_beta)
  show ?thesis
    using accept_calls [of s l] n handshake_calls destroy_calls
    by (simp add: accept_turn_def split_beta split: option.split) blast
qed

lemma turn_handshaken:
  assumes "fst (run_state (accept_turn t l) s) = Some q"
  shows "handshaken t (snd (run_state (accept_turn t l) s)) q"
  using assms
  by (auto simp: accept_turn_def handshaken_def new_tls_socket_def split_beta sys_calls
      split: if_splits option.splits)

lemma loop_calls: "set (os_calls s) \<subseteq> set (os_calls (snd (run_state (accept_loop t l loads) s)))"
proof (induction loads arbitrary: s)
  case (Cons b loads)
  show ?case using Cons.IH [of "snd (run_state (accept_turn t l) s)"] turn_calls [of s t l]
    by (auto simp: split_beta)
qed simp

lemma loop_handshaken:
  "q \<in> set (fst (fst (run_state (accept_loop t l loads) s))) \<Longrightarrow>
   handshaken t (snd (run_state (accept_loop t l loads) s)) q"
proof (induction loads arbitrary: s)
  case (Cons b loads)
  let ?u = "snd (run_state (accept_turn t l) s)"
  have up: "handshaken t ?u q \<Longrightarrow> handshaken t (snd (run_state (accept_loop t l loads) ?u)) q"
    using loop_calls [of ?u t l loads] by (auto simp: handshaken_def split: owned.splits)
  from Cons.prems have "\<not> b" by (cases b) simp_all
  with Cons.prems consider "fst (run_state (accept_turn t l) s) = Some q"
    | "q \<in> set (fst (fst (run_state (accept_loop t l loads) ?u)))"
    by (auto simp: split_beta split: option.splits)
  then have "handshaken t (snd (run_state (accept_loop t l loads) ?u)) q"
    using Cons.IH up turn_handshaken by cases blast+
  with \<open>\<not> b\<close> show ?case by (simp add: split_beta)
qed simp

subsection \<open>Properties\<close>

text \<open>C34: Opening a listening socket, connecting and creating a TLS context leak nothing: on every path of
  \<open>listen_on\<close>, \<open>connect_to\<close> and \<open>create_server\<close>, whatever the system and OpenSSL answer, what is open
  afterwards is what was open before and, when the call succeeds, the one object it returns.\<close>

theorem open_calls_leak_nothing:
  "(let (fd, s') = run_state (listen_on port backlog) s
    in opened s' = opened s + (if fd < 0 then {#} else {#Fd fd#})) \<and>
   (let (fd, s') = run_state (connect_to resolve host port) s
    in opened s' = opened s + (if fd < 0 then {#} else {#Fd fd#})) \<and>
   (let (r, s') = run_state (create_server cert key) s
    in opened s' = opened s + (case r of Inl e \<Rightarrow> {#} | Inr ctx \<Rightarrow> {#SslCtx ctx#}))"
  using listen_opened [of port backlog s] connect_opened [of resolve host port s] create_server_opened [of cert key s]
  by (simp add: Let_def split_beta)

text \<open>The accept loop accounts for every connection: the sockets it hands to connection threads are
  exactly what it leaves open, so that a connection whose TLS handshake fails is closed, and after the
  threads have destroyed theirs nothing remains; on a TLS server a socket is handed over only when its
  handshake (\<open>SSL_accept\<close>) has succeeded.\<close>

theorem accept_loop_accounts:
  assumes "run_state (accept_loop tls_ctx listen_fd loads) s = ((handed, ended), s')"
  shows "opened s' = opened s + (\<Sum>q \<leftarrow> handed. owned_resources q) \<and>
    opened (snd (run_state (destroy_sockets handed) s')) = opened s \<and>
    (\<forall>q \<in> set handed. case q of PlainFd fd \<Rightarrow> tls_ctx = None
       | TlsFd fd x \<Rightarrow> tls_ctx \<noteq> None \<and> (SslAccept x, 1) \<in> set (os_calls s'))"
  using assms loop_opened [of tls_ctx listen_fd loads s] loop_handshaken [of _ tls_ctx listen_fd loads s]
    destroy_all_opened [of handed s']
  by (simp add: handshaken_def)

theorem accept_loop_accounts_witness:
  "\<exists>s'. run_state (accept_loop (Some 9) 3 [False, False, False, True])
      \<lparr>os_answers = [-1, 5, 0, 20, 1, 6, 0, 21, 0, 0], os_open = [Fd 3, SslCtx 9], os_calls = []\<rparr> =
      (([TlsFd 5 20], True), s') \<and>
    opened s' = {#Fd 3, SslCtx 9, Fd 5, Ssl 20#} \<and> (SslAccept 20, 1) \<in> set (os_calls s')"
proof -
  let ?s = "\<lparr>os_answers = [-1, 5, 0, 20, 1, 6, 0, 21, 0, 0], os_open = [Fd 3, SslCtx 9], os_calls = []\<rparr>"
  obtain s' where r: "run_state (accept_loop (Some 9) 3 [False, False, False, True]) ?s = (([TlsFd 5 20], True), s')"
    by (simp add: accept_turn_def accept_connection_def new_tls_socket_def acquire_def release_def close_fd_def
        sys_def Let_def)
  show ?thesis using accept_loop_accounts [OF r] r by (intro exI [of _ s']) (auto simp: add_mset_commute)
qed

end
