(* ===== verification/Random_Id.thy ===== *)
theory Random_Id imports Prelude
begin

text \<open>
  \<open>random_id\<close> (common/src/random_id.cpp) over the draws of its distribution: \<open>dist i\<close> is the \<open>i\<close>-th value
  of \<open>uniform_int_distribution(0, alphabet_size - 1)\<close>.
\<close>

definition alphabet :: string where
  "alphabet = ''0123456789ABCDEFGHIJKLMNOPQRSTUVWXYZabcdefghijklmnopqrstuvwxyz_-''"

definition alphabet_size :: nat where
  "alphabet_size = length alphabet"

text \<open>The loop, from the draw number \<open>i\<close> on.\<close>

fun random_text :: "(nat \<Rightarrow> nat) \<Rightarrow> nat \<Rightarrow> nat \<Rightarrow> string" where
  "random_text dist i 0 = []"
| "random_text dist i (Suc n) = alphabet ! dist i # random_text dist (Suc i) n"

definition ID_LENGTH :: nat where "ID_LENGTH = 21"

text \<open>The \<open>k\<close>-th identifier of a run: each takes \<open>ID_LENGTH\<close> draws.\<close>

definition random_ids :: "(nat \<Rightarrow> nat) \<Rightarrow> nat \<Rightarrow> string" where
  "random_ids dist k = random_text dist (ID_LENGTH * k) ID_LENGTH"

lemma alphabet_size [simp]: "alphabet_size = 64"
  by (simp add: alphabet_size_def alphabet_def)

lemma alphabet_distinct: "distinct alphabet"
  by (simp add: alphabet_def)

lemma random_text_map: "random_text dist i n = map (\<lambda>j. alphabet ! dist j) [i ..< i + n]"
proof (induction n arbitrary: i)
  case (Suc n)
  have "[i ..< i + Suc n] = i # [Suc i ..< Suc i + n]" by (simp add: upt_conv_Cons)
  with Suc show ?case by simp
qed simp

lemma length_random_text [simp]: "length (random_text dist i n) = n"
  by (simp add: random_text_map)

lemma random_text_alphabet:
  "(\<And>j. dist j < alphabet_size) \<Longrightarrow> set (random_text dist i n) \<subseteq> set alphabet"
  by (auto simp: random_text_map alphabet_size_def simp del: alphabet_size)

text \<open>Different draws give different identifiers, so that an identifier carries all of its 126 bits.\<close>

lemma random_text_inj:
  assumes "\<And>j. dist j < alphabet_size" "\<And>j. dist' j < alphabet_size"
    and "random_text dist i n = random_text dist' i n" "i \<le> j" "j < i + n"
  shows "dist j = dist' j"
proof -
  have "alphabet ! dist j = alphabet ! dist' j" using assms(3-5) by (simp add: random_text_map)
  then show ?thesis
    using nth_eq_iff_index_eq [OF alphabet_distinct] assms(1,2) [unfolded alphabet_size_def] by blast
qed

end
