(* ===== verification/Admin.thy ===== *)
theory Admin imports Server Http Sio
begin

text \<open>
  The HTTP administration interface (server/src/server.cpp, from \<open>ADMIN_PREFIX\<close> on), after the request
  has been read.  A connection thread is known by a number \<open>q\<close>; what it writes with
  \<open>write_response\<close> is appended to \<open>w_replies\<close>.  The configured administrators, the routines of OpenSSL,
  the MessagePack library and the system calls that name a peer are parameters, the fields of \<open>web\<close>.
\<close>

datatype peer_addr = PeerV4 string | PeerV6 string | PeerOther

record web =
  wb_admins :: "(string \<times> string) list"
  wb_decode_block :: "string \<Rightarrow> string option"
  wb_encode_block :: "string \<Rightarrow> string"
  wb_sha1 :: "string \<Rightarrow> string"
  wb_msgpack :: msgpack_lib
  wb_getpeername :: "nat \<Rightarrow> peer_addr option"
  wb_inet_ntop :: "peer_addr \<Rightarrow> string"

text \<open>\<open>peer_ip\<close>: the address of the peer as text, if it has one of the two families.\<close>

definition peer_ip :: "web \<Rightarrow> nat \<Rightarrow> string" where
  "peer_ip W q = (case wb_getpeername W q of
       None \<Rightarrow> []
     | Some (PeerV4 a) \<Rightarrow> wb_inet_ntop W (PeerV4 a)
     | Some (PeerV6 a) \<Rightarrow> wb_inet_ntop W (PeerV6 a)
     | Some PeerOther \<Rightarrow> [])"

definition write_reply :: "nat \<Rightarrow> nat \<Rightarrow> string \<Rightarrow> string \<Rightarrow> string \<Rightarrow> wstep" where
  "write_reply q status status_text content_type body =
     effect (\<lambda>w. w\<lparr>w_replies := w_replies w @
       [(q, \<lparr>rp_status = status, rp_status_text = status_text, rp_content_type = content_type,
             rp_body = body, rp_extra_headers = []\<rparr>)]\<rparr>)"

definition reply_not_found :: "nat \<Rightarrow> wstep" where
  "reply_not_found q = write_reply q 404 ''Not Found'' ''text/plain'' ''Not found''"

definition reply_ok :: "nat \<Rightarrow> wstep" where
  "reply_ok q = write_reply q 200 ''OK'' ''text/plain'' ''OK''"

definition reply_json :: "env \<Rightarrow> nat \<Rightarrow> json \<Rightarrow> wstep" where
  "reply_json E q v = from_res (dump (e_json E) v) (write_reply q 200 ''OK'' ''application/json'')"

definition reply_unauthorized :: "nat \<Rightarrow> wstep" where
  "reply_unauthorized q =
     effect (\<lambda>w. w\<lparr>w_replies := w_replies w @
       [(q, \<lparr>rp_status = 401, rp_status_text = ''Unauthorized'', rp_content_type = ''text/plain'',
             rp_body = ''Authentication required'',
             rp_extra_headers = [(''WWW-Authenticate'', ''Basic realm=\"blueboat\"'')]\<rparr>)]\<rparr>)"

text \<open>The handler of the \<open>try\<close> blocks: the text of the error is itself dumped, which can throw again.\<close>

definition json_error :: "env \<Rightarrow> string \<Rightarrow> string jres" where
  "json_error E message = dump (e_json E) (jobj [(''message'', JString message)])"

definition reply_error :: "env \<Rightarrow> nat \<Rightarrow> jexn \<Rightarrow> wstep" where
  "reply_error E q e =
     from_res (json_error E (what (e_json E) e)) (write_reply q 500 ''Internal Server Error'' ''application/json'')"

subsection \<open>Authentication\<close>

definition base64_decode :: "web \<Rightarrow> string \<Rightarrow> string" where
  "base64_decode W inp =
     (if inp = [] \<or> length inp mod 4 \<noteq> 0 then []
      else (case wb_decode_block W inp of
          None \<Rightarrow> []
        | Some out \<Rightarrow>
            let padding = (if inp ! (length inp - 1) = CHR ''='' then 1 else 0)
                        + (if inp ! (length inp - 2) = CHR ''='' then 1 else 0) in
            take (length out - padding) out))"

definition check_basic_auth :: "web \<Rightarrow> http_request \<Rightarrow> bool" where
  "check_basic_auth W req =
     (if wb_admins W = [] then True
      else (case map_of (hr_headers req) ''authorization'' of
          None \<Rightarrow> False
        | Some v \<Rightarrow>
            if \<not> prefix ''Basic '' v then False
            else (case split_at (CHR '':'') (base64_decode W (drop 6 v)) of
                None \<Rightarrow> False
              | Some (user, pass) \<Rightarrow> map_of (wb_admins W) user = Some pass)))"

subsection \<open>Routes\<close>

definition ADMIN_PREFIX :: string where
  "ADMIN_PREFIX = ''/blueboat-panel''"

definition admin_rooms :: "env \<Rightarrow> nat \<Rightarrow> wstep" where
  "admin_rooms E q = get_rooms E (\<lambda>rooms. reply_json E q (JArray (map snapshot_to_json rooms)))"

text \<open>
  The request for the details of one room: under the lock a temporary listener is added and the room is
  asked; the thread waits up to five seconds without the lock for an answer, then takes the lock again
  and cancels the listener.  \<open>others\<close> is what the other threads do in between.
\<close>

definition ask_room :: "env \<Rightarrow> nat \<Rightarrow> nat \<Rightarrow> nat \<Rightarrow> string \<Rightarrow> (subscription \<Rightarrow> wstep) \<Rightarrow> wstep" where
  "ask_room E n d q i k =
     random_id E (\<lambda>sid. reading (\<lambda>w. let (h, ps) = ps_on sid REQUEST_INFO (AdminInfo q) (w_pubsub w) in
       seq (effect (\<lambda>w. w\<lparr>w_pubsub := ps\<rparr>))
      (seq (publish E n d i (jobj [(''action'', JString REQUEST_INFO)]))
           (k h))))"

definition cancel_info :: "subscription \<Rightarrow> wstep" where
  "cancel_info h = effect (\<lambda>w. w\<lparr>w_pubsub := snd (ps_unsubscribe h (w_pubsub w))\<rparr>)"

definition admin_room_info :: "env \<Rightarrow> nat \<Rightarrow> nat \<Rightarrow> nat \<Rightarrow> string \<Rightarrow> wstep \<Rightarrow> wstep" where
  "admin_room_info E n d q i others =
     ask_room E n d q i (\<lambda>h.
       seq others
      (seq (cancel_info h)
           (reading (\<lambda>w. case map_of (w_admin w) q of
               None \<Rightarrow> write_reply q 404 ''Not Found'' ''text/plain'' ''No room found''
             | Some info \<Rightarrow> reply_json E q info))))"

definition admin_get_values :: "env \<Rightarrow> nat \<Rightarrow> wstep" where
  "admin_get_values E q = reading (\<lambda>w. reply_json E q (gv_get_all (sops w) (e_json E) (w_storage w)))"

definition admin_set_values :: "env \<Rightarrow> nat \<Rightarrow> string \<Rightarrow> wstep" where
  "admin_set_values E q body =
     catch_std
       (from_res (parse (e_json E) body) (\<lambda>v.
          seq (reading (\<lambda>w. from_res (gv_set_all (sops w) (e_json E) (w_storage w) v)
                 (\<lambda>s. effect (\<lambda>w. w\<lparr>w_storage := s\<rparr>))))
              (reply_ok q)))
       (reply_error E q)"

definition external_payload :: "json \<Rightarrow> json \<Rightarrow> json" where
  "external_payload key d =
     jobj [(''action'', JString EXTERNAL_MESSAGE), (''data'', jobj [(''key'', key), (''data'', d)])]"

definition string_field :: "string \<Rightarrow> json \<Rightarrow> string option" where
  "string_field k j = (case jlookup k j of Some (JString s) \<Rightarrow> Some s | _ \<Rightarrow> None)"

definition admin_external :: "env \<Rightarrow> nat \<Rightarrow> nat \<Rightarrow> nat \<Rightarrow> string \<Rightarrow> wstep" where
  "admin_external E n d q text =
     catch_std
       (from_res (parse (e_json E) text) (\<lambda>body.
          case string_field ''key'' body of
            None \<Rightarrow> write_reply q 500 ''Internal Server Error'' ''text/plain'' ''Key property required for external messages''
          | Some key \<Rightarrow>
              (case string_field ''room'' body of
                 None \<Rightarrow> write_reply q 500 ''Internal Server Error'' ''text/plain'' ''Room property required for external messages''
               | Some i \<Rightarrow>
                   from_res (jvalue get_json ''data'' JNull body) (\<lambda>v.
                     seq (publish E n d i (external_payload (JString key) v)) (reply_ok q)))))
       (reply_error E q)"

definition handle_admin_request ::
  "env \<Rightarrow> web \<Rightarrow> nat \<Rightarrow> nat \<Rightarrow> nat \<Rightarrow> http_request \<Rightarrow> wstep \<Rightarrow> wstep" where
  "handle_admin_request E W n d q req others =
     (if \<not> prefix ADMIN_PREFIX (hr_path req) then reply_not_found q
      else if \<not> check_basic_auth W req then reply_unauthorized q
      else
        let route = drop (length ADMIN_PREFIX) (hr_path req) in
        if hr_method req = ''GET'' \<and> (route = [] \<or> route = ''/'') then
          reply_json E q (jobj [(''message'', JString ''blueboat-cpp admin API. The bundled dashboard UI was not ported.'')])
        else if hr_method req = ''GET'' \<and> route = ''/rooms'' then admin_rooms E q
        else if hr_method req = ''GET'' \<and> prefix ''/rooms/'' route then
          admin_room_info E n d q (drop (length ''/rooms/'') route) others
        else if hr_method req = ''GET'' \<and> route = ''/gameValues'' then admin_get_values E q
        else if hr_method req = ''POST'' \<and> route = ''/gameValues'' then admin_set_values E q (hr_body req)
        else if hr_method req = ''POST'' \<and> route = ''/external-message'' then admin_external E n d q (hr_body req)
        else reply_not_found q)"

end
