(* ===== verification/Admin_Props.thy ===== *)
theory Admin_Props imports Admin Server_Props Http_Facts
begin

text \<open>Properties of the administration interface: authentication, and the details of one room.\<close>

subsection \<open>Authentication\<close>

lemma split_at_Some_iff: "split_at d s = Some (a, b) \<longleftrightarrow> s = a @ d # b \<and> d \<notin> set a"
proof
  assume s: "split_at d s = Some (a, b)"
  then have "d \<in> set s" by (simp add: split_at_def split: if_splits)
  then obtain x y where xy: "s = x @ d # y" "d \<notin> set x" by (meson split_list_first)
  with s split_at_first [OF xy(2), of y] show "s = a @ d # b \<and> d \<notin> set a" by simp
qed (simp add: split_at_first)

definition basic_credentials :: "web \<Rightarrow> http_request \<Rightarrow> string \<Rightarrow> string \<Rightarrow> bool" where
  "basic_credentials W req user pass \<longleftrightarrow> CHR '':'' \<notin> set user \<and>
     (case map_of (hr_headers req) ''authorization'' of None \<Rightarrow> False
      | Some v \<Rightarrow> prefix ''Basic '' v \<and> base64_decode W (drop 6 v) = user @ CHR '':'' # pass)"

lemma check_basic_auth_iff:
  "check_basic_auth W req \<longleftrightarrow> wb_admins W = [] \<or>
     (\<exists>user pass. basic_credentials W req user pass \<and> map_of (wb_admins W) user = Some pass)"
proof (cases "map_of (hr_headers req) ''authorization''")
  case (Some v)
  show ?thesis
  proof (cases "split_at (CHR '':'') (base64_decode W (drop 6 v))")
    case None
    then have "CHR '':'' \<notin> set (base64_decode W (drop 6 v))" by (simp add: split_at_def split: if_splits)
    then have "base64_decode W (drop 6 v) \<noteq> user @ CHR '':'' # pass" for user pass by auto
    with None Some show ?thesis by (simp add: check_basic_auth_def basic_credentials_def)
  next
    case (Some up)
    obtain user pass where up: "up = (user, pass)" by (cases up)
    have "base64_decode W (drop 6 v) = u @ CHR '':'' # p \<and> CHR '':'' \<notin> set u \<longleftrightarrow> u = user \<and> p = pass" for u p
      using Some unfolding up split_at_Some_iff [symmetric] by auto
    then have "basic_credentials W req u p \<longleftrightarrow> prefix ''Basic '' v \<and> u = user \<and> p = pass" for u p
      using \<open>map_of (hr_headers req) ''authorization'' = Some v\<close> unfolding basic_credentials_def
      by (simp only: option.case) blast
    with Some \<open>map_of (hr_headers req) ''authorization'' = Some v\<close> show ?thesis
      by (simp add: check_basic_auth_def up)
  qed
qed (simp add: check_basic_auth_def basic_credentials_def)

subsection \<open>Answers about one room\<close>

fun admin_of :: "handler \<Rightarrow> nat" where
  "admin_of (AdminInfo q) = q"
| "admin_of h = 0"

definition only_admins :: "handler listener list \<Rightarrow> bool" where
  "only_admins ls \<longleftrightarrow> (\<forall>l \<in> set ls. case ls_handler l of AdminInfo q \<Rightarrow> True | _ \<Rightarrow> False)"

definition tell :: "json \<Rightarrow> handler listener list \<Rightarrow> (nat \<times> json) list \<Rightarrow> (nat \<times> json) list" where
  "tell v ls = fold (\<lambda>l. AList.update (admin_of (ls_handler l)) v) ls"

lemma tell_append [simp]: "tell v (ls @ ls') t = tell v ls' (tell v ls t)"
  by (simp add: tell_def)

lemma tell_one [simp]: "tell v [\<lparr>ls_id = i, ls_handler = AdminInfo q\<rparr>] t = AList.update q v t"
  by (simp add: tell_def)

lemma map_of_tell:
  "map_of (tell v ls t) q = (if \<exists>l \<in> set ls. admin_of (ls_handler l) = q then Some v else map_of t q)"
  unfolding tell_def by (induction ls arbitrary: t) auto

lemma invoke_admins:
  "only_admins ls \<Longrightarrow> seqs (\<lambda>l. invoke E n d (ls_handler l) v) ls w =
     (Normal, w\<lparr>w_admin := tell v ls (w_admin w)\<rparr>)"
proof (induction ls arbitrary: w)
  case (Cons l ls)
  then have "invoke E n d (ls_handler l) v = effect (\<lambda>w. w\<lparr>w_admin := AList.update (admin_of (ls_handler l)) v (w_admin w)\<rparr>)"
    by (cases "ls_handler l") (simp_all add: only_admins_def)
  with Cons show ?case by (simp add: only_admins_def tell_def)
qed (simp add: skip_def tell_def)

lemma info_request_fields:
  "is_object (jobj [(''action'', JString REQUEST_INFO)])" "jcontains ''action'' (jobj [(''action'', JString REQUEST_INFO)])"
  "jat ''action'' (jobj [(''action'', JString REQUEST_INFO)]) = Inr (JString REQUEST_INFO)"
  by (simp_all add: json_access)

lemma random_id_run: "random_id E k w = k (e_rid E (w_ids w)) (w\<lparr>w_ids := Suc (w_ids w)\<rparr>)"
  by (simp add: random_id_def reading_def)

text \<open>A room that is listening under its own identifier.\<close>

definition answers :: "world \<Rightarrow> nat \<Rightarrow> room \<Rightarrow> bool" where
  "answers w a r \<longleftrightarrow> w_rooms w a = Some r \<and> rm_id r \<noteq> REQUEST_INFO \<and>
     (\<exists>i. ps_listeners (w_pubsub w) (rm_id r) = [\<lparr>ls_id = i, ls_handler = GameMessage a\<rparr>])"

definition with_listener :: "env \<Rightarrow> nat \<Rightarrow> world \<Rightarrow> handler pubsub" where
  "with_listener E q w = snd (ps_on (e_rid E (w_ids w)) REQUEST_INFO (AdminInfo q) (w_pubsub w))"

definition asked :: "env \<Rightarrow> nat \<Rightarrow> json \<Rightarrow> world \<Rightarrow> world" where
  "asked E q v w = w\<lparr>w_ids := Suc (w_ids w), w_pubsub := with_listener E q w,
     w_admin := AList.update q v (tell v (ps_listeners (w_pubsub w) REQUEST_INFO) (w_admin w))\<rparr>"

lemma listeners_with_listener:
  "ps_listeners (with_listener E q w) k = ps_listeners (w_pubsub w) k @
     (if k = REQUEST_INFO then [\<lparr>ls_id = e_rid E (w_ids w), ls_handler = AdminInfo q\<rparr>] else [])"
  by (simp add: with_listener_def ps_listeners_on)

lemma ask_answering_room:
  assumes "answers w a r" "only_admins (ps_listeners (w_pubsub w) REQUEST_INFO)"
  shows "ask_room E n (Suc d) q (rm_id r) k w =
    k (Some (REQUEST_INFO, e_rid E (w_ids w))) (asked E q (info_reply r) w)"
proof -
  let ?w = "w\<lparr>w_ids := Suc (w_ids w), w_pubsub := with_listener E q w\<rparr>"
  obtain i where i: "w_rooms w a = Some r" "rm_id r \<noteq> REQUEST_INFO"
      "ps_listeners (w_pubsub w) (rm_id r) = [\<lparr>ls_id = i, ls_handler = GameMessage a\<rparr>]"
    using assms(1) by (auto simp: answers_def)
  have pub: "ps_publish (invoke E n d) w_pubsub REQUEST_INFO (info_reply r) ?w = (Normal, asked E q (info_reply r) w)"
    using assms(2) by (simp add: ps_publish_seqs listeners_with_listener invoke_admins only_admins_def asked_def)
  have "publish E n (Suc d) (rm_id r) (jobj [(''action'', JString REQUEST_INFO)]) ?w = (Normal, asked E q (info_reply r) w)"
    using i pub by (simp add: publish_def ps_publish_seqs [of "invoke E n (Suc d)"] listeners_with_listener
        game_message_def info_request_fields)
  moreover have "ps_on (e_rid E (w_ids w)) REQUEST_INFO (AdminInfo q) (w_pubsub w) =
      (Some (REQUEST_INFO, e_rid E (w_ids w)), with_listener E q w)"
    by (simp add: with_listener_def ps_on_def)
  ultimately show ?thesis by (simp add: ask_room_def random_id_run reading_def)
qed

lemma ask_nobody:
  assumes "ps_listeners (w_pubsub w) i = []" "i \<noteq> REQUEST_INFO"
  shows "ask_room E n d q i k w = k (Some (REQUEST_INFO, e_rid E (w_ids w)))
    (w\<lparr>w_ids := Suc (w_ids w), w_pubsub := with_listener E q w\<rparr>)"
proof -
  have "ps_on (e_rid E (w_ids w)) REQUEST_INFO (AdminInfo q) (w_pubsub w) =
      (Some (REQUEST_INFO, e_rid E (w_ids w)), with_listener E q w)"
    by (simp add: with_listener_def ps_on_def)
  then show ?thesis
    using assms by (simp add: ask_room_def random_id_run reading_def publish_def ps_publish_seqs
        listeners_with_listener skip_def)
qed

definition fresh_id :: "env \<Rightarrow> world \<Rightarrow> bool" where
  "fresh_id E w \<longleftrightarrow> (\<forall>l \<in> set (ps_listeners (w_pubsub w) REQUEST_INFO). ls_id l \<noteq> e_rid E (w_ids w))"

lemma listener_cancelled:
  "fresh_id E w \<Longrightarrow> ps_listeners (ps_remove REQUEST_INFO (e_rid E (w_ids w)) (with_listener E q w)) k =
     ps_listeners (w_pubsub w) k"
  by (auto simp: ps_listeners_remove listeners_with_listener fresh_id_def filter_id_conv)

definition ok_json :: "string \<Rightarrow> reply" where
  "ok_json t = \<lparr>rp_status = 200, rp_status_text = ''OK'', rp_content_type = ''application/json'',
     rp_body = t, rp_extra_headers = []\<rparr>"

definition no_room_found :: reply where
  "no_room_found = \<lparr>rp_status = 404, rp_status_text = ''Not Found'', rp_content_type = ''text/plain'',
     rp_body = ''No room found'', rp_extra_headers = []\<rparr>"

lemma room_info_answer:
  assumes "answers w a r" "only_admins (ps_listeners (w_pubsub w) REQUEST_INFO)" "fresh_id E w"
    and "dump (e_json E) (info_reply r) = Inr t"
  shows "\<exists>w'. admin_room_info E n (Suc d) q (rm_id r) skip w = (Normal, w') \<and>
    w_replies w' = w_replies w @ [(q, ok_json t)] \<and> w_rooms w' = w_rooms w \<and> w_storage w' = w_storage w \<and>
    (\<forall>k. ps_listeners (w_pubsub w') k = ps_listeners (w_pubsub w) k)"
  using assms(3,4)
  by (simp add: admin_room_info_def ask_answering_room [OF assms(1,2)] cancel_info_def reading_def reply_json_def
      asked_def write_reply_def effect_def ok_json_def listener_cancelled)

lemma room_info_nobody:
  assumes "ps_listeners (w_pubsub w) i = []" "i \<noteq> REQUEST_INFO" "map_of (w_admin w) q = None" "fresh_id E w"
  shows "\<exists>w'. admin_room_info E n d q i skip w = (Normal, w') \<and>
    w_replies w' = w_replies w @ [(q, no_room_found)] \<and> w_rooms w' = w_rooms w \<and> w_storage w' = w_storage w \<and>
    (\<forall>k. ps_listeners (w_pubsub w') k = ps_listeners (w_pubsub w) k)"
  using assms(3,4)
  by (simp add: admin_room_info_def ask_nobody [OF assms(1,2)] cancel_info_def reading_def
      write_reply_def effect_def no_room_found_def listener_cancelled)

definition room_info_request :: "string \<Rightarrow> http_request \<Rightarrow> bool" where
  "room_info_request i req \<longleftrightarrow> hr_method req = ''GET'' \<and> hr_path req = ''/blueboat-panel/rooms/'' @ i"

lemma route_room_info:
  assumes "room_info_request i req" "check_basic_auth W req"
  shows "handle_admin_request E W n d q req others = admin_room_info E n d q i others"
  using assms by (simp add: handle_admin_request_def room_info_request_def ADMIN_PREFIX_def Let_def)

subsection \<open>Two rooms\<close>

definition attic_room :: room where
  "attic_room = demo_room\<lparr>rm_id := ''attic'', rm_state := JBool True\<rparr>"

definition two_rooms :: world where
  "two_rooms = demo_world\<lparr>w_rooms := (w_rooms demo_world)(1 \<mapsto> attic_room),
     w_pubsub := w_pubsub demo_world @ [(''attic'', [\<lparr>ls_id = ''s3'', ls_handler = GameMessage 1\<rparr>])]\<rparr>"

definition admin_json :: json_lib where
  "admin_json = \<lparr>jl_parse = (\<lambda>s. None),
     jl_dump = (\<lambda>v. if v = info_reply demo_room then Some ''lobby'' else if v = info_reply attic_room then Some ''attic'' else None),
     jl_what = (\<lambda>e. ''json''), jl_float_int = (\<lambda>f. f)\<rparr>"

definition admin_env :: env where
  "admin_env = demo_env\<lparr>e_json := admin_json\<rparr>"

text \<open>An instance of the parameters: one administrator, and a decoder that knows two encodings.\<close>

definition admin_web :: web where
  "admin_web = \<lparr>wb_admins = [(''root'', ''secret'')],
     wb_decode_block = (\<lambda>s. if s = ''cm9vdDpzZWNyZXQ='' then Some (''root:secret'' @ [CHR 0x00]) else None),
     wb_encode_block = (\<lambda>s. s), wb_sha1 = (\<lambda>s. s),
     wb_msgpack = \<lparr>ml_bytes = (\<lambda>cs. []), ml_unpack = (\<lambda>s. Inl ''insufficient bytes'')\<rparr>, wb_getpeername = (\<lambda>q. None), wb_inet_ntop = (\<lambda>a. [])\<rparr>"

definition get_request :: "string \<Rightarrow> string \<Rightarrow> http_request" where
  "get_request path auth = \<lparr>hr_method = ''GET'', hr_path = path, hr_query = [],
     hr_headers = [(''authorization'', auth)], hr_body = []\<rparr>"

lemma rooms_answer [simp]: "answers two_rooms 0 demo_room" "answers two_rooms 1 attic_room"
  by (simp_all add: answers_def two_rooms_def demo_world_def attic_room_def ps_listeners_def REQUEST_INFO_def PLAYER_LEFT_def)

lemma no_info_listeners [simp]: "ps_listeners (w_pubsub two_rooms) REQUEST_INFO = []"
  by (simp add: two_rooms_def demo_world_def ps_listeners_def REQUEST_INFO_def PLAYER_LEFT_def)

lemma two_rooms_fields [simp]: "w_replies two_rooms = []" "w_admin two_rooms = []"
  by (simp_all add: two_rooms_def demo_world_def empty_world_def)

lemma infos_differ: "info_reply demo_room \<noteq> info_reply attic_room"
  by (simp add: info_reply_def attic_room_def demo_room_def jobj_def)

lemma info_dumps [simp]:
  "dump (e_json admin_env) (info_reply demo_room) = Inr ''lobby''"
  "dump (e_json admin_env) (info_reply attic_room) = Inr ''attic''"
  using infos_differ by (simp_all add: dump_def admin_env_def admin_json_def)

lemma root_authorised [simp]: "check_basic_auth admin_web (get_request path ''Basic cm9vdDpzZWNyZXQ='')"
  by (simp add: check_basic_auth_def admin_web_def get_request_def base64_decode_def split_at_def)

lemma get_request_info [simp]:
  "room_info_request i (get_request path auth) \<longleftrightarrow> path = ''/blueboat-panel/rooms/'' @ i"
  by (simp add: room_info_request_def get_request_def)

subsection \<open>Properties\<close>

text \<open>C29: When administrators are configured, a request to the panel is answered 401 and does nothing
  else, unless it carries the name and the password of one of them as basic credentials.\<close>

theorem panel_needs_password:
  assumes "wb_admins W \<noteq> []" "prefix ''/blueboat-panel'' (hr_path req)"
    and "\<And>user pass. basic_credentials W req user pass \<Longrightarrow> map_of (wb_admins W) user \<noteq> Some pass"
  shows "handle_admin_request E W n d q req others w =
    (Normal, w\<lparr>w_replies := w_replies w @ [(q, \<lparr>rp_status = 401, rp_status_text = ''Unauthorized'',
       rp_content_type = ''text/plain'', rp_body = ''Authentication required'',
       rp_extra_headers = [(''WWW-Authenticate'', ''Basic realm=\"blueboat\"'')]\<rparr>)]\<rparr>)"
proof -
  have "\<not> check_basic_auth W req" using assms(1,3) by (auto simp: check_basic_auth_iff)
  with assms(2) show ?thesis
    by (simp add: handle_admin_request_def ADMIN_PREFIX_def reply_unauthorized_def effect_def)
qed

theorem panel_needs_password_witness:
  "handle_admin_request admin_env admin_web 2 1 7 (get_request ''/blueboat-panel/rooms'' ''Basic cm9vdDpndWVzcw=='') skip two_rooms =
    (Normal, two_rooms\<lparr>w_replies := [(7, \<lparr>rp_status = 401, rp_status_text = ''Unauthorized'',
       rp_content_type = ''text/plain'', rp_body = ''Authentication required'',
       rp_extra_headers = [(''WWW-Authenticate'', ''Basic realm=\"blueboat\"'')]\<rparr>)]\<rparr>)"
proof -
  have p: "prefix ''/blueboat-panel'' (hr_path (get_request ''/blueboat-panel/rooms'' ''Basic cm9vdDpndWVzcw==''))"
    by (simp add: get_request_def)
  have c: "map_of (wb_admins admin_web) user \<noteq> Some pass"
    if "basic_credentials admin_web (get_request ''/blueboat-panel/rooms'' ''Basic cm9vdDpndWVzcw=='') user pass" for user pass
    using that by (simp add: basic_credentials_def admin_web_def get_request_def base64_decode_def)
  show ?thesis
    using panel_needs_password [OF _ p c, of admin_env 2 1 7 skip two_rooms] by (simp add: admin_web_def)
qed

text \<open>The panel answers a request for a room with the members and the state that the room has, and
  a request for an identifier that nobody listens to with 404; either way the temporary listener is gone
  afterwards and rooms and storage are as they were.\<close>

theorem room_info_answered:
  assumes "room_info_request (rm_id r) req" "check_basic_auth W req"
    and "room_info_request j req'" "check_basic_auth W req'"
    and "answers w a r" "only_admins (ps_listeners (w_pubsub w) REQUEST_INFO)" "fresh_id E w"
    and "dump (e_json E) (info_reply r) = Inr t"
    and "ps_listeners (w_pubsub w) j = []" "j \<noteq> REQUEST_INFO" "map_of (w_admin w) q = None"
  shows "(\<exists>w'. handle_admin_request E W n (Suc d) q req skip w = (Normal, w') \<and>
      w_replies w' = w_replies w @ [(q, ok_json t)] \<and> w_rooms w' = w_rooms w \<and> w_storage w' = w_storage w \<and>
      (\<forall>k. ps_listeners (w_pubsub w') k = ps_listeners (w_pubsub w) k)) \<and>
    (\<exists>w'. handle_admin_request E W n (Suc d) q req' skip w = (Normal, w') \<and>
      w_replies w' = w_replies w @ [(q, no_room_found)] \<and> w_rooms w' = w_rooms w \<and> w_storage w' = w_storage w \<and>
      (\<forall>k. ps_listeners (w_pubsub w') k = ps_listeners (w_pubsub w) k))"
  using room_info_answer [OF assms(5-8)] room_info_nobody [OF assms(9-11) assms(7)]
  by (simp add: route_room_info [OF assms(1,2)] route_room_info [OF assms(3,4)])

theorem room_info_answered_witness:
  "(\<exists>w'. handle_admin_request admin_env admin_web 2 (Suc 0) 7
        (get_request ''/blueboat-panel/rooms/lobby'' ''Basic cm9vdDpzZWNyZXQ='') skip two_rooms = (Normal, w') \<and>
      w_replies w' = w_replies two_rooms @ [(7, ok_json ''lobby'')] \<and> w_rooms w' = w_rooms two_rooms \<and>
      w_storage w' = w_storage two_rooms \<and>
      (\<forall>k. ps_listeners (w_pubsub w') k = ps_listeners (w_pubsub two_rooms) k)) \<and>
    (\<exists>w'. handle_admin_request admin_env admin_web 2 (Suc 0) 7
        (get_request ''/blueboat-panel/rooms/cellar'' ''Basic cm9vdDpzZWNyZXQ='') skip two_rooms = (Normal, w') \<and>
      w_replies w' = w_replies two_rooms @ [(7, no_room_found)] \<and> w_rooms w' = w_rooms two_rooms \<and>
      w_storage w' = w_storage two_rooms \<and>
      (\<forall>k. ps_listeners (w_pubsub w') k = ps_listeners (w_pubsub two_rooms) k))"
proof (rule room_info_answered [where a = 0 and r = demo_room and j = "''cellar''"])
  show "ps_listeners (w_pubsub two_rooms) ''cellar'' = []"
    by (simp add: two_rooms_def demo_world_def ps_listeners_def PLAYER_LEFT_def)
  show "''cellar'' \<noteq> REQUEST_INFO" by (simp add: REQUEST_INFO_def)
qed (simp_all add: only_admins_def fresh_id_def)

text \<open>The temporary listeners of two requests hear each other's rooms: a thread that asked for one
  room, and is overtaken by a thread that asks for another room before it has taken the lock again,
  answers its own request with the members and the state of the other room.\<close>

theorem room_info_crosstalk:
  assumes "room_info_request (rm_id r) req" "check_basic_auth W req"
    and "answers w a r" "answers w b r'" "only_admins (ps_listeners (w_pubsub w) REQUEST_INFO)"
    and "dump (e_json E) (info_reply r') = Inr t'"
  shows "\<exists>w'. handle_admin_request E W n (Suc d) q req (ask_room E n (Suc d) q' (rm_id r') (\<lambda>h. skip)) w = (Normal, w') \<and>
    w_replies w' = w_replies w @ [(q, ok_json t')]"
proof -
  let ?w = "asked E q (info_reply r) w"
  have "answers ?w b r'" "only_admins (ps_listeners (w_pubsub ?w) REQUEST_INFO)"
    using assms(4,5) by (auto simp: answers_def asked_def listeners_with_listener only_admins_def)
  then have "ask_room E n (Suc d) q' (rm_id r') (\<lambda>h. skip) ?w = (Normal, asked E q' (info_reply r') ?w)"
    by (simp add: ask_answering_room skip_def)
  moreover have "map_of (w_admin (asked E q' (info_reply r') ?w)) q = Some (info_reply r')"
    by (auto simp: asked_def map_of_tell listeners_with_listener)
  ultimately show ?thesis
    using assms(6) by (simp add: route_room_info [OF assms(1,2)] admin_room_info_def ask_answering_room [OF assms(3,5)]
        cancel_info_def reading_def reply_json_def write_reply_def effect_def ok_json_def asked_def)
qed

theorem room_info_crosstalk_witness:
  "\<exists>w'. handle_admin_request admin_env admin_web 2 (Suc 0) 7
       (get_request ''/blueboat-panel/rooms/lobby'' ''Basic cm9vdDpzZWNyZXQ='')
       (ask_room admin_env 2 (Suc 0) 8 (rm_id attic_room) (\<lambda>h. skip)) two_rooms = (Normal, w') \<and>
    w_replies w' = w_replies two_rooms @ [(7, ok_json ''attic'')]"
  by (rule room_info_crosstalk [OF _ _ rooms_answer]) (simp_all add: only_admins_def)

end
