(* ===== verification/Connection.thy ===== *)
theory Connection imports Admin
begin

text \<open>
  One connection thread of the server (\<open>Server::handle_connection\<close>, \<open>Server::handle_ws_payload\<close> in
  server/src/server.cpp, common/src/ws_handshake.cpp), after its request has been read.  What the thread
  sends is recorded in the world: raw text (\<open>w_raw\<close>), text frames (\<open>w_texts\<close>) and event frames
  (\<open>w_frames\<close>).  The receive loop is a list of events: a complete message, an idle second, or what the
  other threads do meanwhile.
\<close>

subsection \<open>The handshake\<close>

definition WS_GUID :: string where
  "WS_GUID = ''258EAFA5-E914-47DA-95CA-C5AB0DC85B11''"

definition compute_accept :: "web \<Rightarrow> string \<Rightarrow> string" where
  "compute_accept W client_key = wb_encode_block W (wb_sha1 W (client_key @ WS_GUID))"

definition upgrade_response :: "web \<Rightarrow> string \<Rightarrow> string" where
  "upgrade_response W key =
     ''HTTP/1.1 101 Switching Protocols'' @ crlf @ ''Upgrade: websocket'' @ crlf @ ''Connection: Upgrade'' @ crlf @
     ''Sec-WebSocket-Accept: '' @ compute_accept W key @ crlf @ crlf"

definition header_contains_token :: "string \<Rightarrow> string \<Rightarrow> bool" where
  "header_contains_token value token = sublist (to_lower token) (to_lower value)"

definition is_blueboat_path :: "string \<Rightarrow> bool" where
  "is_blueboat_path p \<longleftrightarrow> p = ''/blueboat'' \<or> p = ''/blueboat/''"

text \<open>The key of a well-formed upgrade request.\<close>

definition upgrade_key :: "http_request \<Rightarrow> string option" where
  "upgrade_key req =
     (case map_of (hr_headers req) ''upgrade'' of
        Some u \<Rightarrow> if hr_method req = ''GET'' \<and> header_contains_token u ''websocket''
                  then map_of (hr_headers req) ''sec-websocket-key'' else None
      | None \<Rightarrow> None)"

subsection \<open>Opening a session\<close>

definition PING_INTERVAL_MS :: int where "PING_INTERVAL_MS = 25000"
definition PING_TIMEOUT_MS :: int where "PING_TIMEOUT_MS = 5000"

definition send_text :: "string \<Rightarrow> string \<Rightarrow> wstep" where
  "send_text sid s = effect (\<lambda>w. w\<lparr>w_texts := w_texts w @ [(sid, s)]\<rparr>)"

definition with_client_id :: "env \<Rightarrow> http_request \<Rightarrow> (string \<Rightarrow> wstep) \<Rightarrow> wstep" where
  "with_client_id E req k =
     (case map_of (parse_query (hr_query req)) ''id'' of
        Some i \<Rightarrow> if i \<noteq> [] then k i else random_id E k
      | None \<Rightarrow> random_id E k)"

definition open_session :: "env \<Rightarrow> web \<Rightarrow> nat \<Rightarrow> http_request \<Rightarrow> (simple_client \<Rightarrow> wstep) \<Rightarrow> wstep" where
  "open_session E W q req k =
     with_client_id E req (\<lambda>i. random_id E (\<lambda>sid.
       let origin = (case map_of (hr_headers req) ''origin'' of Some v \<Rightarrow> v | None \<Rightarrow> []);
           client_info = \<lparr>sc_id = i, sc_session_id = sid, sc_origin = origin, sc_ip = peer_ip W q\<rparr> in
       seq (effect (\<lambda>w. w\<lparr>w_connections := AList.update sid client_info (w_connections w)\<rparr>))
      (from_res (build_open_frame (e_json E) sid (of_int PING_INTERVAL_MS) (of_int PING_TIMEOUT_MS)) (\<lambda>f.
       seq (send_text sid f)
      (from_res (build_connect_ack_frame (e_json E)) (\<lambda>f.
       seq (send_text sid f)
      (seq (effect (\<lambda>w. w\<lparr>w_frames := w_frames w @ [(sid, clientIdSet, JString i)]\<rparr>))
      (seq (effect (\<lambda>w. w\<lparr>w_activity := AList.update sid (w_now w) (w_activity w)\<rparr>))
           (k client_info)))))))))"

subsection \<open>Serving a session\<close>

definition touch_activity :: "string \<Rightarrow> wstep" where
  "touch_activity sid =
     effect (\<lambda>w. if map_of (w_activity w) sid = None then w
                 else w\<lparr>w_activity := AList.update sid (w_now w) (w_activity w)\<rparr>)"

definition send_pong :: "string \<Rightarrow> wstep" where
  "send_pong sid =
     reading (\<lambda>w. if map_of (w_connections w) sid = None then skip else send_text sid PONG_PACKET)"

definition handle_ws_payload ::
  "env \<Rightarrow> web \<Rightarrow> nat \<Rightarrow> nat \<Rightarrow> simple_client \<Rightarrow> bool \<Rightarrow> string \<Rightarrow> wstep" where
  "handle_ws_payload E W n d client is_binary payload =
     seq (touch_activity (sc_session_id client))
    (from_res (parse_frame (e_json E) (wb_msgpack W) is_binary payload) (\<lambda>frame.
       case pf_kind frame of
         FPing \<Rightarrow> send_pong (sc_session_id client)
       | FDisconnect \<Rightarrow> handle_client_disconnect E n d (sc_session_id client)
       | FEvent \<Rightarrow> handle_client_message E n d client (pf_event frame) (pf_data frame)
       | _ \<Rightarrow> skip))"

text \<open>The idle callback: a peer that has been silent for both intervals is disconnected.\<close>

definition check_idle :: "string \<Rightarrow> wstep" where
  "check_idle sid =
     effect (\<lambda>w. case map_of (w_activity w) sid of
         None \<Rightarrow> w
       | Some last_activity \<Rightarrow>
           if PING_INTERVAL_MS + PING_TIMEOUT_MS \<le> w_now w - last_activity
           then w\<lparr>w_ws_closed := w_ws_closed w @ [sid]\<rparr> else w)"

datatype session_event = Message bool string | IdleSecond | Elsewhere wstep

definition session_step :: "env \<Rightarrow> web \<Rightarrow> nat \<Rightarrow> nat \<Rightarrow> simple_client \<Rightarrow> session_event \<Rightarrow> wstep" where
  "session_step E W n d client ev =
     (case ev of
        Message is_binary payload \<Rightarrow> handle_ws_payload E W n d client is_binary payload
      | IdleSecond \<Rightarrow> check_idle (sc_session_id client)
      | Elsewhere f \<Rightarrow> f)"

definition close_session :: "env \<Rightarrow> nat \<Rightarrow> nat \<Rightarrow> string \<Rightarrow> wstep" where
  "close_session E n d sid =
     seq (handle_client_disconnect E n d sid)
         (effect (\<lambda>w. w\<lparr>w_activity := AList.delete sid (w_activity w)\<rparr>))"

text \<open>
  \<open>accepted\<close> tells whether the socket takes the upgrade response.  \<open>others\<close> is what the other threads do
  while an administration request waits.
\<close>

definition handle_connection ::
  "env \<Rightarrow> web \<Rightarrow> nat \<Rightarrow> nat \<Rightarrow> nat \<Rightarrow> http_request option \<Rightarrow> bool \<Rightarrow> wstep \<Rightarrow> session_event list \<Rightarrow> wstep" where
  "handle_connection E W n d q request accepted others events =
     (case request of
        None \<Rightarrow> skip
      | Some req \<Rightarrow>
          if \<not> is_blueboat_path (hr_path req) then handle_admin_request E W n d q req others
          else (case upgrade_key req of
              None \<Rightarrow> write_reply q 400 ''Bad Request'' ''text/plain'' ''Expected a WebSocket upgrade request''
            | Some key \<Rightarrow>
                if \<not> accepted then skip
                else
                  seq (effect (\<lambda>w. w\<lparr>w_raw := w_raw w @ [(q, upgrade_response W key)]\<rparr>))
                 (open_session E W q req (\<lambda>client.
                    seq (seqs (session_step E W n d client) events)
                        (close_session E n d (sc_session_id client))))))"

end
