(* ===== verification/Connection_Props.thy ===== *)
theory Connection_Props imports Connection Sio_Props Server_Props
begin

text \<open>Properties of the connection threads: how frames reach the handlers, and how a session opens and ends.\<close>

definition touched :: "string \<Rightarrow> world \<Rightarrow> world" where
  "touched sid w = (if map_of (w_activity w) sid = None then w
     else w\<lparr>w_activity := AList.update sid (w_now w) (w_activity w)\<rparr>)"

lemma touch_activity_run [simp]: "touch_activity sid w = (Normal, touched sid w)"
  by (simp add: touch_activity_def effect_def touched_def)

lemma touched_connections [simp]: "w_connections (touched sid w) = w_connections w"
  by (simp add: touched_def)

lemma payload_frame:
  assumes "parse_frame (e_json E) (wb_msgpack W) b payload = Inr f"
  shows "handle_ws_payload E W n d client b payload w =
    (case pf_kind f of FPing \<Rightarrow> send_pong (sc_session_id client)
       | FDisconnect \<Rightarrow> handle_client_disconnect E n d (sc_session_id client)
       | FEvent \<Rightarrow> handle_client_message E n d client (pf_event f) (pf_data f)
       | _ \<Rightarrow> skip) (touched (sc_session_id client) w)"
  using assms by (simp add: handle_ws_payload_def)

lemma frame_of_fields [simp]:
  "pf_kind (frame_of k) = k" "pf_event (frame_of k) = []" "pf_data (frame_of k) = JNull"
  by (simp_all add: frame_of_def frame_default_def)

subsection \<open>Opening a session\<close>

definition session_client :: "web \<Rightarrow> nat \<Rightarrow> http_request \<Rightarrow> string \<Rightarrow> string \<Rightarrow> simple_client" where
  "session_client W q req i sid =
     \<lparr>sc_id = i, sc_session_id = sid,
      sc_origin = (case map_of (hr_headers req) ''origin'' of Some v \<Rightarrow> v | None \<Rightarrow> []), sc_ip = peer_ip W q\<rparr>"

lemma open_session_run:
  assumes "map_of (parse_query (hr_query req)) ''id'' = Some i" "i \<noteq> []"
    and "build_open_frame (e_json E) (e_rid E (w_ids w)) 25000 5000 = Inr f" "build_connect_ack_frame (e_json E) = Inr g"
  shows "open_session E W q req k w = k (session_client W q req i (e_rid E (w_ids w)))
    (w\<lparr>w_ids := Suc (w_ids w),
       w_connections := AList.update (e_rid E (w_ids w)) (session_client W q req i (e_rid E (w_ids w))) (w_connections w),
       w_texts := w_texts w @ [(e_rid E (w_ids w), f), (e_rid E (w_ids w), g)],
       w_frames := w_frames w @ [(e_rid E (w_ids w), clientIdSet, JString i)],
       w_activity := AList.update (e_rid E (w_ids w)) (w_now w) (w_activity w)\<rparr>)"
  using assms
  by (simp add: open_session_def with_client_id_def random_id_def reading_def session_client_def Let_def
      send_text_def PING_INTERVAL_MS_def PING_TIMEOUT_MS_def)

subsection \<open>Properties\<close>

text \<open>C28: A message of the connection reaches the handler that its frame names: an event frame, as the other
  side builds it, is handed to \<open>handle_client_message\<close> with its event and its data, a ping of a connected
  session is answered with a pong and nothing else, and a disconnection frame runs
  \<open>handle_client_disconnect\<close>; each counts as activity of the session.\<close>

theorem payload_dispatched:
  assumes "packable v" "length ev < 2 ^ 32" "reads_back (wb_msgpack W) (pack_json (event_packet ev v))"
    and "text_safe (e_json E) (control_payload DISCONNECT)"
    and "map_of (w_connections w) (sc_session_id client) = Some c"
  shows "handle_ws_payload E W n d client True (build_event_frame (wb_msgpack W) ev v) w =
      handle_client_message E n d client ev (norm v) (touched (sc_session_id client) w) \<and>
    handle_ws_payload E W n d client False PING_PACKET w =
      (Normal, (touched (sc_session_id client) w)
         \<lparr>w_texts := w_texts (touched (sc_session_id client) w) @ [(sc_session_id client, PONG_PACKET)]\<rparr>) \<and>
    (\<exists>f. build_disconnect_frame (e_json E) = Inr f \<and>
      handle_ws_payload E W n d client False f w =
        handle_client_disconnect E n d (sc_session_id client) (touched (sc_session_id client) w))"
proof (intro conjI)
  have "decode_msgpack (wb_msgpack W) (encode_msgpack (wb_msgpack W) (event_packet ev v)) = Inr (norm (event_packet ev v))"
    using packable_event [OF assms(1,2)] assms(3) by (rule decode_encode)
  then have "parse_frame (e_json E) (wb_msgpack W) True (build_event_frame (wb_msgpack W) ev v) =
      Inr ((frame_of FEvent)\<lparr>pf_event := ev, pf_data := norm v\<rparr>)"
    by (rule event_frame_parsed)
  from payload_frame [OF this] show "handle_ws_payload E W n d client True (build_event_frame (wb_msgpack W) ev v) w =
      handle_client_message E n d client ev (norm v) (touched (sc_session_id client) w)" by simp
  have "parse_frame (e_json E) (wb_msgpack W) False PING_PACKET = Inr (frame_of FPing)"
    by (simp add: parse_frame_def parse_text_def PING_PACKET_def)
  from payload_frame [OF this] assms(5)
  show "handle_ws_payload E W n d client False PING_PACKET w = (Normal, (touched (sc_session_id client) w)
      \<lparr>w_texts := w_texts (touched (sc_session_id client) w) @ [(sc_session_id client, PONG_PACKET)]\<rparr>)"
    by (simp add: send_pong_def reading_def send_text_def effect_def)
  obtain f where f: "build_disconnect_frame (e_json E) = Inr f"
      "parse_frame (e_json E) (wb_msgpack W) False f = Inr (frame_of FDisconnect)"
    using disconnect_frame_parsed [OF assms(4)] by blast
  from f(1) payload_frame [OF f(2)]
  show "\<exists>f. build_disconnect_frame (e_json E) = Inr f \<and> handle_ws_payload E W n d client False f w =
      handle_client_disconnect E n d (sc_session_id client) (touched (sc_session_id client) w)" by auto
qed

definition wire_env :: env where
  "wire_env = demo_env\<lparr>e_json := frames_json\<rparr>"

definition wire_web :: web where
  "wire_web = \<lparr>wb_admins = [], wb_decode_block = (\<lambda>s. None), wb_encode_block = (\<lambda>s. s), wb_sha1 = (\<lambda>s. s),
     wb_msgpack = demo_msgpack (event_packet ''hello'' demo_value), wb_getpeername = (\<lambda>q. None), wb_inet_ntop = (\<lambda>a. [])\<rparr>"

theorem payload_dispatched_witness:
  "handle_ws_payload wire_env wire_web 2 1 (demo_client ''ann'') True
      (build_event_frame (wb_msgpack wire_web) ''hello'' demo_value) demo_world =
      handle_client_message wire_env 2 1 (demo_client ''ann'') ''hello'' (norm demo_value) (touched ''ann-session'' demo_world) \<and>
    handle_ws_payload wire_env wire_web 2 1 (demo_client ''ann'') False PING_PACKET demo_world =
      (Normal, (touched ''ann-session'' demo_world)
         \<lparr>w_texts := w_texts (touched ''ann-session'' demo_world) @ [(''ann-session'', PONG_PACKET)]\<rparr>) \<and>
    (\<exists>f. build_disconnect_frame (e_json wire_env) = Inr f \<and>
      handle_ws_payload wire_env wire_web 2 1 (demo_client ''ann'') False f demo_world =
        handle_client_disconnect wire_env 2 1 ''ann-session'' (touched ''ann-session'' demo_world))"
proof -
  have p: "packable demo_value"
    by (simp add: demo_value_def sorted_obj_def less_list_code less_char_def)
  have r: "reads_back (wb_msgpack wire_web) (pack_json (event_packet ''hello'' demo_value))"
    using demo_reads_back [OF packable_event [OF p]] by (simp add: wire_web_def)
  have t: "text_safe (e_json wire_env) (control_payload DISCONNECT)"
    by (simp add: wire_env_def text_safe_def frames_json_def open_payload_object control_payload_object
        sio_type_def sio_type_defs)
  have c: "map_of (w_connections demo_world) (sc_session_id (demo_client ''ann'')) = Some (demo_client ''ann'')"
    by (simp add: demo_world_def demo_client_def)
  have s: "sc_session_id (demo_client ''ann'') = ''ann-session''" by (simp add: demo_client_def)
  show ?thesis
    using payload_dispatched [OF p _ r t c] unfolding s by simp
qed

text \<open>An upgrade request for a client that names its identifier opens a session under a new session
  identifier: the connection is registered with the client's identifier, origin and address, the client
  is sent the opening frame, the acknowledgement and its identifier in this order, and when the thread
  has served no message, the end of the connection leaves the connections and the activities as they were.\<close>

theorem session_opened:
  assumes "is_blueboat_path (hr_path req)" "upgrade_key req = Some key"
    and "map_of (parse_query (hr_query req)) ''id'' = Some i" "i \<noteq> []"
    and "build_open_frame (e_json E) (e_rid E (w_ids w)) 25000 5000 = Inr f" "build_connect_ack_frame (e_json E) = Inr g"
    and "e_rid E (w_ids w) \<notin> fst ` set (w_connections w)" "e_rid E (w_ids w) \<notin> fst ` set (w_activity w)"
    and "ps_listeners (w_pubsub w) PLAYER_LEFT = []"
  shows "\<exists>w'. handle_connection E W n d q (Some req) True others [] w = (Normal, w') \<and>
    w_raw w' = w_raw w @ [(q, upgrade_response W key)] \<and>
    w_texts w' = w_texts w @ [(e_rid E (w_ids w), f), (e_rid E (w_ids w), g)] \<and>
    w_frames w' = w_frames w @ [(e_rid E (w_ids w), clientIdSet, JString i)] \<and>
    w_connections w' = w_connections w \<and> w_activity w' = w_activity w"
proof -
  let ?w = "w\<lparr>w_raw := w_raw w @ [(q, upgrade_response W key)]\<rparr>"
  have del: "AList.delete (e_rid E (w_ids w)) (AList.update (e_rid E (w_ids w)) v al) = al"
    if "e_rid E (w_ids w) \<notin> fst ` set al" for v and al :: "(string \<times> 'a) list"
    using that by (induction al) auto
  show ?thesis
    using assms(1,2,5-9)
    by (simp add: handle_connection_def open_session_run [of req i E ?w f g W q, OF assms(3,4)] close_session_def
        handle_client_disconnect_def publish_def ps_publish_seqs skip_def effect_def seq_def session_client_def del)
qed

definition upgrade_request :: http_request where
  "upgrade_request = \<lparr>hr_method = ''GET'', hr_path = ''/blueboat/'', hr_query = ''id=ann&EIO=3'',
     hr_headers = [(''upgrade'', ''websocket''), (''sec-websocket-key'', ''k'')], hr_body = []\<rparr>"

theorem session_opened_witness:
  "\<exists>w'. handle_connection (wire_env\<lparr>e_rid := \<lambda>n. ''s''\<rparr>) wire_web 2 1 7 (Some upgrade_request) True skip [] empty_world = (Normal, w') \<and>
    w_raw w' = w_raw empty_world @ [(7, upgrade_response wire_web ''k'')] \<and>
    w_texts w' = w_texts empty_world @ [(''s'', ''0open''), (''s'', ''4ack'')] \<and>
    w_frames w' = w_frames empty_world @ [(''s'', clientIdSet, JString ''ann'')] \<and>
    w_connections w' = w_connections empty_world \<and> w_activity w' = w_activity empty_world"
  using session_opened [of upgrade_request "''k''" "''ann''" "wire_env\<lparr>e_rid := \<lambda>n. ''s''\<rparr>" empty_world "''0open''" "''4ack''" wire_web 2 1 7 skip]
  by (simp add: upgrade_request_def is_blueboat_path_def upgrade_key_def header_contains_token_def to_lower_def
      parse_query_def split_at_def build_open_frame_def build_connect_ack_frame_def wire_env_def dump_def frames_json_def
      open_payload_object control_payload_object empty_world_def ps_listeners_def)

end
