(* ===== verification/Ws_Session.thy ===== *)
theory Ws_Session imports Connection_Props Ws_Props
begin

text \<open>
  The two models of a connection put together: the receive loop of \<open>WsConnection\<close>, from the bytes of the
  socket on, with the handlers of \<open>Server::handle_connection\<close>, runs what the model of the connection thread
  runs on a list of events.
\<close>

text \<open>The state of the handlers: how the thread was left, and the world.  After an exception nothing runs.\<close>

type_synonym thread = "json outcome \<times> world"

definition run :: "wstep \<Rightarrow> thread \<Rightarrow> thread" where
  "run f t = (if fst t = Normal then f (snd t) else t)"

text \<open>The events of the model that correspond to what happens in the loop.\<close>

fun event_of :: "wstep \<Rightarrow> happening \<Rightarrow> session_event" where
  "event_of f (Heard b m) = Message b m"
| "event_of f Idled = IdleSecond"
| "event_of f Other = Elsewhere f"

text \<open>
  The handlers set by \<open>handle_connection\<close>: each runs its part of the server, and may use the connection, to
  send or to close it; \<open>f\<close> is what the other threads do between two reads.
\<close>

definition serving :: "env \<Rightarrow> web \<Rightarrow> nat \<Rightarrow> nat \<Rightarrow> simple_client \<Rightarrow> wstep \<Rightarrow> happening \<Rightarrow> thread \<Rightarrow> thread" where
  "serving E W n d client f x = run (session_step E W n d client (event_of f x))"

lemma happen_serving:
  "happen (serving E W n d client f) xs t = run (seqs (session_step E W n d client) (map (event_of f) xs)) t"
proof (induction xs arbitrary: t)
  case (Cons x xs)
  then show ?case
    by (auto simp: serving_def run_def seq_def split: prod.split outcome.split)
qed (simp add: run_def skip_def prod_eq_iff)

fun messages_of :: "session_event list \<Rightarrow> (bool \<times> string) list" where
  "messages_of [] = []"
| "messages_of (Message b m # es) = (b, m) # messages_of es"
| "messages_of (IdleSecond # es) = messages_of es"
| "messages_of (Elsewhere f # es) = messages_of es"

lemma messages_of_events [simp]: "messages_of (map (event_of f) xs) = heard xs"
  by (induction xs rule: heard.induct) simp_all


text \<open>The handlers on the framing of two bytes.\<close>

definition serving_env :: "(pair_ctx, 's, thread) ws_env" where
  "serving_env =
     (let g = (\<lambda>x k. k\<lparr>cn_app := serving wire_env wire_web 2 1 (demo_client ''ann'') skip x (cn_app k)\<rparr>) in
      \<lparr>we_rd = (\<lambda>n. n), we_on_message = Some (\<lambda>b m. g (Heard b m)), we_on_close = None,
       we_on_idle = Some (g Idled), we_elsewhere = g Other\<rparr>)"

lemma serving_steady:
  "steady_handlers inp view (serving wire_env wire_web 2 1 (demo_client ''ann'') skip) serving_env"
  by (simp add: steady_handlers_def changes_def serving_env_def)


end
