(* ===== verification/Client.thy ===== *)
theory Client imports Sio Protocol Http
begin

text \<open>
  The client library (client/src/client.cpp, client/src/room.cpp and their headers): the rooms of a client, the
  table of event handlers, what is sent over the connection, and the manager loop, one connection at a
  time.  A \<open>shared_ptr<Room>\<close> is a number into \<open>cl_objects\<close>; a handler, a closure in the code, is a
  constructor with what it captured.  The callbacks of the user are outside the library: a call of one is
  recorded in \<open>cl_log\<close>.
\<close>

datatype room_event =
    JoinAttempt
  | Create string
  | Join
  | JoinError json
  | Incoming string json
  | Leave

datatype client_event =
    RoomEvent nat room_event
  | Connected
  | ConnectError json
  | Disconnected string
  | Reconnected int
  | ReconnectAttempt int
  | IdSaved string

record client_room =
  cr_id :: string
  cr_joined :: bool
  cr_options :: json

datatype client_handler =
    OnRoomError nat
  | OnRoomMessage nat
  | OnCreated nat json string
  | OnCreateError nat string

record client =
  cl_id :: string
  cl_session_id :: string
  cl_ping_interval_ms :: "32 word"
  cl_running :: bool
  cl_connected :: bool
  cl_objects :: "nat \<Rightarrow> client_room"
  cl_next_object :: nat
  cl_rooms :: "nat list"
  cl_handlers :: "(string \<times> client_handler) list"
  cl_sent :: "(string \<times> json) list"
  cl_texts :: "string list"
  cl_log :: "client_event list"
  cl_ids :: nat

type_synonym cstep = "client jstep"

text \<open>The constructor: the manager thread starts at once.\<close>

definition new_client :: "string \<Rightarrow> client" where
  "new_client persisted_id =
     \<lparr>cl_id = persisted_id, cl_session_id = [], cl_ping_interval_ms = 25000, cl_running = True, cl_connected = False,
      cl_objects = (\<lambda>_. \<lparr>cr_id = [], cr_joined = False, cr_options = JNull\<rparr>), cl_next_object = 0, cl_rooms = [],
      cl_handlers = [], cl_sent = [], cl_texts = [], cl_log = [], cl_ids = 0\<rparr>"

definition note_event :: "client_event \<Rightarrow> cstep" where
  "note_event ev = effect (\<lambda>c. c\<lparr>cl_log := cl_log c @ [ev]\<rparr>)"

definition note_room :: "nat \<Rightarrow> room_event \<Rightarrow> cstep" where
  "note_room r ev = note_event (RoomEvent r ev)"

definition change_room :: "nat \<Rightarrow> (client_room \<Rightarrow> client_room) \<Rightarrow> cstep" where
  "change_room r f = effect (\<lambda>c. c\<lparr>cl_objects := (cl_objects c)(r := f (cl_objects c r))\<rparr>)"

definition set_handler :: "string \<Rightarrow> client_handler \<Rightarrow> cstep" where
  "set_handler k h = effect (\<lambda>c. c\<lparr>cl_handlers := AList.update k h (cl_handlers c)\<rparr>)"

definition erase_handler :: "string \<Rightarrow> cstep" where
  "erase_handler k = effect (\<lambda>c. c\<lparr>cl_handlers := AList.delete k (cl_handlers c)\<rparr>)"

text \<open>The constructor of \<open>Room\<close>.\<close>

definition new_client_room :: "json \<Rightarrow> string \<Rightarrow> client_room" where
  "new_client_room opts i =
     \<lparr>cr_id = i, cr_joined = False, cr_options = (if is_null opts then empty_object else opts)\<rparr>"

definition alloc_room :: "json \<Rightarrow> string \<Rightarrow> (nat \<Rightarrow> cstep) \<Rightarrow> cstep" where
  "alloc_room opts i k = reading (\<lambda>c.
     seq (effect (\<lambda>c. c\<lparr>cl_objects := (cl_objects c)(cl_next_object c := new_client_room opts i),
                      cl_next_object := Suc (cl_next_object c)\<rparr>))
         (k (cl_next_object c)))"

subsection \<open>Sending\<close>

definition send_frame :: "string \<Rightarrow> json \<Rightarrow> cstep" where
  "send_frame event data =
     effect (\<lambda>c. if cl_connected c then c\<lparr>cl_sent := cl_sent c @ [(event, data)]\<rparr> else c)"

definition send_room_message :: "string \<Rightarrow> string \<Rightarrow> json \<Rightarrow> cstep" where
  "send_room_message room_id key data =
     send_frame sendMessage (jobj [(''room'', JString room_id), (''key'', JString key), (''data'', data)])"

text \<open>\<open>Room::send\<close>\<close>

definition room_send :: "nat \<Rightarrow> string \<Rightarrow> json \<Rightarrow> cstep" where
  "room_send r key data = reading (\<lambda>c. send_room_message (cr_id (cl_objects c r)) key data)"

definition join_message :: "string \<Rightarrow> json \<Rightarrow> json" where
  "join_message room_id opts = jobj [(''roomId'', JString room_id), (''options'', opts)]"

subsection \<open>Rooms\<close>

definition register_room_events :: "nat \<Rightarrow> cstep" where
  "register_room_events r = reading (\<lambda>c.
     seq (set_handler (cr_id (cl_objects c r) @ ''-error'') (OnRoomError r))
         (set_handler (''message-'' @ cr_id (cl_objects c r)) (OnRoomMessage r)))"

definition join_room_with :: "nat \<Rightarrow> string \<Rightarrow> json \<Rightarrow> cstep" where
  "join_room_with r room_id opts =
     seq (note_room r JoinAttempt)
    (seq (reading (\<lambda>c. if cr_joined (cl_objects c r) then skip else send_frame joinRoom (join_message room_id opts)))
         (effect (\<lambda>c. if \<exists>s \<in> set (cl_rooms c). cr_id (cl_objects c s) = room_id then c
                      else c\<lparr>cl_rooms := cl_rooms c @ [r]\<rparr>)))"

definition join_room_shared :: "string \<Rightarrow> json \<Rightarrow> nat option \<Rightarrow> (nat \<Rightarrow> cstep) \<Rightarrow> cstep" where
  "join_room_shared room_id opts existing k =
     (case existing of
        Some r \<Rightarrow> seq (join_room_with r room_id opts) (k r)
      | None \<Rightarrow> alloc_room opts room_id (\<lambda>r.
          seq (register_room_events r) (seq (join_room_with r room_id opts) (k r))))"

definition join_room :: "string \<Rightarrow> json \<Rightarrow> (nat \<Rightarrow> cstep) \<Rightarrow> cstep" where
  "join_room room_id opts k = join_room_shared room_id opts None k"

text \<open>\<open>rid i\<close> is the \<open>i\<close>-th identifier that \<open>random_id()\<close> gives the client.\<close>

definition client_create_room :: "(nat \<Rightarrow> string) \<Rightarrow> string \<Rightarrow> json \<Rightarrow> (nat \<Rightarrow> cstep) \<Rightarrow> cstep" where
  "client_create_room rid room_name opts k = reading (\<lambda>c. let uid = rid (cl_ids c) in
     seq (effect (\<lambda>c. c\<lparr>cl_ids := Suc (cl_ids c)\<rparr>))
    (alloc_room opts [] (\<lambda>r.
       seq (set_handler (uid @ ''-create'') (OnCreated r opts uid))
      (seq (set_handler (uid @ ''-error'') (OnCreateError r uid))
      (seq (send_frame createNewRoom
             (jobj [(''type'', JString room_name), (''options'', opts), (''uniqueRequestId'', JString uid)]))
           (k r))))))"

subsection \<open>Handlers\<close>

definition room_message :: "nat \<Rightarrow> json \<Rightarrow> cstep" where
  "room_message r envelope =
     (if \<not> jcontains ''key'' envelope then skip
      else from_res (rbind (jat ''key'' envelope) get_string) (\<lambda>key.
           from_res (jvalue get_json ''data'' JNull envelope) (\<lambda>data.
             if key = joinedRoom then
               seq (change_room r (\<lambda>x. x\<lparr>cr_joined := True\<rparr>)) (note_room r Join)
             else if key = removedFromRoom then
               seq (note_room r Leave) (change_room r (\<lambda>x. x\<lparr>cr_joined := False\<rparr>))
             else note_room r (Incoming key data))))"

fun run_handler :: "client_handler \<Rightarrow> json \<Rightarrow> cstep" where
  "run_handler (OnRoomError r) data = note_room r (JoinError data)"
| "run_handler (OnRoomMessage r) data = room_message r data"
| "run_handler (OnCreated r opts uid) data =
     from_res (get_string data) (\<lambda>room_id.
       seq (change_room r (\<lambda>x. x\<lparr>cr_id := room_id\<rparr>))
      (seq (register_room_events r)
      (seq (erase_handler (uid @ ''-create''))
      (seq (erase_handler (uid @ ''-error''))
      (seq (note_room r (Create room_id))
           (join_room_shared room_id opts (Some r) (\<lambda>_. skip)))))))"
| "run_handler (OnCreateError r uid) data =
     seq (note_room r (JoinError data))
    (seq (erase_handler (uid @ ''-create'')) (erase_handler (uid @ ''-error'')))"

definition rejoin :: "nat \<Rightarrow> cstep" where
  "rejoin r = reading (\<lambda>c. let x = cl_objects c r in
     if cr_id x = [] then skip else join_room_shared (cr_id x) (cr_options x) (Some r) (\<lambda>_. skip))"

definition handle_client_id_set :: "json \<Rightarrow> cstep" where
  "handle_client_id_set new_id =
     from_res (get_string new_id) (\<lambda>i.
       seq (effect (\<lambda>c. c\<lparr>cl_id := i\<rparr>))
      (seq (note_event (IdSaved i))
      (seq (reading (\<lambda>c. seqs rejoin (cl_rooms c)))
           (note_event Connected))))"

definition dispatch_event :: "string \<Rightarrow> json \<Rightarrow> cstep" where
  "dispatch_event event data =
     (if event = clientIdSet then handle_client_id_set data
      else reading (\<lambda>c. case map_of (cl_handlers c) event of
          None \<Rightarrow> skip
        | Some h \<Rightarrow> run_handler h data))"

definition client_ws_payload :: "json_lib \<Rightarrow> msgpack_lib \<Rightarrow> bool \<Rightarrow> string \<Rightarrow> cstep" where
  "client_ws_payload J M is_binary payload =
     from_res (parse_frame J M is_binary payload) (\<lambda>frame.
       if pf_kind frame = FOpen then
         effect (\<lambda>c. c\<lparr>cl_session_id := pf_sid frame, cl_ping_interval_ms := pf_ping_interval_ms frame\<rparr>)
       else if pf_kind frame \<noteq> FEvent then skip
       else dispatch_event (pf_event frame) (pf_data frame))"

subsection \<open>Connections\<close>

text \<open>\<open>disconnect\<close> before it joins the manager thread: the second call does nothing.\<close>

definition disconnect :: "cstep" where
  "disconnect = effect (\<lambda>c. c\<lparr>cl_running := False\<rparr>)"

definition leave_all :: "cstep" where
  "leave_all = reading (\<lambda>c. seqs (\<lambda>r. seq (change_room r (\<lambda>x. x\<lparr>cr_joined := False\<rparr>)) (note_room r Leave)) (cl_rooms c))"

text \<open>The upgrade request, with the identifier the client was given before, and the reading of the answer.\<close>

definition request_path :: "string \<Rightarrow> string" where
  "request_path i = ''/blueboat/?EIO=3&transport=websocket'' @ (if i = [] then [] else ''&id='' @ i)"

definition handshake_request :: "string \<Rightarrow> string \<Rightarrow> string \<Rightarrow> string" where
  "handshake_request host key i =
     ''GET '' @ request_path i @ '' HTTP/1.1'' @ crlf @ ''Host: '' @ host @ crlf @ ''Upgrade: websocket'' @ crlf @
     ''Connection: Upgrade'' @ crlf @ ''Sec-WebSocket-Key: '' @ key @ crlf @ ''Sec-WebSocket-Version: 13'' @ crlf @ crlf"

definition read_response_headers :: "'s socket_ops \<Rightarrow> 's \<Rightarrow> string \<times> 's" where
  "read_response_headers S s =
     (case read_until_double_crlf S [] s of (None, s') \<Rightarrow> ([], s') | (Some buf, s') \<Rightarrow> (buf, s'))"

definition upgrade_accepted :: "string \<Rightarrow> bool" where
  "upgrade_accepted response_headers \<longleftrightarrow>
     prefix ''HTTP/1.1 101'' response_headers \<or> prefix ''HTTP/1.0 101'' response_headers"

text \<open>
  One turn of \<open>connection_manager_loop\<close>.  An attempt fails to connect, fails to send its request, or gets
  an answer (empty when the connection ended first), while other threads may act.  When the answer accepts
  the upgrade the thread runs the receive loop, here the list of what it does until the connection ends.
  The continuation gets the attempt counter for the next turn, unless the loop was left because the client
  was stopped.
\<close>

datatype attempt_result = ConnectFailed | SendFailed | Answered string cstep "cstep list"

definition failed_attempt :: "int \<Rightarrow> string \<Rightarrow> (int \<Rightarrow> cstep) \<Rightarrow> cstep" where
  "failed_attempt attempt message k =
     seq (note_event (ConnectError (jobj [(''message'', JString message)])))
    (seq (note_event (ReconnectAttempt (attempt + 1))) (k (attempt + 1)))"

definition connection_established :: "int \<Rightarrow> cstep" where
  "connection_established attempt =
     seq (effect (\<lambda>c. c\<lparr>cl_ping_interval_ms := 25000, cl_connected := True\<rparr>))
         (reading (\<lambda>c. if 0 < attempt \<and> cl_running c then note_event (Reconnected attempt) else skip))"

text \<open>The idle callback of the receive loop, with the time of the last ping as its variable.\<close>

definition ping_when_due :: "int \<Rightarrow> int \<Rightarrow> (int \<Rightarrow> cstep) \<Rightarrow> cstep" where
  "ping_when_due now last_ping k =
     reading (\<lambda>c. if sint (cl_ping_interval_ms c) \<le> now - last_ping
       then seq (effect (\<lambda>c. c\<lparr>cl_texts := cl_texts c @ [PING_PACKET]\<rparr>)) (k now)
       else k last_ping)"

definition connection_lost :: "(int \<Rightarrow> cstep) \<Rightarrow> cstep" where
  "connection_lost k =
     seq (effect (\<lambda>c. c\<lparr>cl_connected := False\<rparr>))
         (reading (\<lambda>c. if \<not> cl_running c then skip
            else seq (note_event (Disconnected ''transport close''))
                (seq leave_all
                (seq (note_event (ReconnectAttempt 1)) (k 1)))))"

definition manager_turn :: "string \<Rightarrow> nat \<Rightarrow> int \<Rightarrow> attempt_result \<Rightarrow> (int \<Rightarrow> cstep) \<Rightarrow> cstep" where
  "manager_turn host port attempt res k =
     reading (\<lambda>c. if \<not> cl_running c then skip
       else (case res of
          ConnectFailed \<Rightarrow> failed_attempt attempt (''failed to connect to '' @ host @ '':'' @ dec port) k
        | SendFailed \<Rightarrow> failed_attempt attempt ''failed to send handshake'' k
        | Answered headers meanwhile served \<Rightarrow>
            if \<not> upgrade_accepted headers then failed_attempt attempt ''server rejected the WebSocket upgrade'' k
            else seq meanwhile (seq (connection_established attempt) (seq (seqs (\<lambda>f. f) served) (connection_lost k)))))"

primrec connection_manager_loop :: "string \<Rightarrow> nat \<Rightarrow> attempt_result list \<Rightarrow> int \<Rightarrow> cstep" where
  "connection_manager_loop host port [] attempt = skip"
| "connection_manager_loop host port (res # later) attempt =
     manager_turn host port attempt res (connection_manager_loop host port later)"

end
