(* ===== verification/Client_Props.thy ===== *)
theory Client_Props imports Client Sio_Props
begin

text \<open>Properties of the client library: what happens to its rooms when the connection is lost and made again.\<close>

subsection \<open>The loops over the rooms\<close>

definition join_frame :: "client \<Rightarrow> nat \<Rightarrow> string \<times> json" where
  "join_frame c r = (joinRoom, join_message (cr_id (cl_objects c r)) (cr_options (cl_objects c r)))"

lemma rejoin_run:
  assumes "cr_id (cl_objects c r) \<noteq> []" "\<not> cr_joined (cl_objects c r)" "cl_connected c" "r \<in> set (cl_rooms c)"
  shows "rejoin r c = (Normal, c\<lparr>cl_log := cl_log c @ [RoomEvent r JoinAttempt], cl_sent := cl_sent c @ [join_frame c r]\<rparr>)"
  using assms
  by (auto simp: rejoin_def reading_def Let_def join_room_shared_def join_room_with_def note_room_def note_event_def
      effect_def seq_def skip_def send_frame_def join_frame_def)

lemma rejoin_loop:
  "\<lbrakk>\<forall>r \<in> set rs. cr_id (cl_objects c r) \<noteq> [] \<and> \<not> cr_joined (cl_objects c r) \<and> r \<in> set (cl_rooms c); cl_connected c\<rbrakk> \<Longrightarrow>
   seqs rejoin rs c = (Normal, c\<lparr>cl_log := cl_log c @ map (\<lambda>r. RoomEvent r JoinAttempt) rs,
     cl_sent := cl_sent c @ map (join_frame c) rs\<rparr>)"
proof (induction rs arbitrary: c)
  case (Cons r rs)
  let ?c = "c\<lparr>cl_log := cl_log c @ [RoomEvent r JoinAttempt], cl_sent := cl_sent c @ [join_frame c r]\<rparr>"
  have "join_frame ?c = join_frame c" by (simp add: join_frame_def fun_eq_iff)
  moreover have "rejoin r c = (Normal, ?c)" using Cons.prems by (intro rejoin_run) auto
  moreover have "seqs rejoin rs ?c = (Normal, ?c\<lparr>cl_log := cl_log ?c @ map (\<lambda>r. RoomEvent r JoinAttempt) rs,
     cl_sent := cl_sent ?c @ map (join_frame ?c) rs\<rparr>)"
    using Cons.prems by (intro Cons.IH) auto
  ultimately show ?case by simp
qed (simp add: skip_def)

text \<open>After \<open>leave_all\<close> the rooms are as before, except that none of them is joined.\<close>

definition left_rooms :: "nat list \<Rightarrow> (nat \<Rightarrow> client_room) \<Rightarrow> nat \<Rightarrow> client_room" where
  "left_rooms rs f r = (if r \<in> set rs then (f r)\<lparr>cr_joined := False\<rparr> else f r)"

lemma left_rooms_fields [simp]:
  "cr_id (left_rooms rs f r) = cr_id (f r)" "cr_options (left_rooms rs f r) = cr_options (f r)"
  "cr_joined (left_rooms rs f r) \<longleftrightarrow> r \<notin> set rs \<and> cr_joined (f r)"
  by (simp_all add: left_rooms_def)

lemma leave_loop:
  "seqs (\<lambda>r. seq (change_room r (\<lambda>x. x\<lparr>cr_joined := False\<rparr>)) (note_room r Leave)) rs c =
   (Normal, c\<lparr>cl_objects := left_rooms rs (cl_objects c), cl_log := cl_log c @ map (\<lambda>r. RoomEvent r Leave) rs\<rparr>)"
proof (induction rs arbitrary: c)
  case (Cons r rs)
  have "left_rooms (r # rs) f = left_rooms rs (f(r := (f r)\<lparr>cr_joined := False\<rparr>))" for f
    by (auto simp: left_rooms_def fun_eq_iff)
  with Cons show ?case
    by (simp add: seq_def change_room_def note_room_def note_event_def effect_def)
next
  case Nil
  have "left_rooms [] f = f" for f by (simp add: left_rooms_def fun_eq_iff)
  then show ?case by (simp add: skip_def)
qed

lemma leave_all_run:
  "leave_all c = (Normal, c\<lparr>cl_objects := left_rooms (cl_rooms c) (cl_objects c),
     cl_log := cl_log c @ map (\<lambda>r. RoomEvent r Leave) (cl_rooms c)\<rparr>)"
  by (simp add: leave_all_def reading_def leave_loop)

lemma connection_lost_run:
  "cl_running c \<Longrightarrow> connection_lost k c = k 1 (c\<lparr>cl_connected := False,
     cl_objects := left_rooms (cl_rooms c) (cl_objects c),
     cl_log := cl_log c @ [Disconnected ''transport close''] @ map (\<lambda>r. RoomEvent r Leave) (cl_rooms c) @ [ReconnectAttempt 1]\<rparr>)"
  by (simp add: connection_lost_def reading_def note_event_def effect_def seq_def leave_all_run)

lemma connection_established_run:
  "connection_established n c = (Normal, c\<lparr>cl_ping_interval_ms := 25000, cl_connected := True,
     cl_log := cl_log c @ (if 0 < n \<and> cl_running c then [Reconnected n] else [])\<rparr>)"
  by (simp add: connection_established_def reading_def note_event_def effect_def seq_def skip_def)

definition after_loss :: "client \<Rightarrow> client" where
  "after_loss c = c\<lparr>cl_connected := False, cl_objects := left_rooms (cl_rooms c) (cl_objects c),
     cl_log := cl_log c @ [Disconnected ''transport close''] @ map (\<lambda>r. RoomEvent r Leave) (cl_rooms c) @ [ReconnectAttempt 1]\<rparr>"

lemma manager_turn_upgraded:
  assumes "cl_running c" "seqs (\<lambda>f. f) served (snd (connection_established attempt c)) = (Normal, c1)" "cl_running c1"
    and "upgrade_accepted headers"
  shows "manager_turn host port attempt (Answered headers skip served) k c = k 1 (after_loss c1)"
  using assms
  by (simp add: manager_turn_def reading_def connection_established_run seq_def connection_lost_run after_loss_def)

lemma client_id_set_run:
  assumes "\<forall>r \<in> set (cl_rooms c). cr_id (cl_objects c r) \<noteq> [] \<and> \<not> cr_joined (cl_objects c r)" "cl_connected c"
  shows "handle_client_id_set (JString i) c = (Normal, c\<lparr>cl_id := i,
     cl_log := cl_log c @ [IdSaved i] @ map (\<lambda>r. RoomEvent r JoinAttempt) (cl_rooms c) @ [Connected],
     cl_sent := cl_sent c @ map (join_frame c) (cl_rooms c)\<rparr>)"
proof -
  let ?c = "c\<lparr>cl_id := i, cl_log := cl_log c @ [IdSaved i]\<rparr>"
  have "join_frame ?c = join_frame c" by (simp add: join_frame_def fun_eq_iff)
  moreover have "seqs rejoin (cl_rooms ?c) ?c = (Normal, ?c\<lparr>cl_log := cl_log ?c @ map (\<lambda>r. RoomEvent r JoinAttempt) (cl_rooms ?c),
     cl_sent := cl_sent ?c @ map (join_frame ?c) (cl_rooms ?c)\<rparr>)"
    using assms by (intro rejoin_loop) auto
  ultimately show ?thesis
    by (simp add: handle_client_id_set_def note_event_def effect_def seq_def reading_def)
qed

lemma event_payload_run:
  assumes "packable d" "length ev < 2 ^ 32" "reads_back M (pack_json (event_packet ev d))"
  shows "client_ws_payload J M True (build_event_frame M ev d) c = dispatch_event ev (norm d) c"
proof -
  have "parse_frame J M True (build_event_frame M ev d) = Inr ((frame_of FEvent)\<lparr>pf_event := ev, pf_data := norm d\<rparr>)"
    by (rule event_frame_parsed [OF decode_encode [OF packable_event [OF assms(1,2)] assms(3)]])
  then show ?thesis by (simp add: client_ws_payload_def frame_of_def)
qed

lemma removed_from_room_run:
  "room_message r (jobj [(''key'', JString removedFromRoom)]) c =
   (Normal, c\<lparr>cl_objects := (cl_objects c)(r := (cl_objects c r)\<lparr>cr_joined := False\<rparr>),
              cl_log := cl_log c @ [RoomEvent r Leave]\<rparr>)"
  by (simp add: room_message_def json_access note_room_def note_event_def change_room_def effect_def seq_def
      joinedRoom_def removedFromRoom_def)

subsection \<open>Properties\<close>

text \<open>C30: When the connection is lost and made again, the client asks to join every room in its list again,
  in their order and with their options, as soon as the server has sent it its identifier; the list also
  holds the rooms that the server has removed the client from, because a removal does not shorten it.\<close>

theorem reconnect_rejoins_rooms:
  assumes "cl_running c" "seqs (\<lambda>f. f) served (snd (connection_established attempt c)) = (Normal, c1)" "cl_running c1"
    and "\<forall>r \<in> set (cl_rooms c1). cr_id (cl_objects c1 r) \<noteq> []"
    and "length i < 2 ^ 32" "reads_back M (pack_json (event_packet clientIdSet (JString i)))" "upgrade_accepted headers"
  shows "(\<exists>c2. connection_manager_loop host port
      [Answered headers skip served, Answered headers skip [client_ws_payload J M True (build_event_frame M clientIdSet (JString i))]] attempt c = (Normal, c2) \<and>
      cl_id c2 = i \<and> cl_rooms c2 = cl_rooms c1 \<and> cl_sent c2 = cl_sent c1 @ map (join_frame c1) (cl_rooms c1)) \<and>
    cl_rooms (snd (room_message r (jobj [(''key'', JString removedFromRoom)]) c1)) = cl_rooms c1"
proof -
  let ?c2 = "snd (connection_established 1 (after_loss c1))"
  let ?pay = "client_ws_payload J M True (build_event_frame M clientIdSet (JString i))"
  have c2: "cl_running ?c2" "cl_connected ?c2" "cl_rooms ?c2 = cl_rooms c1" "cl_sent ?c2 = cl_sent c1"
    "cl_objects ?c2 = left_rooms (cl_rooms c1) (cl_objects c1)"
    using assms(3) by (simp_all add: connection_established_run after_loss_def)
  have jf: "join_frame ?c2 = join_frame c1" by (simp add: join_frame_def fun_eq_iff c2)
  have "?pay ?c2 = handle_client_id_set (JString i) ?c2"
    using event_payload_run [of "JString i" clientIdSet M J ?c2] assms(5,6)
    by (simp add: dispatch_event_def clientIdSet_def)
  then obtain c3 where c3: "?pay ?c2 = (Normal, c3)" "cl_running c3" "cl_id c3 = i" "cl_rooms c3 = cl_rooms c1"
      "cl_sent c3 = cl_sent c1 @ map (join_frame c1) (cl_rooms c1)"
    using client_id_set_run [of ?c2 i] assms(4) c2 by (simp add: jf)
  have "seqs (\<lambda>f. f) [?pay] ?c2 = (Normal, c3)" using c3(1) by simp
  from manager_turn_upgraded [OF _ this c3(2) assms(7)] assms(3)
  have "connection_manager_loop host port [Answered headers skip [?pay]] 1 (after_loss c1) = (Normal, after_loss c3)"
    by (simp add: after_loss_def skip_def)
  with manager_turn_upgraded [OF assms(1-3,7)]
  have "connection_manager_loop host port [Answered headers skip served, Answered headers skip [?pay]] attempt c =
      (Normal, after_loss c3)" by simp
  with c3 show ?thesis by (simp add: after_loss_def removed_from_room_run)
qed

text \<open>A client that has joined one room and was removed from another.\<close>

definition demo_user :: client where
  "demo_user = \<lparr>cl_id = ''ann'', cl_session_id = ''s'', cl_ping_interval_ms = 25000, cl_running = True, cl_connected = False,
     cl_objects = (\<lambda>r. \<lparr>cr_id = (if r = 0 then ''lobby'' else ''attic''), cr_joined = (r = 0), cr_options = empty_object\<rparr>),
     cl_next_object = 2, cl_rooms = [0, 1], cl_handlers = [], cl_sent = [], cl_texts = [], cl_log = [], cl_ids = 0\<rparr>"

theorem reconnect_rejoins_rooms_witness:
  "(\<exists>c2. connection_manager_loop ''localhost'' 8080
      [Answered ''HTTP/1.1 101'' skip [], Answered ''HTTP/1.1 101'' skip [client_ws_payload frames_json (demo_msgpack (event_packet clientIdSet (JString ''ann''))) True
         (build_event_frame (demo_msgpack (event_packet clientIdSet (JString ''ann''))) clientIdSet (JString ''ann''))]] 0 demo_user = (Normal, c2) \<and>
      cl_id c2 = ''ann'' \<and> cl_rooms c2 = [0, 1] \<and>
      cl_sent c2 = [(joinRoom, join_message ''lobby'' empty_object), (joinRoom, join_message ''attic'' empty_object)]) \<and>
    cl_rooms (snd (room_message 0 (jobj [(''key'', JString removedFromRoom)]) (snd (connection_established 0 demo_user)))) = [0, 1]"
proof -
  have r: "reads_back (demo_msgpack (event_packet clientIdSet (JString ''ann''))) (pack_json (event_packet clientIdSet (JString ''ann'')))"
    by (rule demo_reads_back, rule packable_event) (simp_all add: clientIdSet_def)
  have d: "cl_running demo_user"
    "seqs (\<lambda>f. f) [] (snd (connection_established 0 demo_user)) = (Normal, snd (connection_established 0 demo_user))"
    "cl_running (snd (connection_established 0 demo_user))"
    "\<forall>r \<in> set (cl_rooms (snd (connection_established 0 demo_user))). cr_id (cl_objects (snd (connection_established 0 demo_user)) r) \<noteq> []"
    by (simp_all add: connection_established_run demo_user_def skip_def)
  have f: "cl_rooms (snd (connection_established 0 demo_user)) = [0, 1]" "cl_sent (snd (connection_established 0 demo_user)) = []"
    "cl_objects (snd (connection_established 0 demo_user)) = cl_objects demo_user"
    by (simp_all add: connection_established_run demo_user_def)
  show ?thesis
    using reconnect_rejoins_rooms [OF d _ r, of "''HTTP/1.1 101''" "''localhost''" 8080 frames_json 0]
    by (simp add: f join_frame_def upgrade_accepted_def) (simp add: demo_user_def)
qed

subsection \<open>Requests made before the server has sent the identifier\<close>

text \<open>C31: A room that the user creates while the client is not connected is never made.  The request is dropped, and
  unlike a join it is not made again: when the client is connected and has got its identifier, it asks for the
  rooms it had before and for nothing else, and the handlers of the request stay in the table for ever.\<close>

theorem offline_create_is_lost:
  assumes "\<not> cl_connected c" "\<forall>r \<in> set (cl_rooms c). r < cl_next_object c"
    and "\<forall>r \<in> set (cl_rooms c). cr_id (cl_objects c r) \<noteq> [] \<and> \<not> cr_joined (cl_objects c r)"
  shows "\<exists>c1 c2. client_create_room rid name opts (\<lambda>_. skip) c = (Normal, c1) \<and>
    seq (connection_established attempt) (handle_client_id_set (JString i)) c1 = (Normal, c2) \<and>
    cl_sent c2 = cl_sent c @ map (join_frame c) (cl_rooms c) \<and> cl_rooms c2 = cl_rooms c \<and>
    map_of (cl_handlers c2) (rid (cl_ids c) @ ''-create'') = Some (OnCreated (cl_next_object c) opts (rid (cl_ids c)))"
proof -
  let ?uid = "rid (cl_ids c)" and ?r = "cl_next_object c"
  obtain c1 where c1: "client_create_room rid name opts (\<lambda>_. skip) c = (Normal, c1)"
      "cl_sent c1 = cl_sent c" "cl_rooms c1 = cl_rooms c" "cl_objects c1 = (cl_objects c)(?r := new_client_room opts [])"
      "map_of (cl_handlers c1) (?uid @ ''-create'') = Some (OnCreated ?r opts ?uid)"
    using assms(1) by (simp add: client_create_room_def reading_def alloc_room_def set_handler_def send_frame_def
        effect_def seq_def skip_def Let_def update_conv')
  let ?c = "snd (connection_established attempt c1)"
  have est: "connection_established attempt c1 = (Normal, ?c)" "cl_connected ?c" "cl_rooms ?c = cl_rooms c1"
    "cl_objects ?c = cl_objects c1" "cl_sent ?c = cl_sent c1" "cl_handlers ?c = cl_handlers c1"
    by (simp_all add: connection_established_run)
  have same: "cl_objects ?c r = cl_objects c r" if "r \<in> set (cl_rooms c)" for r
    using that assms(2) est c1 by fastforce
  have "map (join_frame ?c) (cl_rooms c) = map (join_frame c) (cl_rooms c)"
    using same by (simp add: join_frame_def)
  moreover have "\<forall>r \<in> set (cl_rooms ?c). cr_id (cl_objects ?c r) \<noteq> [] \<and> \<not> cr_joined (cl_objects ?c r)"
    using assms(3) same est c1 by simp
  from client_id_set_run [OF this est(2), of i] obtain c2 where "handle_client_id_set (JString i) ?c = (Normal, c2)"
      "cl_sent c2 = cl_sent ?c @ map (join_frame ?c) (cl_rooms ?c)" "cl_rooms c2 = cl_rooms ?c" "cl_handlers c2 = cl_handlers ?c"
    by simp
  ultimately show ?thesis using c1 est by auto
qed

theorem offline_create_is_lost_witness:
  "\<exists>c1 c2. client_create_room (\<lambda>n. ''q'') ''Chat'' JNull (\<lambda>_. skip) (new_client ''ann'') = (Normal, c1) \<and>
    seq (connection_established 0) (handle_client_id_set (JString ''ann'')) c1 = (Normal, c2) \<and> cl_sent c2 = [] \<and>
    map_of (cl_handlers c2) ''q-create'' = Some (OnCreated 0 JNull ''q'')"
  using offline_create_is_lost [of "new_client ''ann''" "\<lambda>n. ''q''" "''Chat''" JNull 0 "''ann''"]
  by (fastforce simp: new_client_def)

text \<open>C32: A join that the user asks for between the connection and the identifier is sent twice: once at once, and
  once more when the identifier arrives, because the room is not joined yet and is in the list by then.  The
  server enters the client twice (\<open>double_join_leaves_ghost\<close>).\<close>

theorem early_join_sent_twice:
  assumes "cl_connected c" "i \<noteq> []" "\<forall>r \<in> set (cl_rooms c). r < cl_next_object c"
    and "\<forall>r \<in> set (cl_rooms c). cr_id (cl_objects c r) \<notin> {[], i} \<and> \<not> cr_joined (cl_objects c r)"
  shows "\<exists>c1 c2. join_room i opts (\<lambda>_. skip) c = (Normal, c1) \<and> handle_client_id_set (JString x) c1 = (Normal, c2) \<and>
    cl_sent c2 = cl_sent c @ [(joinRoom, join_message i opts)] @ map (join_frame c) (cl_rooms c) @
      [(joinRoom, join_message i (if is_null opts then empty_object else opts))]"
proof -
  let ?r = "cl_next_object c"
  have none: "\<not> (\<exists>s \<in> set (cl_rooms c). cr_id (((cl_objects c)(?r := new_client_room opts i)) s) = i)"
    using assms(3,4) by fastforce
  obtain c1 where c1: "join_room i opts (\<lambda>_. skip) c = (Normal, c1)" "cl_sent c1 = cl_sent c @ [(joinRoom, join_message i opts)]"
      "cl_rooms c1 = cl_rooms c @ [?r]" "cl_objects c1 = (cl_objects c)(?r := new_client_room opts i)" "cl_connected c1"
    using assms(1) none by (simp add: join_room_def join_room_shared_def alloc_room_def register_room_events_def set_handler_def
        join_room_with_def note_room_def note_event_def send_frame_def reading_def effect_def seq_def skip_def new_client_room_def)
  have same: "cl_objects c1 r = cl_objects c r" if "r \<in> set (cl_rooms c)" for r
    using that assms(3) c1(4) by fastforce
  have new: "cr_id (cl_objects c1 ?r) = i" "\<not> cr_joined (cl_objects c1 ?r)"
    "cr_options (cl_objects c1 ?r) = (if is_null opts then empty_object else opts)"
    by (simp_all add: c1(4) new_client_room_def)
  have "map (join_frame c1) (cl_rooms c) = map (join_frame c) (cl_rooms c)" using same by (simp add: join_frame_def)
  moreover have "\<forall>r \<in> set (cl_rooms c1). cr_id (cl_objects c1 r) \<noteq> [] \<and> \<not> cr_joined (cl_objects c1 r)"
    using assms(2,4) same new c1(3) by auto
  from client_id_set_run [OF this c1(5), of x] obtain c2 where "handle_client_id_set (JString x) c1 = (Normal, c2)"
      "cl_sent c2 = cl_sent c1 @ map (join_frame c1) (cl_rooms c1)" by simp
  ultimately show ?thesis using c1 new by (auto simp: join_frame_def)
qed

theorem early_join_sent_twice_witness:
  "\<exists>c1 c2. join_room ''lobby'' empty_object (\<lambda>_. skip) ((new_client [])\<lparr>cl_connected := True\<rparr>) = (Normal, c1) \<and>
    handle_client_id_set (JString ''ann'') c1 = (Normal, c2) \<and>
    cl_sent c2 = [(joinRoom, join_message ''lobby'' empty_object), (joinRoom, join_message ''lobby'' empty_object)]"
  using early_join_sent_twice [of "(new_client [])\<lparr>cl_connected := True\<rparr>" "''lobby''" empty_object "''ann''"]
  by (simp add: new_client_def)

end
