(* ===== verification/End_To_End.thy ===== *)
theory End_To_End imports Server_Props Client
begin

text \<open>
  The client library and the server together: the frames of one side are the messages of the other, and a
  room that a client asks for ends up created, joined and known by the same identifier on both sides.
\<close>

text \<open>The virtual methods of \<open>Room\<close> that a class does not override do nothing.\<close>

definition default_hooks :: hooks where
  "default_hooks = \<lparr>hk_create = (\<lambda>_. []), hk_can_join = (\<lambda>_ _. []), hk_join = (\<lambda>_ _. []), hk_message = (\<lambda>_ _ _. []),
     hk_leave = (\<lambda>_ _. []), hk_before_dispose = [], hk_dispose = [], hk_external = (\<lambda>_ _. []),
     hk_join_cb = (\<lambda>_ _. []), hk_leave_cb = (\<lambda>_ _ _. [])\<rparr>"

text \<open>
  A frame that one side has sent reaches the other in normal form (\<open>event_frame_roundtrip\<close>), at the handler
  of its connection (\<open>payload_dispatched\<close>, \<open>session_refines_stream\<close>).
\<close>

definition to_server :: "env \<Rightarrow> nat \<Rightarrow> nat \<Rightarrow> simple_client \<Rightarrow> string \<times> json \<Rightarrow> wstep" where
  "to_server E n d client f = handle_client_message E n d client (fst f) (norm (snd f))"

definition to_client :: "string \<times> string \<times> json \<Rightarrow> cstep" where
  "to_client f = dispatch_event (fst (snd f)) (norm (snd (snd f)))"

subsection \<open>The client's side\<close>

definition create_request :: "string \<Rightarrow> json \<Rightarrow> string \<Rightarrow> json" where
  "create_request name opts uid =
     jobj [(''type'', JString name), (''options'', opts), (''uniqueRequestId'', JString uid)]"

lemma norm_create_request: "norm (create_request name opts uid) = create_request name (norm opts) uid"
  by (simp add: create_request_def jobj_def)

lemma norm_join_message: "norm (join_message i opts) = join_message i (norm opts)"
  by (simp add: join_message_def jobj_def)

lemma client_asks:
  assumes "cl_connected c"
  shows "\<exists>c1. client_create_room rid name opts (\<lambda>_. skip) c = (Normal, c1) \<and>
    cl_sent c1 = cl_sent c @ [(createNewRoom, create_request name opts (rid (cl_ids c)))] \<and> cl_connected c1 \<and>
    cl_objects c1 = (cl_objects c)(cl_next_object c := new_client_room opts []) \<and>
    cl_rooms c1 = cl_rooms c \<and> cl_log c1 = cl_log c \<and>
    map_of (cl_handlers c1) (rid (cl_ids c) @ ''-create'') = Some (OnCreated (cl_next_object c) opts (rid (cl_ids c)))"
  using assms
  by (simp add: client_create_room_def alloc_room_def set_handler_def send_frame_def create_request_def
      reading_def effect_def seq_def skip_def Let_def update_conv')

lemma not_id_set: "x @ ''-create'' \<noteq> clientIdSet" "''message-'' @ x \<noteq> clientIdSet"
proof -
  have "last (x @ ''-create'') \<noteq> last clientIdSet" by (simp add: clientIdSet_def)
  then show "x @ ''-create'' \<noteq> clientIdSet" by metis
qed (simp add: clientIdSet_def)

lemma client_is_told:
  assumes c: "cl_connected c" "cl_objects c o1 = new_client_room opts []"
    and h: "map_of (cl_handlers c) (uid @ ''-create'') = Some (OnCreated o1 opts uid)"
    and new: "\<forall>s \<in> set (cl_rooms c). s \<noteq> o1 \<and> cr_id (cl_objects c s) \<noteq> i" and l: "length uid = length i"
  shows "\<exists>c1. dispatch_event (uid @ ''-create'') (JString i) c = (Normal, c1) \<and>
    cl_sent c1 = cl_sent c @ [(joinRoom, join_message i opts)] \<and>
    cl_objects c1 o1 = (new_client_room opts [])\<lparr>cr_id := i\<rparr> \<and> cl_rooms c1 = cl_rooms c @ [o1] \<and>
    cl_log c1 = cl_log c @ [RoomEvent o1 (Create i), RoomEvent o1 JoinAttempt] \<and>
    map_of (cl_handlers c1) (''message-'' @ i) = Some (OnRoomMessage o1)"
proof -
  have "length (''message-'' @ i) \<noteq> length (uid @ ''-create'')" "length (''message-'' @ i) \<noteq> length (uid @ ''-error'')"
    using l by simp_all
  then have ne: "''message-'' @ i \<noteq> uid @ ''-create''" "''message-'' @ i \<noteq> uid @ ''-error''" by metis+
  have "\<not> (\<exists>s \<in> set (cl_rooms c). cr_id (((cl_objects c)(o1 := (cl_objects c o1)\<lparr>cr_id := i\<rparr>)) s) = i)"
    using new by auto
  then show ?thesis
    using c h ne not_id_set(1) [of uid]
    by (simp add: dispatch_event_def change_room_def register_room_events_def set_handler_def erase_handler_def
        note_room_def note_event_def join_room_shared_def join_room_with_def send_frame_def new_client_room_def
        reading_def effect_def seq_def skip_def update_conv' delete_conv')
qed

lemma client_joins:
  assumes "map_of (cl_handlers c) (''message-'' @ i) = Some (OnRoomMessage o1)"
  shows "\<exists>c1. dispatch_event (''message-'' @ i) (jobj [(''key'', JString joinedRoom), (''data'', JNull)]) c = (Normal, c1) \<and>
    cl_sent c1 = cl_sent c \<and> cl_rooms c1 = cl_rooms c \<and> cl_log c1 = cl_log c @ [RoomEvent o1 Join] \<and>
    cl_objects c1 o1 = (cl_objects c o1)\<lparr>cr_joined := True\<rparr>"
  using assms not_id_set(2) [of i]
  by (simp add: dispatch_event_def room_message_def json_access change_room_def note_room_def note_event_def
      reading_def effect_def seq_def joinedRoom_def removedFromRoom_def)

subsection \<open>The server's side\<close>

lemma request_fields:
  "is_object (create_request name opts uid)"
  "jvalue get_string ''uniqueRequestId'' [] (create_request name opts uid) = Inr uid"
  "jvalue get_string ''type'' [] (create_request name opts uid) = Inr name"
  "jvalue get_json ''options'' empty_object (create_request name opts uid) = Inr opts"
  "is_object (join_message i opts)"
  "jvalue get_string ''roomId'' [] (join_message i opts) = Inr i"
  "jvalue get_json ''options'' empty_object (join_message i opts) = Inr opts"
  by (simp_all add: create_request_def join_message_def json_access)

lemma server_creates:
  assumes reg: "map_of (w_registered w) name = Some ropts" and gen: "e_idgen E = None"
    and i: "e_rid E (w_ids w) \<notin> set (stored_ids w)" "e_rid E (w_ids w) \<noteq> []"
    and h: "e_hooks E name = default_hooks" and new: "unknown (w_next_room w) w"
    and st: "text_safe (e_json E) (snapshot_to_json (fresh_snapshot (e_rid E (w_ids w)) name client w))"
      "mem_good (w_storage w)" "map_of (w_managing w) (e_rid E (w_ids w)) = None"
    and conn: "map_of (w_connections w) (sc_session_id client) = Some conn" and ne: "name \<noteq> []" "uid \<noteq> []"
  obtains w1 where "handle_client_message E n d client createNewRoom (create_request name opts uid) w = (Normal, w1)"
    "created E (w_next_room w) (e_rid E (w_ids w)) name client w w1"
    "w_frames w1 = w_frames w @ [(sc_session_id client, uid @ ''-create'', JString (e_rid E (w_ids w)))]"
proof -
  let ?i = "e_rid E (w_ids w)" and ?a = "w_next_room w"
  let ?k = "\<lambda>a. with_room a (\<lambda>r. send_frame_to_client (sc_session_id client) (uid @ ''-create'') (JString (rm_id r)))"
  have q: "quiet_prog (hk_create (e_hooks E name) ropts)" by (simp add: h default_hooks_def quiet_prog_def)
  obtain u where u: "create_new_room E n client name opts [] ?k w = ?k ?a u" "created E ?a ?i name client w u"
      "w_frames u = w_frames w"
    by (rule create_quiet [where n = n and k = ?k and creator = opts,
          OF reg choose_random_id [OF gen i] q new st]) (simp_all add: h default_hooks_def)
  let ?u = "u\<lparr>w_frames := w_frames w @ [(sc_session_id client, uid @ ''-create'', JString ?i)]\<rparr>"
  obtain r where r: "w_rooms u ?a = Some r" "rm_id r = ?i" and c: "w_connections u = w_connections w"
    using u(2) by (auto simp: created_def)
  then have "?k ?a u = (Normal, ?u)"
    using conn u(3) by (simp add: send_frame_to_client_def reading_def effect_def)
  then have "handle_client_message E n d client createNewRoom (create_request name opts uid) w = (Normal, ?u)"
    using u(1) ne by (simp add: handle_client_message_def handle_create_def request_fields catch_std_def)
  moreover have "created E ?a ?i name client w ?u" using u(2) by simp
  ultimately show thesis by (rule that) simp
qed

lemma server_joins:
  assumes r: "w_rooms w a = Some r" "rm_id r = i" "cb_entries (rm_join_listeners r) = []"
    and h: "e_hooks E (rm_type r) = default_hooks" and i: "i \<noteq> []"
    and f: "find_room_by_id (sops w) (e_json E) (w_storage w) i = Inr snap"
    and l: "map ls_handler (ps_listeners (w_pubsub w) i) = [GameMessage a]"
    and conn: "map_of (w_connections w) (sc_session_id client) = Some conn"
  obtains w1 r1 where "handle_client_message E n (Suc d) client joinRoom (join_message i opts) w = (Normal, w1)"
    "w_rooms w1 a = Some r1" "rm_clients r1 = rm_clients r @ [client]" "rm_id r1 = i"
    "rm_owner r1 = (if sc_id (rm_owner r) \<noteq> [] \<and> sc_id client = sc_id (rm_owner r)
       then (rm_owner r)\<lparr>sc_session_id := sc_session_id client\<rparr> else rm_owner r)"
    "w_frames w1 = w_frames w @
       [(sc_session_id client, ''message-'' @ i, jobj [(''key'', JString joinedRoom), (''data'', JNull)])]"
proof -
  obtain x where x: "ps_listeners (w_pubsub w) i = [x]" "ls_handler x = GameMessage a"
    using l by (cases "ps_listeners (w_pubsub w) i") auto
  let ?r = "r\<lparr>rm_clients := rm_clients r @ [client]\<rparr>"
  let ?r1 = "if sc_id (rm_owner r) \<noteq> [] \<and> sc_id client = sc_id (rm_owner r)
      then ?r\<lparr>rm_owner := (rm_owner r)\<lparr>sc_session_id := sc_session_id client\<rparr>\<rparr> else ?r"
  let ?fs = "w_frames w @ [(sc_session_id client, ''message-'' @ i, jobj [(''key'', JString joinedRoom), (''data'', JNull)])]"
  let ?w1 = "w\<lparr>w_log := w_log w @ [(a, CanClientJoin), (a, OnJoin)], w_rooms := (w_rooms w)(a \<mapsto> ?r1), w_frames := ?fs\<rparr>"
  have "join_request E n a client opts w = (Normal, ?w1)"
    using r h conn
    by (simp add: join_request_def add_client_def client_has_joined_def catch_std_def log_hook_def default_hooks_def
        client_send_def send_frame_to_client_def cb_call_def get_join_def reading_def effect_def seq_def skip_def)
  moreover have "game_message E n pub a (join_payload client opts) = join_request E n a client opts" for pub
    by (simp add: game_message_def join_payload_def json_access joinRoom_def REQUEST_INFO_def EXTERNAL_MESSAGE_def)
  ultimately have "publish E n (Suc d) i (join_payload client opts) w = (Normal, ?w1)"
    using x by (simp add: publish_def ps_publish_seqs)
  then have "handle_client_message E n (Suc d) client joinRoom (join_message i opts) w = (Normal, ?w1)"
    using f i by (simp add: handle_client_message_def handle_join_def request_fields joinRoom_def createNewRoom_def
        catch_std_def reading_def skip_def seq_def)
  then show thesis by (rule that [of ?w1 ?r1]) (use r in simp_all)
qed

subsection \<open>The exchange\<close>

text \<open>C12: A room asked for is created and joined.  When a connected client calls \<open>create_room\<close> for a
  registered class with the default hooks, each side sends exactly the frames the other waits for: the
  request, the identifier, the join, the confirmation.  In the end the client's room has the identifier of
  the server's room and is joined, and the server's room has the client as owner and only member.\<close>

theorem create_room_end_to_end:
  fixes c :: client and w :: world
  assumes names: "uid = rid (cl_ids c)" "o1 = cl_next_object c" "i = e_rid E (w_ids w)" "a = w_next_room w"
    and "cl_connected c" "\<forall>s \<in> set (cl_rooms c). s \<noteq> o1 \<and> cr_id (cl_objects c s) \<noteq> i"
    and "map_of (w_registered w) name = Some ropts" "e_hooks E name = default_hooks" "e_idgen E = None" "name \<noteq> []"
    and "i \<notin> set (stored_ids w)" "i \<noteq> []" "i \<noteq> PLAYER_LEFT" "length uid = length i"
    and "unknown a w" "ps_listeners (w_pubsub w) i = []" "map_of (w_managing w) i = None" "mem_good (w_storage w)"
    and "text_safe (e_json E) (snapshot_to_json (fresh_snapshot i name client w))"
    and "map_of (w_connections w) (sc_session_id client) = Some conn"
  shows "\<exists>c1 f1 w1 g1 c2 f2 w2 g2 c3 r.
    client_create_room rid name opts (\<lambda>_. skip) c = (Normal, c1) \<and> cl_sent c1 = cl_sent c @ [f1] \<and>
    to_server E n (Suc d) client f1 w = (Normal, w1) \<and> w_frames w1 = w_frames w @ [g1] \<and>
    to_client g1 c1 = (Normal, c2) \<and> cl_sent c2 = cl_sent c1 @ [f2] \<and>
    to_server E n (Suc d) client f2 w1 = (Normal, w2) \<and> w_frames w2 = w_frames w1 @ [g2] \<and>
    to_client g2 c2 = (Normal, c3) \<and> cl_sent c3 = cl_sent c2 \<and>
    fst g1 = sc_session_id client \<and> fst g2 = sc_session_id client \<and>
    cr_id (cl_objects c3 o1) = i \<and> cr_joined (cl_objects c3 o1) \<and> cl_rooms c3 = cl_rooms c @ [o1] \<and>
    cl_log c3 = cl_log c @ [RoomEvent o1 (Create i), RoomEvent o1 JoinAttempt, RoomEvent o1 Join] \<and>
    w_rooms w2 a = Some r \<and> rm_id r = i \<and> rm_clients r = [client] \<and> rm_owner r = client"
proof -
  have uid: "uid \<noteq> []" using assms(12,14) by auto
  obtain c1 where c1: "client_create_room rid name opts (\<lambda>_. skip) c = (Normal, c1)"
      "cl_sent c1 = cl_sent c @ [(createNewRoom, create_request name opts uid)]" "cl_connected c1"
      "cl_objects c1 = (cl_objects c)(o1 := new_client_room opts [])" "cl_rooms c1 = cl_rooms c" "cl_log c1 = cl_log c"
      "map_of (cl_handlers c1) (uid @ ''-create'') = Some (OnCreated o1 opts uid)"
    using client_asks [OF assms(5), of rid name opts] unfolding names by blast
  obtain w1 where w1: "handle_client_message E n (Suc d) client createNewRoom (create_request name (norm opts) uid) w = (Normal, w1)"
      "created E a i name client w w1"
      "w_frames w1 = w_frames w @ [(sc_session_id client, uid @ ''-create'', JString i)]"
    by (rule server_creates [OF assms(7,9) assms(11,12) [unfolded names] assms(8) assms(15) [unfolded names]
          assms(19) [unfolded names] assms(18) assms(17) [unfolded names] assms(20,10) uid])
      (unfold names, blast)
  have "cl_objects c1 o1 = new_client_room opts []" using c1(4) by simp
  moreover have "\<forall>s \<in> set (cl_rooms c1). s \<noteq> o1 \<and> cr_id (cl_objects c1 s) \<noteq> i" using c1(4,5) assms(6) by auto
  ultimately obtain c2 where c2: "dispatch_event (uid @ ''-create'') (JString i) c1 = (Normal, c2)"
      "cl_sent c2 = cl_sent c1 @ [(joinRoom, join_message i opts)]"
      "cl_objects c2 o1 = (new_client_room opts [])\<lparr>cr_id := i\<rparr>" "cl_rooms c2 = cl_rooms c1 @ [o1]"
      "cl_log c2 = cl_log c1 @ [RoomEvent o1 (Create i), RoomEvent o1 JoinAttempt]"
      "map_of (cl_handlers c2) (''message-'' @ i) = Some (OnRoomMessage o1)"
    using client_is_told [OF c1(3) _ c1(7) _ assms(14)] by blast
  obtain r where r: "w_rooms w1 a = Some r" "rm_id r = i" "rm_type r = name" "rm_owner r = client" "rm_clients r = []"
      "cb_entries (rm_join_listeners r) = []"
    using w1(2) unfolding created_def by blast
  have h: "e_hooks E (rm_type r) = default_hooks" using r(3) assms(8) by simp
  have f: "find_room_by_id (sops w1) (e_json E) (w_storage w1) i = Inr (fresh_snapshot i name client w)"
      "map ls_handler (ps_listeners (w_pubsub w1) i) = [GameMessage a]"
      "map_of (w_connections w1) (sc_session_id client) = Some conn"
    using w1(2) assms(13,16,20) by (simp_all add: created_def)
  obtain w2 r1 where w2: "handle_client_message E n (Suc d) client joinRoom (join_message i (norm opts)) w1 = (Normal, w2)"
      "w_rooms w2 a = Some r1" "rm_clients r1 = rm_clients r @ [client]" "rm_id r1 = i"
      "w_frames w2 = w_frames w1 @ [(sc_session_id client, ''message-'' @ i, jobj [(''key'', JString joinedRoom), (''data'', JNull)])]"
      and o: "rm_owner r1 = (if sc_id (rm_owner r) \<noteq> [] \<and> sc_id client = sc_id (rm_owner r)
         then (rm_owner r)\<lparr>sc_session_id := sc_session_id client\<rparr> else rm_owner r)"
    by (rule server_joins [OF r(1,2,6) h assms(12) f, of n d "norm opts"]) blast
  have o: "rm_owner r1 = client" using o r(4) by (cases client) simp
  obtain c3 where c3: "dispatch_event (''message-'' @ i) (jobj [(''key'', JString joinedRoom), (''data'', JNull)]) c2 = (Normal, c3)"
      "cl_sent c3 = cl_sent c2" "cl_rooms c3 = cl_rooms c2" "cl_log c3 = cl_log c2 @ [RoomEvent o1 Join]"
      "cl_objects c3 o1 = (cl_objects c2 o1)\<lparr>cr_joined := True\<rparr>"
    using client_joins [OF c2(6)] by blast
  have told: "norm (jobj [(''key'', JString joinedRoom), (''data'', JNull)]) = jobj [(''key'', JString joinedRoom), (''data'', JNull)]"
    by (simp add: jobj_def)
  show ?thesis
    using c1 w1 c2 w2 o c3 r(5)
    by (simp add: to_server_def to_client_def norm_create_request norm_join_message told)
qed

definition bobs_client :: client where
  "bobs_client = \<lparr>cl_id = ''bob'', cl_session_id = ''bob-session'', cl_ping_interval_ms = 25000, cl_running = True,
     cl_connected = True, cl_objects = (\<lambda>_. new_client_room JNull []), cl_next_object = 0, cl_rooms = [],
     cl_handlers = [], cl_sent = [], cl_texts = [], cl_log = [], cl_ids = 0\<rparr>"

definition plain_env :: env where
  "plain_env = chat_env\<lparr>e_hooks := (\<lambda>_. default_hooks)\<rparr>"

theorem create_room_end_to_end_witness:
  "\<exists>c1 f1 w1 g1 c2 f2 w2 g2 c3 r.
    client_create_room (\<lambda>_. ''q'') ''chat'' JNull (\<lambda>_. skip) bobs_client = (Normal, c1) \<and> cl_sent c1 = [f1] \<and>
    to_server plain_env 2 1 (demo_client ''bob'') f1 chat_world = (Normal, w1) \<and> w_frames w1 = [g1] \<and>
    to_client g1 c1 = (Normal, c2) \<and> cl_sent c2 = [f1, f2] \<and>
    to_server plain_env 2 1 (demo_client ''bob'') f2 w1 = (Normal, w2) \<and> w_frames w2 = [g1, g2] \<and>
    to_client g2 c2 = (Normal, c3) \<and> cr_id (cl_objects c3 0) = ''r'' \<and> cr_joined (cl_objects c3 0) \<and>
    w_rooms w2 1 = Some r \<and> rm_clients r = [demo_client ''bob'']"
proof -
  have st: "text_safe (e_json plain_env) (snapshot_to_json (fresh_snapshot ''r'' ''chat'' (demo_client ''bob'') chat_world))"
    by (simp add: plain_env_def text_safe_def chat_json_def flip: chat_snapshot_def)
  have conn: "map_of (w_connections chat_world) (sc_session_id (demo_client ''bob'')) = Some (demo_client ''bob'')"
    by (simp add: demo_client_def)
  have new: "unknown 1 chat_world" using chat_unknown by simp
  have "\<exists>c1 f1 w1 g1 c2 f2 w2 g2 c3 r.
    client_create_room (\<lambda>_. ''q'') ''chat'' JNull (\<lambda>_. skip) bobs_client = (Normal, c1) \<and> cl_sent c1 = cl_sent bobs_client @ [f1] \<and>
    to_server plain_env 2 (Suc 0) (demo_client ''bob'') f1 chat_world = (Normal, w1) \<and> w_frames w1 = w_frames chat_world @ [g1] \<and>
    to_client g1 c1 = (Normal, c2) \<and> cl_sent c2 = cl_sent c1 @ [f2] \<and>
    to_server plain_env 2 (Suc 0) (demo_client ''bob'') f2 w1 = (Normal, w2) \<and> w_frames w2 = w_frames w1 @ [g2] \<and>
    to_client g2 c2 = (Normal, c3) \<and> cl_sent c3 = cl_sent c2 \<and>
    fst g1 = sc_session_id (demo_client ''bob'') \<and> fst g2 = sc_session_id (demo_client ''bob'') \<and>
    cr_id (cl_objects c3 0) = ''r'' \<and> cr_joined (cl_objects c3 0) \<and> cl_rooms c3 = cl_rooms bobs_client @ [0] \<and>
    cl_log c3 = cl_log bobs_client @ [RoomEvent 0 (Create ''r''), RoomEvent 0 JoinAttempt, RoomEvent 0 Join] \<and>
    w_rooms w2 1 = Some r \<and> rm_id r = ''r'' \<and> rm_clients r = [demo_client ''bob''] \<and> rm_owner r = demo_client ''bob''"
    by (rule create_room_end_to_end [where uid = "''q''" and ropts = "JObject []", OF _ _ _ _ _ _ _ _ _ _ _ _ _ _ new _ _ _ st conn])
      (simp_all add: bobs_client_def plain_env_def mem_good_def PLAYER_LEFT_def ps_listeners_def)
  then show ?thesis by (fastforce simp: bobs_client_def)
qed

end
