(* ===== verification/Game_Lock.thy ===== *)
theory Game_Lock imports Main
begin

text \<open>
  The game lock (server/include/blueboat/game_lock.hpp) with the way \<open>allow_reconnection\<close>
  (server/src/room.cpp) gives it up while it waits.  A thread has the stack of its live \<open>GameLockGuard\<close>s, the top
  one being what \<open>current_lock()\<close> points to; an entry says whether the guard's \<open>unique_lock\<close> owns the
  mutex at the moment.  An operation that blocks in a state has no successor there (\<open>None\<close>).
\<close>

record lock_state =
  lk_owner :: "nat option"
  lk_guards :: "nat \<Rightarrow> bool list"
  lk_waiting :: "nat \<Rightarrow> nat option"
  lk_resolved :: "nat \<Rightarrow> bool"

definition lock_init :: lock_state where
  "lock_init = \<lparr>lk_owner = None, lk_guards = (\<lambda>_. []), lk_waiting = (\<lambda>_. None), lk_resolved = (\<lambda>_. False)\<rparr>"

definition running :: "nat \<Rightarrow> lock_state \<Rightarrow> bool" where
  "running t s \<longleftrightarrow> lk_waiting s t = None"

text \<open>The constructor: \<open>unique_lock\<close> locks the mutex, and the guard becomes the current lock.\<close>

definition guard_enter :: "nat \<Rightarrow> lock_state \<Rightarrow> lock_state option" where
  "guard_enter t s =
     (if running t s \<and> lk_owner s = None
      then Some (s\<lparr>lk_owner := Some t, lk_guards := (lk_guards s)(t := True # lk_guards s t)\<rparr>) else None)"

text \<open>The destructor: the previous lock becomes current and the mutex is unlocked if it is owned.\<close>

definition guard_leave :: "nat \<Rightarrow> lock_state \<Rightarrow> lock_state option" where
  "guard_leave t s =
     (if running t s then (case lk_guards s t of
        [] \<Rightarrow> None
      | owns # gs \<Rightarrow> Some (s\<lparr>lk_owner := (if owns then None else lk_owner s), lk_guards := (lk_guards s)(t := gs)\<rparr>))
      else None)"

definition current_lock :: "nat \<Rightarrow> lock_state \<Rightarrow> bool option" where
  "current_lock t s = (case lk_guards s t of [] \<Rightarrow> None | owns # gs \<Rightarrow> Some owns)"

text \<open>
  \<open>lock->unlock(); future.get();\<close> and, once the promise \<open>p\<close> is set, \<open>lock->lock()\<close>.  Without a current lock
  the thread just waits.
\<close>

definition begin_wait :: "nat \<Rightarrow> nat \<Rightarrow> lock_state \<Rightarrow> lock_state option" where
  "begin_wait t p s =
     (if running t s then (case lk_guards s t of
        [] \<Rightarrow> Some (s\<lparr>lk_waiting := (lk_waiting s)(t \<mapsto> p)\<rparr>)
      | owns # gs \<Rightarrow> Some (s\<lparr>lk_owner := (if owns then None else lk_owner s),
                            lk_guards := (lk_guards s)(t := False # gs), lk_waiting := (lk_waiting s)(t \<mapsto> p)\<rparr>))
      else None)"

definition end_wait :: "nat \<Rightarrow> lock_state \<Rightarrow> lock_state option" where
  "end_wait t s =
     (case lk_waiting s t of
        None \<Rightarrow> None
      | Some p \<Rightarrow>
          if \<not> lk_resolved s p then None
          else (case lk_guards s t of
              [] \<Rightarrow> Some (s\<lparr>lk_waiting := (lk_waiting s)(t := None)\<rparr>)
            | _ # gs \<Rightarrow> if lk_owner s = None
                then Some (s\<lparr>lk_owner := Some t, lk_guards := (lk_guards s)(t := True # gs),
                             lk_waiting := (lk_waiting s)(t := None)\<rparr>) else None))"

text \<open>The promise is set by the join listener or by the timer, in a thread that has the lock.\<close>

definition set_promise :: "nat \<Rightarrow> nat \<Rightarrow> lock_state \<Rightarrow> lock_state option" where
  "set_promise t p s =
     (if running t s \<and> lk_owner s = Some t then Some (s\<lparr>lk_resolved := (lk_resolved s)(p := True)\<rparr>) else None)"

inductive lock_step :: "lock_state \<Rightarrow> lock_state \<Rightarrow> bool" where
  enter: "guard_enter t s = Some s' \<Longrightarrow> lock_step s s'"
| leave: "guard_leave t s = Some s' \<Longrightarrow> lock_step s s'"
| wait: "begin_wait t p s = Some s' \<Longrightarrow> lock_step s s'"
| resume: "end_wait t s = Some s' \<Longrightarrow> lock_step s s'"
| promise: "set_promise t p s = Some s' \<Longrightarrow> lock_step s s'"

inductive lock_reachable :: "lock_state \<Rightarrow> bool" where
  init: "lock_reachable lock_init"
| step: "lock_reachable s \<Longrightarrow> lock_step s s' \<Longrightarrow> lock_reachable s'"

inductive_cases lock_stepE: "lock_step s s'"

subsection \<open>The invariant\<close>

text \<open>A thread is outside, inside with the lock, or inside without it, waiting for a promise.\<close>

definition thread_ok :: "lock_state \<Rightarrow> nat \<Rightarrow> bool" where
  "thread_ok s t \<longleftrightarrow> (lk_guards s t = [] \<and> lk_owner s \<noteq> Some t) \<or>
     (lk_guards s t = [True] \<and> lk_owner s = Some t \<and> lk_waiting s t = None) \<or>
     (lk_guards s t = [False] \<and> lk_owner s \<noteq> Some t \<and> lk_waiting s t \<noteq> None)"

definition lock_wf :: "lock_state \<Rightarrow> bool" where
  "lock_wf s \<longleftrightarrow> (\<forall>t. thread_ok s t)"

lemma lock_wfD: "lock_wf s \<Longrightarrow> thread_ok s t"
  by (simp add: lock_wf_def)

lemma lock_wf_init: "lock_wf lock_init"
  by (simp add: lock_wf_def thread_ok_def lock_init_def)

text \<open>An operation of the thread \<open>t\<close> keeps what holds of \<open>t\<close> and what holds of every other thread.\<close>

lemma lock_wf_op:
  assumes "lock_wf s" and "\<And>v. thread_ok s t \<Longrightarrow> thread_ok s v \<Longrightarrow> thread_ok s' v"
  shows "lock_wf s'"
  using assms by (simp add: lock_wf_def)

lemma lock_wf_enter: "lock_wf s \<Longrightarrow> guard_enter t s = Some s' \<Longrightarrow> lock_wf s'"
  by (erule lock_wf_op [of s t]) (auto simp: thread_ok_def guard_enter_def running_def split: if_splits)

lemma lock_wf_leave: "lock_wf s \<Longrightarrow> guard_leave t s = Some s' \<Longrightarrow> lock_wf s'"
  by (erule lock_wf_op [of s t]) (auto simp: thread_ok_def guard_leave_def running_def split: if_splits)

lemma lock_wf_begin: "lock_wf s \<Longrightarrow> begin_wait t p s = Some s' \<Longrightarrow> lock_wf s'"
  by (erule lock_wf_op [of s t]) (auto simp: thread_ok_def begin_wait_def running_def split: if_splits)

lemma lock_wf_end: "lock_wf s \<Longrightarrow> end_wait t s = Some s' \<Longrightarrow> lock_wf s'"
  by (erule lock_wf_op [of s t]) (auto simp: thread_ok_def end_wait_def split: if_splits option.splits)

lemma lock_wf_promise: "lock_wf s \<Longrightarrow> set_promise t p s = Some s' \<Longrightarrow> lock_wf s'"
  by (erule lock_wf_op [of s t]) (auto simp: thread_ok_def set_promise_def split: if_splits)

lemma lock_wf_step: "lock_step s s' \<Longrightarrow> lock_wf s \<Longrightarrow> lock_wf s'"
  by (erule lock_stepE) (blast intro: lock_wf_enter lock_wf_leave lock_wf_begin lock_wf_end lock_wf_promise)+

lemma lock_wf_reachable: "lock_reachable s \<Longrightarrow> lock_wf s"
  by (induction rule: lock_reachable.induct) (auto intro: lock_wf_init lock_wf_step)

subsection \<open>Properties\<close>

text \<open>C33: The game lock excludes: in every reachable state at most one thread has a guard that owns the mutex
  and is not waiting, the current lock of a thread is the guard it is inside of, and a thread that waits
  for a reconnection inside a guard does not own the mutex, so another thread can enter unless a third one
  is inside.\<close>

theorem game_lock_excludes:
  assumes "lock_reachable s"
  shows "(current_lock t s = Some True \<and> current_lock u s = Some True \<longrightarrow> t = u) \<and>
    (current_lock t s = Some True \<longleftrightarrow> lk_owner s = Some t) \<and>
    (current_lock t s = Some False \<longrightarrow> lk_waiting s t \<noteq> None) \<and>
    (lk_waiting s t \<noteq> None \<longrightarrow> lk_owner s \<noteq> Some t) \<and>
    ((\<forall>v. current_lock v s \<noteq> Some True) \<and> lk_waiting s u = None \<longrightarrow> guard_enter u s \<noteq> None)"
proof -
  have own: "current_lock v s = Some True \<longleftrightarrow> lk_owner s = Some v" for v
    using lock_wfD [OF lock_wf_reachable [OF assms], of v] by (auto simp: current_lock_def thread_ok_def)
  have free: "lk_owner s = None" if "\<forall>v. current_lock v s \<noteq> Some True"
    using that own by (cases "lk_owner s") auto
  show ?thesis
    using lock_wfD [OF lock_wf_reachable [OF assms], of t] own free
    by (auto simp: current_lock_def guard_enter_def running_def thread_ok_def)
qed

definition lock_inside :: lock_state where
  "lock_inside = lock_init\<lparr>lk_owner := Some 3, lk_guards := (lk_guards lock_init)(3 := [True])\<rparr>"

theorem game_lock_excludes_witness:
  "current_lock 3 lock_inside = Some True \<and> lk_owner lock_inside = Some 3"
proof -
  have "lock_step lock_init lock_inside"
    by (rule lock_step.enter [of 3]) (simp add: guard_enter_def running_def lock_inside_def lock_init_def)
  then have "lock_reachable lock_inside" by (rule lock_reachable.step [OF lock_reachable.init])
  from game_lock_excludes [OF this, of 3 3] show ?thesis
    by (simp add: lock_inside_def)
qed

end
