(* ===== verification/Server_Safety.thy ===== *)
theory Server_Safety imports Room_Quiet Connection
begin

text \<open>
  Memory safety of the whole server.  \<open>server_ok\<close> types the tables of the server by the objects they
  refer to: a managed room is live, a handler of the listener table and a timer that is not cancelled
  belong to a live room that holds their handle.  When the hooks leave the membership of their room to
  the server (\<open>tame\<close>), every operation of the server keeps it, and none uses a destroyed object.
\<close>

subsection \<open>Well-formed servers\<close>

text \<open>
  \<open>X\<close> are the rooms that are being created, \<open>D\<close> rooms that may be destroyed with closures of theirs left
  behind; both are empty between operations.
\<close>

definition rooms_ok :: "nat set \<Rightarrow> nat \<Rightarrow> (string \<times> nat) list \<Rightarrow> (nat \<Rightarrow> room option) \<Rightarrow> bool" where
  "rooms_ok X next managing rooms \<longleftrightarrow> (\<forall>b r. rooms b = Some r \<longrightarrow> b < next \<and>
     (\<forall>f \<in> ce_callback ` set (cb_entries (rm_join_listeners r)). \<exists>l. f = UserJoin l) \<and>
     map_of managing (rm_id r) = (if b \<in> X then None else Some b))"

definition managing_ok :: "string set \<Rightarrow> (string \<times> nat) list \<Rightarrow> (nat \<Rightarrow> room option) \<Rightarrow> bool" where
  "managing_ok ids managing rooms \<longleftrightarrow> (\<forall>i b. map_of managing i = Some b \<longrightarrow>
     i \<in> ids \<and> (\<exists>r. rooms b = Some r \<and> rm_id r = i))"

text \<open>What is asked of the object a closure refers to: \<open>P\<close> of it, or that it may be missing.\<close>

fun held :: "bool \<Rightarrow> (room \<Rightarrow> bool) \<Rightarrow> room option \<Rightarrow> bool" where
  "held missing P None = missing"
| "held missing P (Some r) = P r"

lemma held_mono: "held m P x \<Longrightarrow> (x = None \<Longrightarrow> m \<Longrightarrow> m') \<Longrightarrow> (\<And>r. x = Some r \<Longrightarrow> P r \<Longrightarrow> Q r) \<Longrightarrow> held m' Q x"
  by (cases x) auto

definition listener_ok :: "nat set \<Rightarrow> (nat \<Rightarrow> room option) \<Rightarrow> string \<Rightarrow> handler listener \<Rightarrow> bool" where
  "listener_ok D rooms k l \<longleftrightarrow>
     (case ls_handler l of
        AdminInfo q \<Rightarrow> k = REQUEST_INFO
      | GameMessage b \<Rightarrow>
          held (b \<in> D) (\<lambda>r. k = rm_id r \<and> rm_game_message_sub r = Some (k, ls_id l)) (rooms b)
      | PlayerLeft b \<Rightarrow>
          k = PLAYER_LEFT \<and> held (b \<in> D) (\<lambda>r. rm_player_left_sub r = Some (k, ls_id l)) (rooms b))"

definition listeners_ok :: "string set \<Rightarrow> nat set \<Rightarrow> (nat \<Rightarrow> room option) \<Rightarrow> handler pubsub \<Rightarrow> bool" where
  "listeners_ok ids D rooms ps \<longleftrightarrow> (\<forall>k. distinct (map ls_id (ps_listeners ps k)) \<and>
     (\<forall>l \<in> set (ps_listeners ps k). ls_id l \<in> ids \<and> listener_ok D rooms k l))"

definition timer_ok :: "nat set \<Rightarrow> (nat \<Rightarrow> room option) \<Rightarrow> nat \<Rightarrow> timer_cb sched \<Rightarrow> timer_cb task \<Rightarrow> bool" where
  "timer_ok D rooms next sched t \<longleftrightarrow>
     (case tk_callback t of
        ReconnectTimeout b i p \<Rightarrow> False
      | AutoDispose b \<Rightarrow> b < next \<and>
          held (b \<in> D \<or> sc_cancelled sched (tk_flag t)) (\<lambda>r. rm_auto_dispose_timer r = Some (tk_flag t)) (rooms b))"

definition timers_ok :: "nat set \<Rightarrow> (nat \<Rightarrow> room option) \<Rightarrow> nat \<Rightarrow> timer_cb sched \<Rightarrow> bool" where
  "timers_ok D rooms next sched \<longleftrightarrow> (\<forall>t \<in> set (sc_tasks sched). timer_ok D rooms next sched t)"

text \<open>The identifiers that \<open>random_id()\<close> has given so far.\<close>

definition drawn :: "env \<Rightarrow> nat \<Rightarrow> string set" where
  "drawn E n = e_rid E ` {..<n}"

definition server_ok :: "env \<Rightarrow> nat set \<Rightarrow> nat set \<Rightarrow> world \<Rightarrow> bool" where
  "server_ok E X D w \<longleftrightarrow>
     rooms_ok X (w_next_room w) (w_managing w) (w_rooms w) \<and>
     managing_ok (drawn E (w_ids w)) (w_managing w) (w_rooms w) \<and>
     listeners_ok (drawn E (w_ids w)) D (w_rooms w) (w_pubsub w) \<and>
     timers_ok D (w_rooms w) (w_next_room w) (w_sched w)"

text \<open>
  A string that the JSON library can write: one that is UTF-8.  The names of the registered room types
  are such strings.
\<close>

definition writable :: "env \<Rightarrow> string \<Rightarrow> bool" where
  "writable E s \<longleftrightarrow> jl_dump (e_json E) (JString s) \<noteq> None"

definition names_ok :: "env \<Rightarrow> (string \<times> json) list \<Rightarrow> bool" where
  "names_ok E registered \<longleftrightarrow> (\<forall>name \<in> fst ` set registered. writable E name)"

text \<open>A well-formed server in which the rooms of \<open>K\<close> are live.\<close>

definition sound :: "env \<Rightarrow> nat set \<Rightarrow> nat set \<Rightarrow> nat set \<Rightarrow> world \<Rightarrow> bool" where
  "sound E X D K w \<longleftrightarrow> server_ok E X D w \<and> names_ok E (w_registered w) \<and> (\<forall>b \<in> K. w_rooms w b \<noteq> None)"

lemma soundD: "sound E X D K w \<Longrightarrow> b \<in> K \<Longrightarrow> \<exists>r. w_rooms w b = Some r"
  by (auto simp: sound_def)

lemma sound_sub: "sound E X D K w \<Longrightarrow> K' \<subseteq> K \<Longrightarrow> sound E X D K' w"
  by (auto simp: sound_def)

lemma listener_ok_mono: "listener_ok D rs k l \<Longrightarrow> D \<subseteq> D' \<Longrightarrow> listener_ok D' rs k l"
  by (cases "ls_handler l") (auto simp: listener_ok_def elim: held_mono)

lemma timer_ok_mono: "timer_ok D rs n s t \<Longrightarrow> D \<subseteq> D' \<Longrightarrow> timer_ok D' rs n s t"
  by (cases "tk_callback t") (auto simp: timer_ok_def elim: held_mono)

lemma sound_mono: "sound E X D K w \<Longrightarrow> D \<subseteq> D' \<Longrightarrow> sound E X D' K w"
  unfolding sound_def server_ok_def listeners_ok_def timers_ok_def
  using listener_ok_mono timer_ok_mono by blast

text \<open>A step that changes other parts of the world only.\<close>

lemma sound_same:
  assumes "w_rooms w' = w_rooms w" "w_next_room w' = w_next_room w" "w_managing w' = w_managing w"
    "w_ids w' = w_ids w" "w_pubsub w' = w_pubsub w" "w_sched w' = w_sched w" "w_registered w' = w_registered w"
  shows "sound E X D K w' = sound E X D K w"
  unfolding sound_def server_ok_def assms ..

subsection \<open>Changing a room object\<close>

lemma rooms_ok_upd:
  assumes "rooms_ok X n mg rs" "rs a = Some r" "rm_id r' = rm_id r"
    and "ce_callback ` set (cb_entries (rm_join_listeners r')) \<subseteq> ce_callback ` set (cb_entries (rm_join_listeners r))"
  shows "rooms_ok X n mg (rs(a \<mapsto> r'))"
  unfolding rooms_ok_def
proof (intro allI impI)
  fix b q assume q: "(rs(a \<mapsto> r')) b = Some q"
  show "b < n \<and> (\<forall>f \<in> ce_callback ` set (cb_entries (rm_join_listeners q)). \<exists>l. f = UserJoin l) \<and>
     map_of mg (rm_id q) = (if b \<in> X then None else Some b)"
  proof (cases "b = a")
    case True
    with q have "q = r'" by simp
    moreover have "a < n \<and> (\<forall>f \<in> ce_callback ` set (cb_entries (rm_join_listeners r)). \<exists>l. f = UserJoin l) \<and>
        map_of mg (rm_id r) = (if a \<in> X then None else Some a)"
      using assms(1,2) unfolding rooms_ok_def by blast
    ultimately show ?thesis using assms(3,4) True by (simp only:) blast
  next
    case False
    with q have "rs b = Some q" by simp
    with assms(1) show ?thesis unfolding rooms_ok_def by blast
  qed
qed

lemma managing_ok_upd:
  assumes "managing_ok ids mg rs" "rs a = Some r" "rm_id r' = rm_id r"
  shows "managing_ok ids mg (rs(a \<mapsto> r'))"
  using assms unfolding managing_ok_def by (metis fun_upd_apply option.inject)

lemma listener_ok_upd:
  assumes "listener_ok D rs k l" "rs a = Some r" "rm_id r' = rm_id r"
    and "ls_handler l = GameMessage a \<Longrightarrow> rm_game_message_sub r' = rm_game_message_sub r"
    and "ls_handler l = PlayerLeft a \<Longrightarrow> rm_player_left_sub r' = rm_player_left_sub r"
  shows "listener_ok D (rs(a \<mapsto> r')) k l"
  using assms by (cases "ls_handler l") (auto simp: listener_ok_def elim: held_mono)

lemma listeners_ok_upd:
  assumes "listeners_ok ids D rs ps" "rs a = Some r" "rm_id r' = rm_id r"
    and "rm_game_message_sub r' = rm_game_message_sub r" "rm_player_left_sub r' = rm_player_left_sub r"
  shows "listeners_ok ids D (rs(a \<mapsto> r')) ps"
  using assms listener_ok_upd unfolding listeners_ok_def by blast

lemma timers_ok_upd:
  assumes "timers_ok D rs n s" "rs a = Some r" "rm_auto_dispose_timer r' = rm_auto_dispose_timer r"
  shows "timers_ok D (rs(a \<mapsto> r')) n s"
proof -
  have "timer_ok D (rs(a \<mapsto> r')) n s t" if "timer_ok D rs n s t" for t
    using that assms(2,3) by (cases "tk_callback t") (auto simp: timer_ok_def elim: held_mono)
  with assms(1) show ?thesis by (simp add: timers_ok_def)
qed

lemma live_upd: "\<forall>b \<in> K. rs b \<noteq> None \<Longrightarrow> \<forall>b \<in> K. (rs(a \<mapsto> r')) b \<noteq> None"
  by simp

text \<open>A room object with the same identity, handles and kind of listeners.\<close>

definition alike :: "room \<Rightarrow> room \<Rightarrow> bool" where
  "alike r r' \<longleftrightarrow> rm_id r' = rm_id r \<and> rm_game_message_sub r' = rm_game_message_sub r \<and>
     rm_player_left_sub r' = rm_player_left_sub r \<and> rm_auto_dispose_timer r' = rm_auto_dispose_timer r \<and>
     ce_callback ` set (cb_entries (rm_join_listeners r')) \<subseteq> ce_callback ` set (cb_entries (rm_join_listeners r))"

lemma mild_alike: "mild r r' \<Longrightarrow> alike r r'"
  by (simp add: alike_def mild_def)

lemma alike_marked: "alike r (r\<lparr>rm_disposing := b\<rparr>)"
  by (simp add: alike_def)

lemma sound_alike:
  assumes "sound E X D K w" "w_rooms w a = Some r" "alike r r'"
  shows "sound E X D K (w\<lparr>w_rooms := (w_rooms w)(a \<mapsto> r')\<rparr>)"
  using assms rooms_ok_upd managing_ok_upd listeners_ok_upd timers_ok_upd
  unfolding sound_def server_ok_def alike_def by simp

subsection \<open>The steps of a disposal\<close>

lemma distinct_unsub:
  "distinct (map ls_id (ps_listeners ps k)) \<Longrightarrow> distinct (map ls_id (ps_listeners (snd (ps_unsubscribe s ps)) k))"
  by (cases s) (auto simp: ps_listeners_remove distinct_map intro: inj_on_subset)

lemma unsubscribed:
  "l \<in> set (ps_listeners (snd (ps_unsubscribe s ps)) k) \<Longrightarrow> s \<noteq> Some (k, ls_id l)"
  by (cases s) (auto simp: ps_listeners_remove)

lemma listeners_unsub:
  assumes "listeners_ok ids D rs ps"
    and "\<And>k l. l \<in> set (ps_listeners ps k) \<Longrightarrow> s \<noteq> Some (k, ls_id l) \<Longrightarrow> listener_ok D rs k l \<Longrightarrow> listener_ok D rs' k l"
  shows "listeners_ok ids D rs' (snd (ps_unsubscribe s ps))"
  unfolding listeners_ok_def
proof (intro allI conjI ballI)
  fix k
  show "distinct (map ls_id (ps_listeners (snd (ps_unsubscribe s ps)) k))"
    by (rule distinct_unsub) (use assms(1) in \<open>simp add: listeners_ok_def\<close>)
  fix l assume "l \<in> set (ps_listeners (snd (ps_unsubscribe s ps)) k)"
  then have l: "l \<in> set (ps_listeners ps k)" "s \<noteq> Some (k, ls_id l)" by (rule unsub_subset, rule unsubscribed)
  then show "ls_id l \<in> ids" "listener_ok D rs' k l"
    using assms unfolding listeners_ok_def by blast+
qed

lemma unsub_game_sound:
  assumes "sound E X D K w" "w_rooms w a = Some r"
  shows "sound E X D K (w\<lparr>w_pubsub := snd (ps_unsubscribe (rm_game_message_sub r) (w_pubsub w)),
     w_rooms := (w_rooms w)(a \<mapsto> r\<lparr>rm_game_message_sub := None\<rparr>)\<rparr>)"
proof -
  have "listener_ok D ((w_rooms w)(a \<mapsto> r\<lparr>rm_game_message_sub := None\<rparr>)) k l"
    if "rm_game_message_sub r \<noteq> Some (k, ls_id l)" "listener_ok D (w_rooms w) k l" for k l
    using that assms(2) by (cases "ls_handler l") (auto simp: listener_ok_def elim: held_mono)
  then have "listeners_ok (drawn E (w_ids w)) D ((w_rooms w)(a \<mapsto> r\<lparr>rm_game_message_sub := None\<rparr>))
      (snd (ps_unsubscribe (rm_game_message_sub r) (w_pubsub w)))"
    using assms(1) by (intro listeners_unsub [of _ _ "w_rooms w"]) (simp_all add: sound_def server_ok_def)
  then show ?thesis
    using assms rooms_ok_upd [of X _ _ "w_rooms w" a r] managing_ok_upd [of _ _ "w_rooms w" a r]
      timers_ok_upd [of D "w_rooms w" _ _ a r]
    unfolding sound_def server_ok_def by simp
qed

lemma unsub_left_sound:
  assumes "sound E X D K w" "w_rooms w a = Some r"
  shows "sound E X D K (w\<lparr>w_pubsub := snd (ps_unsubscribe (rm_player_left_sub r) (w_pubsub w)),
     w_rooms := (w_rooms w)(a \<mapsto> r\<lparr>rm_player_left_sub := None\<rparr>)\<rparr>)"
proof -
  have "listener_ok D ((w_rooms w)(a \<mapsto> r\<lparr>rm_player_left_sub := None\<rparr>)) k l"
    if "rm_player_left_sub r \<noteq> Some (k, ls_id l)" "listener_ok D (w_rooms w) k l" for k l
    using that assms(2) by (cases "ls_handler l") (auto simp: listener_ok_def elim: held_mono)
  then have "listeners_ok (drawn E (w_ids w)) D ((w_rooms w)(a \<mapsto> r\<lparr>rm_player_left_sub := None\<rparr>))
      (snd (ps_unsubscribe (rm_player_left_sub r) (w_pubsub w)))"
    using assms(1) by (intro listeners_unsub [of _ _ "w_rooms w"]) (simp_all add: sound_def server_ok_def)
  then show ?thesis
    using assms rooms_ok_upd [of X _ _ "w_rooms w" a r] managing_ok_upd [of _ _ "w_rooms w" a r]
      timers_ok_upd [of D "w_rooms w" _ _ a r]
    unfolding sound_def server_ok_def by simp
qed

lemma cancel_sound:
  assumes "sound E X D K w"
  shows "sound E X D K (w\<lparr>w_sched := timer_clear h (w_sched w)\<rparr>)"
proof -
  have "timer_ok D (w_rooms w) (w_next_room w) (timer_clear h (w_sched w)) t"
    if "timer_ok D (w_rooms w) (w_next_room w) (w_sched w) t" for t
    using that by (cases "tk_callback t"; cases h) (auto simp: timer_ok_def elim: held_mono)
  moreover have "sc_tasks (timer_clear h (w_sched w)) = sc_tasks (w_sched w)" by (cases h) simp_all
  ultimately show ?thesis using assms by (simp add: sound_def server_ok_def timers_ok_def)
qed

text \<open>Destroying the room managed under an identifier: it may leave closures behind.\<close>

lemma free_sound:
  assumes "sound E X D K w" "map_of (w_managing w) i = Some b" "b \<notin> K" "b \<in> D"
  shows "sound E X D K (w\<lparr>w_managing := AList.delete i (w_managing w), w_rooms := (w_rooms w)(b := None)\<rparr>)"
proof -
  let ?rs = "(w_rooms w)(b := None)" and ?mg = "AList.delete i (w_managing w)"
  note ok = assms(1) [unfolded sound_def server_ok_def]
  obtain r where r: "w_rooms w b = Some r" "rm_id r = i"
    using ok assms(2) unfolding managing_ok_def by blast
  have own: "c = b" if "w_rooms w c = Some q" "rm_id q = i" for c q
    using ok that assms(2) unfolding rooms_ok_def by (metis option.distinct(1) option.inject)
  have "rooms_ok X (w_next_room w) ?mg ?rs"
    unfolding rooms_ok_def
  proof (intro allI impI)
    fix c q assume "?rs c = Some q"
    then have c: "w_rooms w c = Some q" "c \<noteq> b" by (auto split: if_splits)
    with own have "rm_id q \<noteq> i" by blast
    with ok c(1) show "c < w_next_room w \<and>
      (\<forall>f \<in> ce_callback ` set (cb_entries (rm_join_listeners q)). \<exists>l. f = UserJoin l) \<and>
      map_of ?mg (rm_id q) = (if c \<in> X then None else Some c)"
      unfolding rooms_ok_def by simp
  qed
  moreover have "managing_ok (drawn E (w_ids w)) ?mg ?rs"
    unfolding managing_ok_def
  proof (intro allI impI)
    fix j c assume "map_of ?mg j = Some c"
    then have j: "map_of (w_managing w) j = Some c" "j \<noteq> i" by (auto split: if_splits)
    then obtain q where q: "w_rooms w c = Some q" "rm_id q = j" "j \<in> drawn E (w_ids w)"
      using ok unfolding managing_ok_def by blast
    with j r have "c \<noteq> b" by auto
    with q show "j \<in> drawn E (w_ids w) \<and> (\<exists>r. ?rs c = Some r \<and> rm_id r = j)" by simp
  qed
  moreover have "listener_ok D ?rs k l" if "listener_ok D (w_rooms w) k l" for k l
    using that assms(4) by (cases "ls_handler l") (auto simp: listener_ok_def elim: held_mono)
  then have "listeners_ok (drawn E (w_ids w)) D ?rs (w_pubsub w)"
    using ok unfolding listeners_ok_def by blast
  moreover have "timer_ok D ?rs (w_next_room w) (w_sched w) t" if "timer_ok D (w_rooms w) (w_next_room w) (w_sched w) t" for t
    using that assms(4) by (cases "tk_callback t") (auto simp: timer_ok_def elim: held_mono)
  then have "timers_ok D ?rs (w_next_room w) (w_sched w)"
    using ok unfolding timers_ok_def by blast
  ultimately show ?thesis
    using ok assms(3) unfolding sound_def server_ok_def by auto
qed

lemma calm_sound:
  assumes "sound E X D K w" "calm_step E a w w'"
  shows "sound E X D K w'"
  using assms(2)
proof cases
  case (change r r')
  then show ?thesis using sound_alike [OF assms(1)] mild_alike by blast
qed (rule iffD2 [OF sound_same assms(1)], simp_all)+

text \<open>The room itself under one of its operations: all other rooms of \<open>K\<close> stay.\<close>

lemma closed_sound:
  assumes "a \<notin> K"
  shows "closed (room_step E a) (sound E X {a} K)"
  unfolding closed_def
proof (intro allI impI)
  fix w w' assume s: "sound E X {a} K w" and step: "room_step E a w w'"
  show "sound E X {a} K w'"
  proof (cases "calm_step E a w w'")
    case True
    with s show ?thesis by (rule calm_sound)
  next
    case False
    with step have "tail_step a w w'" by (simp add: room_step_def)
    then show ?thesis
    proof cases
      case (free r b)
      have "map_of (w_managing w) (rm_id r) = (if a \<in> X then None else Some a)"
        using s free(2) unfolding sound_def server_ok_def rooms_ok_def by blast
      with free(3) have "b = a" by (simp split: if_splits)
      with free s assms show ?thesis by (auto intro: free_sound)
    next
      case (mark r)
      then show ?thesis using sound_alike [OF s] alike_marked by blast
    next
      case (timer r)
      then show ?thesis using cancel_sound [OF s] by blast
    next
      case (forget r)
      then show ?thesis using iffD2 [OF sound_same s] by simp
    next
      case (unsub_game r)
      then show ?thesis using unsub_game_sound [OF s] by blast
    next
      case (unsub_left r)
      then show ?thesis using unsub_left_sound [OF s] by blast
    qed
  qed
qed

end
