(* ===== verification/Room_Safety.thy ===== *)
theory Room_Safety imports Server_Safety
begin

text \<open>
  The operations of one room in a well-formed server, for hooks that leave the membership of their room
  to the server: none of them uses a destroyed object or reaches the recursion bound, and the server is
  well-formed afterwards, however the operation ends.
\<close>

text \<open>\<open>ends B P f Q\<close>: from \<open>P\<close>, the step is left in none of the ways in \<open>B\<close>, and in a state with \<open>Q\<close>.\<close>

definition ends :: "'j outcome set \<Rightarrow> ('w \<Rightarrow> bool) \<Rightarrow> ('j, 'w) step \<Rightarrow> ('w \<Rightarrow> bool) \<Rightarrow> bool" where
  "ends B P f Q \<longleftrightarrow> (\<forall>w. P w \<longrightarrow> fst (f w) \<notin> B \<and> Q (snd (f w)))"

lemma endsI: "(\<And>w. P w \<Longrightarrow> fst (f w) \<notin> B \<and> Q (snd (f w))) \<Longrightarrow> ends B P f Q"
  by (simp add: ends_def)

lemma endsD: "ends B P f Q \<Longrightarrow> P w \<Longrightarrow> fst (f w) \<notin> B" "ends B P f Q \<Longrightarrow> P w \<Longrightarrow> Q (snd (f w))"
  by (simp_all add: ends_def)

lemma ends_safe: "safe B P f \<Longrightarrow> (\<And>w. P w \<Longrightarrow> Q w) \<Longrightarrow> ends B P f Q"
  by (simp add: ends_def safe_def)

lemma ends_seq: "safe B P f \<Longrightarrow> ends B P g Q \<Longrightarrow> (\<And>w. P w \<Longrightarrow> Q w) \<Longrightarrow> ends B P (seq f g) Q"
  by (fastforce simp: ends_def safe_def seq_def split: prod.splits outcome.splits)

lemma ends_weaken: "ends B P f Q \<Longrightarrow> (\<And>w. P' w \<Longrightarrow> P w) \<Longrightarrow> (\<And>w. Q w \<Longrightarrow> Q' w) \<Longrightarrow> ends B P' f Q'"
  by (simp add: ends_def)

abbreviation bad :: "json outcome set" where
  "bad \<equiv> {Undefined, NoFuel}"

text \<open>Outside a callback list the safety of a call is that of each callback.\<close>

context callback_store begin

lemma call_safe:
  assumes live: "\<And>w. I w \<Longrightarrow> \<exists>cs. get w = Some cs \<and> (\<forall>f \<in> ce_callback ` set (cb_entries cs). ok f)"
    and inv: "\<And>f cs. ok f \<Longrightarrow> safe bad (\<lambda>w. I w \<and> get w = Some cs) (invk f)"
    and put: "\<And>w c cs. I w \<Longrightarrow> get w = Some c \<Longrightarrow>
      ce_callback ` set (cb_entries cs) \<subseteq> ce_callback ` set (cb_entries c) \<Longrightarrow> I (put cs w)"
  shows "safe bad I (cb_call invk get put)"
proof -
  let ?J = "\<lambda>v n w. I w \<and> (\<exists>cs. get w = Some cs \<and> cb_version cs = v \<and> length (cb_entries cs) = n)"
  have entry: "safe bad (?J v n) (call_entry invk get put v i)" if i: "i < n" for v n i
  proof (rule safeI)
    fix w assume J: "?J v n w"
    then obtain cs where cs: "get w = Some cs" "cb_version cs = v" "length (cb_entries cs) = n" by blast
    then have ok: "ok (ce_callback (cb_entries cs ! i))" using live J i by fastforce
    show "fst (call_entry invk get put v i w) \<notin> bad \<and> ?J v n (snd (call_entry invk get put v i w))"
    proof (cases "spent (cb_entries cs ! i)")
      case True
      with J cs show ?thesis by (simp add: call_entry_def reading_def skip_def)
    next
      case False
      obtain r u where u: "invk (ce_callback (cb_entries cs ! i)) w = (r, u)" by fastforce
      have s: "r \<notin> bad" "I u" "get u = Some cs"
        using safeD [OF inv [OF ok, of cs], of w] J cs(1) u by auto
      have "set (cb_entries (set_called i cs)) \<subseteq> insert ((cb_entries cs ! i)\<lparr>ce_called_once := True\<rparr>) (set (cb_entries cs))"
        by (simp add: set_called_def set_update_subset_insert)
      then have "ce_callback ` set (cb_entries (set_called i cs)) \<subseteq> ce_callback ` set (cb_entries cs)"
        using i cs(3) by fastforce
      then have "I (put (set_called i cs) u)" using put s by blast
      moreover have "get (put (set_called i cs) u) = Some (set_called i cs)" using s get_put by simp
      moreover have "cb_version (set_called i cs) = v" "length (cb_entries (set_called i cs)) = n"
        using cs by (simp_all add: set_called_def)
      ultimately show ?thesis
        using False cs u s
        by (cases r) (auto simp: call_entry_def reading_def effect_def seq_def)
    qed
  qed
  show ?thesis
  proof (rule safeI)
    fix w assume I: "I w"
    then obtain cs where cs: "get w = Some cs" using live by blast
    let ?loop = "seqs (call_entry invk get put (cb_version cs)) [0..<length (cb_entries cs)]"
    have "safe bad (?J (cb_version cs) (length (cb_entries cs))) ?loop"
      by (rule safe_seqs) (auto intro: entry)
    moreover have "?J (cb_version cs) (length (cb_entries cs)) w" using I cs by simp
    ultimately have l: "fst (?loop w) \<notin> bad" "?J (cb_version cs) (length (cb_entries cs)) (snd (?loop w))"
      by (rule safeD)+
    obtain r u where u: "?loop w = (r, u)" by fastforce
    with l obtain c where c: "r \<notin> bad" "I u" "get u = Some c" by auto
    have "ce_callback ` set (cb_entries (cb_remove_called_once c)) \<subseteq> ce_callback ` set (cb_entries c)"
      by (auto simp: cb_remove_called_once_def erase_if_entries)
    then have "I (put (cb_remove_called_once c) u)" using put c by blast
    with cs u c show "fst (cb_call invk get put w) \<notin> bad \<and> I (snd (cb_call invk get put w))"
      by (cases r) (auto simp: cb_call_def reading_def effect_def skip_def seq_def)
  qed
qed

end

subsection \<open>Tame hooks\<close>

fun tame :: "act \<Rightarrow> bool" where
  "tame Dispose = False"
| "tame (RemoveFromRoom sid) = False"
| "tame x = True"

definition tame_prog :: "prog \<Rightarrow> bool" where
  "tame_prog p \<longleftrightarrow> (\<forall>g \<in> set p. \<forall>r. tame (g r))"

definition tame_hooks :: "hooks \<Rightarrow> bool" where
  "tame_hooks h \<longleftrightarrow> (\<forall>v. tame_prog (hk_create h v)) \<and> (\<forall>c v. tame_prog (hk_can_join h c v)) \<and>
     (\<forall>c v. tame_prog (hk_join h c v)) \<and> (\<forall>c k v. tame_prog (hk_message h c k v)) \<and>
     (\<forall>c b. tame_prog (hk_leave h c b)) \<and> tame_prog (hk_before_dispose h) \<and> tame_prog (hk_dispose h) \<and>
     (\<forall>k v. tame_prog (hk_external h k v)) \<and> (\<forall>l c. tame_prog (hk_join_cb h l c)) \<and>
     (\<forall>l c b. tame_prog (hk_leave_cb h l c b))"

text \<open>What a predicate has to stand for a tame hook to keep it.\<close>

definition tame_closed :: "env \<Rightarrow> nat \<Rightarrow> (world \<Rightarrow> bool) \<Rightarrow> bool" where
  "tame_closed E a P \<longleftrightarrow>
     (\<forall>w fs. P w \<longrightarrow> P (w\<lparr>w_frames := fs\<rparr>)) \<and>
     (\<forall>w s. P w \<longrightarrow> P (w\<lparr>w_storage := s\<rparr>)) \<and>
     (\<forall>w l. P w \<longrightarrow> P (w\<lparr>w_log := l\<rparr>)) \<and>
     (\<forall>w r v. P w \<longrightarrow> w_rooms w a = Some r \<longrightarrow> P (w\<lparr>w_rooms := (w_rooms w)(a \<mapsto> r\<lparr>rm_state := v\<rparr>)\<rparr>)) \<and>
     (\<forall>w r v. P w \<longrightarrow> w_rooms w a = Some r \<longrightarrow> P (w\<lparr>w_rooms := (w_rooms w)(a \<mapsto> r\<lparr>rm_metadata := v\<rparr>)\<rparr>)) \<and>
     (\<forall>w. P w \<longrightarrow> (\<exists>r. w_rooms w a = Some r))"

lemma tame_closed_live: "tame_closed E a P \<Longrightarrow> P w \<Longrightarrow> \<exists>r. w_rooms w a = Some r"
  by (simp add: tame_closed_def)

lemma safe_live_room:
  assumes "\<And>w. P w \<Longrightarrow> \<exists>r. w_rooms w a = Some r" "\<And>r. safe bad (\<lambda>w. P w \<and> w_rooms w a = Some r) (f r)"
  shows "ends bad P (with_room a f) P"
proof (rule endsI)
  fix w assume P: "P w"
  then obtain r where r: "w_rooms w a = Some r" using assms(1) by blast
  with safeD [OF assms(2) [of r], of w] P show "fst (with_room a f w) \<notin> bad \<and> P (snd (with_room a f w))" by simp
qed

lemma safe_live:
  assumes "\<And>w. P w \<Longrightarrow> \<exists>r. w_rooms w a = Some r" "\<And>r. safe bad P (f r)"
  shows "safe bad P (with_room a f)"
proof (rule safeI)
  fix w assume P: "P w"
  then obtain r where r: "w_rooms w a = Some r" using assms(1) by blast
  with safeD [OF assms(2) P, of r] show "fst (with_room a f w) \<notin> bad \<and> P (snd (with_room a f w))" by simp
qed

lemma tame_send: "tame_closed E a P \<Longrightarrow> safe bad P (send_frame_to_client sid event data)"
  unfolding send_frame_to_client_def
  by (intro safe_reading_all safe_case_option safe_skip safe_effect) (simp_all add: tame_closed_def)

lemma tame_client_send: "tame_closed E a P \<Longrightarrow> safe bad P (client_send a sid key data)"
  unfolding client_send_def by (intro safe_live tame_send) (simp_all add: tame_closed_live)

lemma tame_set_metadata:
  assumes "tame_closed E a P"
  shows "safe bad P (set_metadata E a m)"
proof -
  have "safe bad P (set_room a (\<lambda>r. r\<lparr>rm_metadata := m\<rparr>))"
    unfolding set_room_def
  proof (rule safeI)
    fix w assume P: "P w"
    then obtain r where r: "w_rooms w a = Some r" using assms by (auto dest: tame_closed_live)
    with P assms show "fst (with_room a (\<lambda>r. effect (\<lambda>w. w\<lparr>w_rooms := (w_rooms w)(a \<mapsto> r\<lparr>rm_metadata := m\<rparr>)\<rparr>)) w) \<notin> bad \<and>
        P (snd (with_room a (\<lambda>r. effect (\<lambda>w. w\<lparr>w_rooms := (w_rooms w)(a \<mapsto> r\<lparr>rm_metadata := m\<rparr>)\<rparr>)) w))"
      by (simp add: effect_def tame_closed_def)
  qed
  then show ?thesis
    unfolding set_metadata_def using assms
    by (intro safe_seq safe_live safe_reading_all safe_from_res safe_effect) (simp_all add: tame_closed_def)
qed

lemma tame_do_act:
  assumes "tame_closed E a P" "tame x"
  shows "safe bad P (do_act E n a x)"
proof (cases x)
  case (SetState v)
  show ?thesis
  proof (rule safeI)
    fix w assume P: "P w"
    then obtain r where "w_rooms w a = Some r" using assms by (auto dest: tame_closed_live)
    with P assms(1) SetState show "fst (do_act E n a x w) \<notin> bad \<and> P (snd (do_act E n a x w))"
      by (simp add: tame_closed_def)
  qed
next
  case (Broadcast key data)
  then show ?thesis
    using assms unfolding do_act.simps broadcast_def
    by (simp add: broadcast_def) (intro safe_live safe_seqs tame_client_send; simp add: tame_closed_live)
qed (use assms in \<open>simp_all add: tame_set_metadata tame_client_send safe_throw safe_skip\<close>)

lemma tame_run_prog:
  assumes "tame_closed E a P" "tame_prog p"
  shows "safe bad P (run_prog E n a p)"
  using assms(2)
proof (induction p)
  case (Cons g p)
  then show ?case
    using assms(1) unfolding run_prog.simps
    by (intro safe_seq safe_live tame_do_act) (simp_all add: tame_closed_live tame_prog_def)
qed (simp add: safe_skip)

subsection \<open>Leaving and disposal\<close>

lemma tame_log: "tame_closed E a P \<Longrightarrow> safe bad P (log_hook b h)"
  unfolding log_hook_def by (rule safe_effect) (simp_all add: tame_closed_def)

definition mild_closed :: "nat \<Rightarrow> (world \<Rightarrow> bool) \<Rightarrow> bool" where
  "mild_closed a P \<longleftrightarrow> (\<forall>w r r'. P w \<longrightarrow> w_rooms w a = Some r \<longrightarrow> mild r r' \<longrightarrow>
     P (w\<lparr>w_rooms := (w_rooms w)(a \<mapsto> r')\<rparr>))"

lemma mild_closedD: "mild_closed a P \<Longrightarrow> P w \<Longrightarrow> w_rooms w a = Some r \<Longrightarrow> mild r r' \<Longrightarrow>
    P (w\<lparr>w_rooms := (w_rooms w)(a \<mapsto> r')\<rparr>)"
  unfolding mild_closed_def by blast

lemma mild_set_room:
  assumes "tame_closed E a P" "mild_closed a P" "\<And>r. mild r (f r)"
  shows "safe bad P (set_room a f)"
proof (rule safeI)
  fix w assume P: "P w"
  then obtain r where "w_rooms w a = Some r" using assms(1) by (auto dest: tame_closed_live)
  then show "fst (set_room a f w) \<notin> bad \<and> P (snd (set_room a f w))"
    using mild_closedD [OF assms(2) P] assms(3) by simp
qed

lemma tame_closed_and_leave:
  assumes "tame_closed E a P"
  shows "tame_closed E a (\<lambda>w. P w \<and> get_leave a w = Some cs)"
  using assms unfolding tame_closed_def get_leave_def by simp (metis option.inject)

lemma tame_leave_callbacks:
  assumes "tame_closed E a P" "mild_closed a P" "\<And>l. tame_prog (f l)"
  shows "safe bad P (cb_call (\<lambda>l. run_prog E n a (f l)) (get_leave a) (put_leave a))"
proof (rule leave_table.call_safe [where ok = "\<lambda>_. True"])
  show "\<exists>cs. get_leave a w = Some cs \<and> (\<forall>f \<in> ce_callback ` set (cb_entries cs). True)" if "P w" for w
    using tame_closed_live [OF assms(1) that] by (auto simp: get_leave_def)
  show "safe bad (\<lambda>w. P w \<and> get_leave a w = Some cs) (run_prog E n a (f l))" for l cs
    by (rule tame_run_prog [OF tame_closed_and_leave [OF assms(1)] assms(3)])
  show "P (put_leave a cs w)" if "P w" "get_leave a w = Some c" for w c cs
    using that mild_closedD [OF assms(2) that(1) _ mild_intros(3)] by (auto simp: get_leave_def put_leave_def)
qed

lemma tame_hooksD:
  assumes "tame_hooks h"
  shows "tame_prog (hk_create h v)" "tame_prog (hk_can_join h c v)" "tame_prog (hk_join h c v)"
    "tame_prog (hk_message h c k v)" "tame_prog (hk_leave h c b)" "tame_prog (hk_before_dispose h)"
    "tame_prog (hk_dispose h)" "tame_prog (hk_external h k v)" "tame_prog (hk_join_cb h l c)"
    "tame_prog (hk_leave_cb h l c b)"
  using assms by (simp_all add: tame_hooks_def)

text \<open>A departure, up to the question whether the room is empty now.\<close>

lemma departure_safe:
  assumes P: "tame_closed E a P" "mild_closed a P" and h: "\<And>t. tame_hooks (e_hooks E t)"
    and final: "ends bad P (with_room a (\<lambda>r. if rm_clients r = [] then dispose E n a else skip)) Q"
    and Q: "\<And>w. P w \<Longrightarrow> Q w"
  shows "ends bad P (remove_client E (Suc n) a sid b) Q"
proof (rule endsI)
  fix w assume w: "P w"
  then obtain r where r: "w_rooms w a = Some r" using P(1) by (auto dest: tame_closed_live)
  have leave: "ends bad P (seq (set_room a (\<lambda>r. r\<lparr>rm_clients := erase_session sid (rm_clients r)\<rparr>))
          (seq (client_send a (sc_session_id c) removedFromRoom JNull)
          (seq (cb_call (\<lambda>l. run_prog E n a (hk_leave_cb (hooks_of E r) l c b))
                  (get_leave a) (put_leave a))
          (seq (log_hook a OnLeave)
          (seq (run_prog E n a (hk_leave (hooks_of E r) c b))
               (with_room a (\<lambda>r. if rm_clients r = [] then dispose E n a else skip))))))) Q" for c
    by (intro ends_seq mild_set_room [OF P] tame_client_send [OF P(1)] tame_leave_callbacks [OF P]
        tame_log [OF P(1)] tame_run_prog [OF P(1)] tame_hooksD [OF h] final mild_intros subseq_erase_session Q)
  show "fst (remove_client E (Suc n) a sid b w) \<notin> bad \<and> Q (snd (remove_client E (Suc n) a sid b w))"
    using r w Q endsD [OF leave w]
    by (simp add: remove_client.simps(2) skip_def split: option.split)
qed

text \<open>In a room that is being disposed a departure disposes of nothing.\<close>

lemma remove_disposing:
  assumes P: "tame_closed E a P" "mild_closed a P" and h: "\<And>t. tame_hooks (e_hooks E t)"
    and d: "\<And>w r. P w \<Longrightarrow> w_rooms w a = Some r \<Longrightarrow> rm_disposing r"
  shows "safe bad P (remove_client E (Suc (Suc n)) a sid b)"
proof -
  have "ends bad P (with_room a (\<lambda>r. if rm_clients r = [] then dispose E (Suc n) a else skip)) P"
  proof (rule endsI)
    fix w assume w: "P w"
    then obtain r where r: "w_rooms w a = Some r" using P(1) by (auto dest: tame_closed_live)
    with d w have "rm_disposing r" by blast
    with r w show "fst (with_room a (\<lambda>r. if rm_clients r = [] then dispose E (Suc n) a else skip) w) \<notin> bad \<and>
      P (snd (with_room a (\<lambda>r. if rm_clients r = [] then dispose E (Suc n) a else skip) w))"
      by (simp add: dispose.simps skip_def)
  qed
  from departure_safe [OF P h this] show ?thesis by (auto simp: ends_def safe_def)
qed

definition tail_closed :: "nat \<Rightarrow> (world \<Rightarrow> bool) \<Rightarrow> bool" where
  "tail_closed a P \<longleftrightarrow> (\<forall>w r. P w \<longrightarrow> w_rooms w a = Some r \<longrightarrow> rm_disposing r \<and>
     P (w\<lparr>w_sched := timer_clear (rm_auto_dispose_timer r) (w_sched w)\<rparr>) \<and>
     P (w\<lparr>w_pubsub := snd (ps_unsubscribe (rm_game_message_sub r) (w_pubsub w)),
          w_rooms := (w_rooms w)(a \<mapsto> r\<lparr>rm_game_message_sub := None\<rparr>)\<rparr>) \<and>
     P (w\<lparr>w_pubsub := snd (ps_unsubscribe (rm_player_left_sub r) (w_pubsub w)),
          w_rooms := (w_rooms w)(a \<mapsto> r\<lparr>rm_player_left_sub := None\<rparr>)\<rparr>))"

text \<open>What \<open>dispose\<close> runs on a room it has marked, up to the last step.\<close>

definition dispose_but_last :: "env \<Rightarrow> nat \<Rightarrow> nat \<Rightarrow> room \<Rightarrow> wstep" where
  "dispose_but_last E m a r =
     seq (seqs (\<lambda>sid. remove_client E m a sid True) (map sc_session_id (rm_clients r)))
    (seq (log_hook a BeforeDispose)
    (seq (run_prog E m a (hk_before_dispose (hooks_of E r)))
    (seq (clear_auto_dispose a)
    (seq (forget_room a)
    (seq (unsubscribe_game_message a)
    (seq (unsubscribe_player_left a)
    (seq (log_hook a OnDispose)
         (run_prog E m a (hk_dispose (hooks_of E r))))))))))"

lemma dispose_split:
  "dispose_body E m a r = seq (dispose_but_last E m a r) (with_room a (\<lambda>r. on_room_disposed (rm_id r)))"
  by (simp add: dispose_but_last_def seq_assoc)

lemma dispose_but_last_safe:
  assumes P: "tame_closed E a P" "mild_closed a P" "tail_closed a P" and h: "\<And>t. tame_hooks (e_hooks E t)"
  shows "safe bad P (dispose_but_last E (Suc (Suc m)) a r)"
proof -
  have d: "\<And>w r. P w \<Longrightarrow> w_rooms w a = Some r \<Longrightarrow> rm_disposing r" using P(3) by (simp add: tail_closed_def)
  have step: "safe bad P f" if "\<And>w r. P w \<Longrightarrow> w_rooms w a = Some r \<Longrightarrow> fst (f w) \<notin> bad \<and> P (snd (f w))" for f
    using that tame_closed_live [OF P(1)] by (metis safeI)
  have "safe bad P (clear_auto_dispose a)" "safe bad P (forget_room a)"
    "safe bad P (unsubscribe_game_message a)" "safe bad P (unsubscribe_player_left a)"
    by (rule step; use P(1,3) in \<open>simp add: tail_closed_def tame_closed_def clear_auto_dispose_def forget_room_def
          unsubscribe_game_message_def unsubscribe_player_left_def effect_def\<close>)+
  then show ?thesis
    unfolding dispose_but_last_def
    by (intro safe_seq safe_seqs remove_disposing [OF P(1,2) h d] tame_log [OF P(1)] tame_run_prog [OF P(1)]
        tame_hooksD [OF h]) simp_all
qed

lemma dispose_run:
  assumes r: "w_rooms w a = Some r" "\<not> rm_disposing r"
  shows "dispose E (Suc m) a w = seq (dispose_but_last E m a r) (with_room a (\<lambda>r. on_room_disposed (rm_id r)))
    (w\<lparr>w_rooms := (w_rooms w)(a \<mapsto> r\<lparr>rm_disposing := True\<rparr>)\<rparr>)"
  using r by (simp add: dispose.simps(2) flip: dispose_split)

subsection \<open>Rooms of a well-formed server\<close>

lemma sound_tame_closed: "tame_closed E a (sound E X D (insert a K))"
  unfolding tame_closed_def
proof (intro conjI allI impI)
  fix w r v assume s: "sound E X D (insert a K) w"
  show "\<exists>r. w_rooms w a = Some r" using s by (auto dest: soundD)
  assume r: "w_rooms w a = Some r"
  show "sound E X D (insert a K) (w\<lparr>w_rooms := (w_rooms w)(a \<mapsto> r\<lparr>rm_state := v\<rparr>)\<rparr>)"
    by (rule sound_alike [OF s r]) (simp add: alike_def)
  show "sound E X D (insert a K) (w\<lparr>w_rooms := (w_rooms w)(a \<mapsto> r\<lparr>rm_metadata := v\<rparr>)\<rparr>)"
    by (rule sound_alike [OF s r]) (simp add: alike_def)
qed (erule iffD2 [OF sound_same, rotated -1], simp_all)+

lemma sound_mild_closed: "mild_closed a (sound E X D K)"
  unfolding mild_closed_def using sound_alike mild_alike by blast

text \<open>A well-formed server whose room \<open>a\<close> is being disposed.\<close>

definition disposing :: "env \<Rightarrow> nat set \<Rightarrow> nat set \<Rightarrow> nat \<Rightarrow> nat set \<Rightarrow> world \<Rightarrow> bool" where
  "disposing E X D a K w \<longleftrightarrow> sound E X D (insert a K) w \<and> (\<exists>r. w_rooms w a = Some r \<and> rm_disposing r)"

lemma disposing_closed:
  "tame_closed E a (disposing E X D a K)" "mild_closed a (disposing E X D a K)" "tail_closed a (disposing E X D a K)"
proof -
  show "tame_closed E a (disposing E X D a K)"
    using sound_tame_closed [of E a X D K] unfolding tame_closed_def disposing_def
    by simp (metis option.inject)
  show "mild_closed a (disposing E X D a K)"
    unfolding mild_closed_def
  proof (intro allI impI)
    fix w r r' assume "disposing E X D a K w" and r: "w_rooms w a = Some r" "mild r r'"
    then have s: "sound E X D (insert a K) w" "rm_disposing r" by (auto simp: disposing_def)
    with r sound_alike [OF s(1) r(1) mild_alike [OF r(2)]]
    show "disposing E X D a K (w\<lparr>w_rooms := (w_rooms w)(a \<mapsto> r')\<rparr>)" by (simp add: disposing_def mild_fields)
  qed
  show "tail_closed a (disposing E X D a K)"
    unfolding tail_closed_def disposing_def
    by (auto intro: cancel_sound unsub_game_sound unsub_left_sound)
qed

text \<open>Once the room is gone, or lives, no closure of it is left dangling.\<close>

lemma sound_settled:
  assumes s: "sound E X (insert a D) K w" and a: "w_rooms w a \<noteq> None \<or>
      no_handler (GameMessage a) w \<and> no_handler (PlayerLeft a) w \<and> no_timer a w"
  shows "sound E X D K w"
proof -
  note ok = s [unfolded sound_def server_ok_def]
  have "listener_ok D (w_rooms w) k l" if l: "l \<in> set (ps_listeners (w_pubsub w) k)" for k l
  proof -
    have "listener_ok (insert a D) (w_rooms w) k l" using ok l unfolding listeners_ok_def by blast
    moreover have "w_rooms w a \<noteq> None \<or> ls_handler l \<noteq> GameMessage a \<and> ls_handler l \<noteq> PlayerLeft a"
      using a l unfolding no_handler_def by blast
    ultimately show ?thesis
      by (cases "ls_handler l") (auto simp: listener_ok_def elim!: held_mono)
  qed
  moreover have "timer_ok D (w_rooms w) (w_next_room w) (w_sched w) t" if t: "t \<in> set (sc_tasks (w_sched w))" for t
  proof -
    have "timer_ok (insert a D) (w_rooms w) (w_next_room w) (w_sched w) t" using ok t unfolding timers_ok_def by blast
    moreover have "w_rooms w a \<noteq> None \<or> (tk_callback t = AutoDispose a \<longrightarrow> sc_cancelled (w_sched w) (tk_flag t))"
      using a t unfolding no_timer_def by blast
    ultimately show ?thesis
      by (cases "tk_callback t") (auto simp: timer_ok_def elim!: held_mono)
  qed
  ultimately show ?thesis
    using ok unfolding sound_def server_ok_def listeners_ok_def timers_ok_def by blast
qed

text \<open>In a well-formed server the closures of a room are those it holds handles of.\<close>

lemma sound_wired:
  assumes s: "sound E X D K w" and r: "w_rooms w a = Some r" and x: "a \<notin> X"
  shows "wired a r w"
proof -
  note ok = s [unfolded sound_def server_ok_def]
  have "map_of (w_managing w) (rm_id r) = Some a" using ok r x unfolding rooms_ok_def by metis
  moreover have "(ls_handler l = GameMessage a \<longrightarrow> rm_game_message_sub r = Some (k, ls_id l)) \<and>
        (ls_handler l = PlayerLeft a \<longrightarrow> rm_player_left_sub r = Some (k, ls_id l))"
    if "l \<in> set (ps_listeners (w_pubsub w) k)" for k l
  proof -
    have "listener_ok D (w_rooms w) k l" using ok that unfolding listeners_ok_def by blast
    with r show ?thesis by (auto simp: listener_ok_def)
  qed
  moreover have "rm_auto_dispose_timer r = Some (tk_flag t)"
    if "t \<in> set (sc_tasks (w_sched w))" "tk_callback t = AutoDispose a" for t
  proof -
    have "timer_ok D (w_rooms w) (w_next_room w) (w_sched w) t" using ok that unfolding timers_ok_def by blast
    with r that show ?thesis by (simp add: timer_ok_def)
  qed
  ultimately show ?thesis unfolding wired_def by blast
qed

text \<open>\<open>dump\<close> throws for strings only: a snapshot of writable strings can be written.\<close>

definition client_ok :: "env \<Rightarrow> simple_client \<Rightarrow> bool" where
  "client_ok E c \<longleftrightarrow> writable E (sc_id c) \<and> writable E (sc_session_id c) \<and> writable E (sc_origin c) \<and> writable E (sc_ip c)"

definition writes_snapshots :: "env \<Rightarrow> bool" where
  "writes_snapshots E \<longleftrightarrow> (\<forall>i name c t. writable E i \<and> writable E name \<and> client_ok E c \<longrightarrow>
     jl_dump (e_json E) (snapshot_to_json
       \<lparr>rs_id = i, rs_type = name, rs_owner = c, rs_metadata = empty_object, rs_created_at = t\<rparr>) \<noteq> None)"

text \<open>
  Hooks that leave the membership to the server, room identifiers drawn by \<open>random_id()\<close>, which do not
  repeat and, being one character longer, are never the key of the departures.
\<close>

definition tame_env :: "env \<Rightarrow> bool" where
  "tame_env E \<longleftrightarrow> (\<forall>t. tame_hooks (e_hooks E t)) \<and> e_idgen E = None \<and> inj (e_rid E) \<and>
     PLAYER_LEFT \<notin> range (e_rid E) \<and> writable E [] \<and> (\<forall>i. writable E (e_rid E i)) \<and> writes_snapshots E"

lemma tame_env_hooks: "tame_env E \<Longrightarrow> tame_hooks (e_hooks E t)"
  by (simp add: tame_env_def)

lemma dispose_safe:
  assumes E: "tame_env E" and a: "a \<notin> X" "a \<notin> K"
  shows "ends bad (sound E X {} (insert a K)) (dispose E (Suc (Suc (Suc m))) a) (sound E X {} K)"
proof (rule endsI)
  fix w assume s: "sound E X {} (insert a K) w"
  then obtain r where r: "w_rooms w a = Some r" by (auto dest: soundD)
  let ?d = "dispose E (Suc (Suc (Suc m))) a"
  have s2: "sound E X {a} K w" using sound_mono [OF s] sound_sub by blast
  have after: "sound E X {a} K (snd (?d w))"
    using keepsD [OF room_ops_keep(4) [OF closed_sound [OF a(2)]] s2] .
  show "fst (?d w) \<notin> bad \<and> sound E X {} K (snd (?d w))"
  proof (cases "rm_disposing r")
    case True
    with r s show ?thesis by (simp add: dispose.simps skip_def sound_sub [of _ _ _ "insert a K"] subset_insertI)
  next
    case False
    let ?w = "w\<lparr>w_rooms := (w_rooms w)(a \<mapsto> r\<lparr>rm_disposing := True\<rparr>)\<rparr>"
    have "disposing E X {} a K ?w"
      unfolding disposing_def using sound_alike [OF s r alike_marked] by simp
    note but = safeD [OF dispose_but_last_safe [OF disposing_closed tame_env_hooks [OF E]] this, of m r]
    obtain res u where u: "dispose_but_last E (Suc (Suc m)) a r ?w = (res, u)" by fastforce
    obtain ru where ru: "w_rooms u a = Some ru" using but(2) u by (auto simp: disposing_def)
    note run = dispose_run [OF r False, of E "Suc (Suc m)"]
    show ?thesis
    proof (cases "res = Normal")
      case True
      have n: "fst (?d w) = Normal"
        using run u ru True
        by (auto simp: on_room_disposed_def reading_def skip_def effect_def split: option.split)
      then obtain w' where w': "?d w = (Normal, w')" by (metis prod.collapse)
      have "gone a (rm_id r) w'"
        by (rule dispose_leads_gone [OF r False sound_wired [OF s r a(1)] w'])
      with after w' show ?thesis
        by (auto simp: gone_def intro: sound_settled)
    next
      case False
      then have "?d w = (res, u)" using run u by (simp add: seq_stop)
      with but u show ?thesis
        by (auto simp: disposing_def intro: sound_sub)
    qed
  qed
qed

text \<open>A client that leaves a room from outside it.\<close>

lemma remove_client_safe:
  assumes E: "tame_env E" and a: "a \<notin> X" "a \<notin> K"
  shows "ends bad (sound E X {} (insert a K)) (remove_client E (Suc (Suc (Suc (Suc m)))) a sid b) (sound E X {} K)"
proof (rule departure_safe [OF sound_tame_closed sound_mild_closed tame_env_hooks [OF E]])
  show "sound E X {} K w" if "sound E X {} (insert a K) w" for w using that by (rule sound_sub) blast
  have "ends bad (sound E X {} (insert a K)) (if b then dispose E (Suc (Suc (Suc m))) a else skip) (sound E X {} K)" for b
    using dispose_safe [OF E a, of m] ends_safe [OF safe_skip, of bad "sound E X {} (insert a K)"]
    by (simp add: sound_sub subset_insertI)
  note final = this
  show "ends bad (sound E X {} (insert a K))
      (with_room a (\<lambda>r. if rm_clients r = [] then dispose E (Suc (Suc (Suc m))) a else skip)) (sound E X {} K)"
  proof (rule endsI)
    fix w assume w: "sound E X {} (insert a K) w"
    then obtain r where "w_rooms w a = Some r" by (auto dest: soundD)
    with endsD [OF final [of "rm_clients r = []"] w]
    show "fst (with_room a (\<lambda>r. if rm_clients r = [] then dispose E (Suc (Suc (Suc m))) a else skip) w) \<notin> bad \<and>
      sound E X {} K (snd (with_room a (\<lambda>r. if rm_clients r = [] then dispose E (Suc (Suc (Suc m))) a else skip) w))"
      by simp
  qed
qed

end
