(* ===== verification/Handler_Safety.thy ===== *)
theory Handler_Safety imports Room_Safety
begin

text \<open>
  The handlers of the listener table in a well-formed server: joins, messages, external messages,
  requests for information and departures, and the publication to all listeners of a key.
\<close>

subsection \<open>Joins and messages\<close>

lemma alike_set_room:
  assumes "\<And>r. alike r (f r)"
  shows "safe bad (sound E X D (insert a K)) (set_room a f)"
proof (rule safeI)
  fix w assume s: "sound E X D (insert a K) w"
  then obtain r where "w_rooms w a = Some r" by (auto dest: soundD)
  with sound_alike [OF s this assms]
  show "fst (set_room a f w) \<notin> bad \<and> sound E X D (insert a K) (snd (set_room a f w))" by simp
qed

lemma live_room: "sound E X D (insert a K) w \<Longrightarrow> \<exists>r. w_rooms w a = Some r"
  by (auto dest: soundD)

lemma tame_closed_and_join:
  assumes "tame_closed E a P"
  shows "tame_closed E a (\<lambda>w. P w \<and> get_join a w = Some cs)"
  using assms unfolding tame_closed_def get_join_def by simp (metis option.inject)

lemma join_callbacks_safe:
  assumes E: "tame_env E"
  shows "safe bad (sound E X D (insert a K)) (cb_call (run_join_cb E n a c) (get_join a) (put_join a))"
proof (rule join_table.call_safe [where ok = "\<lambda>f. \<exists>l. f = UserJoin l"])
  fix w assume s: "sound E X D (insert a K) w"
  then obtain r where r: "w_rooms w a = Some r" by (auto dest: soundD)
  then have "\<forall>f \<in> ce_callback ` set (cb_entries (rm_join_listeners r)). \<exists>l. f = UserJoin l"
    using s unfolding sound_def server_ok_def rooms_ok_def by blast
  with r show "\<exists>cs. get_join a w = Some cs \<and> (\<forall>f \<in> ce_callback ` set (cb_entries cs). \<exists>l. f = UserJoin l)"
    by (simp add: get_join_def)
next
  fix f :: join_cb and cs assume "\<exists>l. f = UserJoin l"
  then obtain l where f: "f = UserJoin l" by blast
  let ?P = "\<lambda>w. sound E X D (insert a K) w \<and> get_join a w = Some cs"
  have t: "tame_closed E a ?P" by (rule tame_closed_and_join [OF sound_tame_closed])
  show "safe bad ?P (run_join_cb E n a c f)"
    unfolding f run_join_cb.simps
    by (intro safe_live tame_run_prog [OF t] tame_hooksD [OF tame_env_hooks [OF E]]) (auto dest: soundD)
next
  fix w and c' cs :: "join_cb callbacks" assume s: "sound E X D (insert a K) w" and c: "get_join a w = Some c'"
    and sub: "ce_callback ` set (cb_entries cs) \<subseteq> ce_callback ` set (cb_entries c')"
  then obtain r where r: "w_rooms w a = Some r" "rm_join_listeners r = c'" by (auto simp: get_join_def)
  then have "alike r (r\<lparr>rm_join_listeners := cs\<rparr>)" using sub by (simp add: alike_def)
  from sound_alike [OF s r(1) this] r(1) show "sound E X D (insert a K) (put_join a cs w)"
    by (simp add: put_join_def)
qed

lemma add_client_safe:
  assumes E: "tame_env E"
  shows "safe bad (sound E X D (insert a K)) (add_client E n a c opts)"
  unfolding add_client_def client_has_joined_def
  by (intro safe_seq alike_set_room tame_client_send [OF sound_tame_closed] join_callbacks_safe [OF E]
      tame_log [OF sound_tame_closed] safe_live live_room tame_run_prog [OF sound_tame_closed]
      tame_hooksD [OF tame_env_hooks [OF E]]) (simp_all add: alike_def)

lemma join_request_safe:
  assumes E: "tame_env E"
  shows "safe bad (sound E X D (insert a K)) (join_request E n a c opts)"
  unfolding join_request_def
  by (intro safe_catch_std safe_seq tame_log [OF sound_tame_closed] safe_live live_room
      tame_run_prog [OF sound_tame_closed] tame_hooksD [OF tame_env_hooks [OF E]] add_client_safe [OF E]
      tame_send [OF sound_tame_closed [of E a]])

lemma message_request_safe:
  assumes E: "tame_env E"
  shows "safe bad (sound E X D (insert a K)) (message_request E n a c payload)"
  unfolding message_request_def
  by (intro safe_live live_room safe_case_option safe_skip safe_from_res safe_seq tame_log [OF sound_tame_closed]
      tame_run_prog [OF sound_tame_closed] tame_hooksD [OF tame_env_hooks [OF E]]) simp_all

lemma external_request_safe:
  assumes E: "tame_env E"
  shows "safe bad (sound E X D (insert a K)) (external_request E n a payload)"
  unfolding external_request_def
  by (intro safe_from_res safe_if safe_skip safe_live live_room safe_seq tame_log [OF sound_tame_closed]
      tame_run_prog [OF sound_tame_closed] tame_hooksD [OF tame_env_hooks [OF E]]) simp_all

lemma game_message_safe:
  assumes E: "tame_env E"
    and pub: "\<And>r. safe bad (sound E X D (insert a K)) (pub REQUEST_INFO (info_reply r))"
  shows "safe bad (sound E X D (insert a K)) (game_message E n pub a payload)"
  unfolding game_message_def
  by (intro safe_if safe_skip safe_from_res safe_live live_room pub external_request_safe [OF E]
      join_request_safe [OF E] message_request_safe [OF E]) simp_all

subsection \<open>Publications\<close>

text \<open>An answer to a request for information: the waiting threads note it, a room ignores it.\<close>

lemma sound_admin [simp]: "sound E X D K (w\<lparr>w_admin := x\<rparr>) = sound E X D K w"
  by (rule sound_same) simp_all

lemma info_ignored: "game_message E n pub a (info_reply r) = skip"
  by (simp add: game_message_def info_reply_def jobj_def jcontains_def jlookup_def)

lemma answer_safe:
  "safe bad (sound E X D K) (ps_publish (invoke E n (Suc d)) w_pubsub REQUEST_INFO (info_reply r))"
proof (rule safeI)
  fix w assume s: "sound E X D K w"
  let ?ls = "ps_listeners (w_pubsub w) REQUEST_INFO"
  have "safe bad (sound E X D K) (invoke E n (Suc d) (ls_handler l) (info_reply r))" if "l \<in> set ?ls" for l
  proof -
    have "listener_ok D (w_rooms w) REQUEST_INFO l"
      using s that unfolding sound_def server_ok_def listeners_ok_def by blast
    then show ?thesis
      by (cases "ls_handler l")
        (auto simp: listener_ok_def info_ignored REQUEST_INFO_def PLAYER_LEFT_def intro!: safe_skip safe_effect)
  qed
  then have "safe bad (sound E X D K) (seqs (\<lambda>l. invoke E n (Suc d) (ls_handler l) (info_reply r)) ?ls)"
    by (intro safe_seqs) simp_all
  from safeD [OF this s] show "fst (ps_publish (invoke E n (Suc d)) w_pubsub REQUEST_INFO (info_reply r) w) \<notin> bad \<and>
      sound E X D K (snd (ps_publish (invoke E n (Suc d)) w_pubsub REQUEST_INFO (info_reply r) w))"
    by (simp add: ps_publish_seqs)
qed

text \<open>The room a handler belongs to.\<close>

fun room_of :: "handler \<Rightarrow> nat set" where
  "room_of (GameMessage a) = {a}"
| "room_of (PlayerLeft a) = {a}"
| "room_of (AdminInfo q) = {}"

lemma invoke_safe:
  assumes E: "tame_env E" and K: "room_of h \<inter> K = {}"
  shows "ends bad (sound E {} {} (room_of h \<union> K)) (invoke E (Suc (Suc (Suc (Suc m)))) (Suc (Suc d)) h payload)
    (sound E {} {} K)"
proof (cases h)
  case (GameMessage a)
  have "safe bad (sound E {} {} (insert a K)) (invoke E (Suc (Suc (Suc (Suc m)))) (Suc (Suc d)) h payload)"
    unfolding GameMessage invoke.simps by (rule game_message_safe [OF E], rule answer_safe)
  then show ?thesis by (rule ends_safe [THEN ends_weaken]) (auto simp: GameMessage intro: sound_sub)
next
  case (PlayerLeft a)
  have "a \<notin> K" using K PlayerLeft by simp
  then have "ends bad (sound E {} {} (insert a K)) (remove_client E (Suc (Suc (Suc (Suc m)))) a sid b) (sound E {} {} K)" for sid b
    by (intro remove_client_safe [OF E]) simp_all
  moreover have "ends bad (sound E {} {} (insert a K)) (throw e) (sound E {} {} K)" for e
    by (rule ends_safe [OF safe_throw]) (auto intro: sound_sub)
  ultimately show ?thesis
    by (cases "get_string payload") (simp_all add: PlayerLeft)
next
  case (AdminInfo q)
  then show ?thesis by (auto simp: ends_def effect_def)
qed

lemma listener_live:
  assumes s: "sound E X {} K w" and l: "l \<in> set (ps_listeners (w_pubsub w) k)" "a \<in> room_of (ls_handler l)"
  shows "w_rooms w a \<noteq> None"
proof -
  have "listener_ok {} (w_rooms w) k l" using s l(1) unfolding sound_def server_ok_def listeners_ok_def by blast
  with l(2) show ?thesis by (cases "ls_handler l"; cases "w_rooms w a") (auto simp: listener_ok_def)
qed

text \<open>Two listeners of one key never belong to the same room.\<close>

lemma listeners_apart:
  assumes E: "tame_env E" and s: "sound E {} {} K w"
    and l: "l \<in> set (ps_listeners (w_pubsub w) k)" "l' \<in> set (ps_listeners (w_pubsub w) k)"
    and "a \<in> room_of (ls_handler l)" "a \<in> room_of (ls_handler l')"
  shows "l = l'"
proof -
  obtain r where r: "w_rooms w a = Some r" using listener_live [OF s l(1)] assms(5) by auto
  have ok: "listener_ok {} (w_rooms w) k l" "listener_ok {} (w_rooms w) k l'"
    and d: "distinct (map ls_id (ps_listeners (w_pubsub w) k))"
    using s l unfolding sound_def server_ok_def listeners_ok_def by blast+
  have "map_of (w_managing w) (rm_id r) = Some a"
    using s r unfolding sound_def server_ok_def rooms_ok_def by fastforce
  then have "rm_id r \<in> drawn E (w_ids w)" using s unfolding sound_def server_ok_def managing_ok_def by blast
  then have "rm_id r \<noteq> PLAYER_LEFT" using E by (auto simp: tame_env_def drawn_def)
  with ok r assms(5,6) have "ls_id l = ls_id l'"
    by (cases "ls_handler l"; cases "ls_handler l'") (auto simp: listener_ok_def)
  with d l show ?thesis by (meson distinct_map inj_onD)
qed

text \<open>The rooms of a list of listeners, each of them told in turn.\<close>

definition rooms_of :: "handler listener list \<Rightarrow> nat set" where
  "rooms_of ls = (\<Union>l \<in> set ls. room_of (ls_handler l))"

lemma invoke_all:
  assumes E: "tame_env E"
    and "\<And>i j a. i < length ls \<Longrightarrow> j < length ls \<Longrightarrow> a \<in> room_of (ls_handler (ls ! i)) \<Longrightarrow>
      a \<in> room_of (ls_handler (ls ! j)) \<Longrightarrow> i = j"
  shows "ends bad (sound E {} {} (rooms_of ls))
    (seqs (\<lambda>l. invoke E (Suc (Suc (Suc (Suc m)))) (Suc (Suc d)) (ls_handler l) payload) ls) (sound E {} {} {})"
  using assms(2)
proof (induction ls)
  case Nil
  then show ?case by (auto simp: ends_def skip_def intro: sound_sub)
next
  case (Cons l ls)
  have "room_of (ls_handler l) \<inter> rooms_of ls = {}"
  proof (rule ccontr)
    assume "room_of (ls_handler l) \<inter> rooms_of ls \<noteq> {}"
    then obtain a j where "a \<in> room_of (ls_handler l)" "j < length ls" "a \<in> room_of (ls_handler (ls ! j))"
      by (auto simp: rooms_of_def in_set_conv_nth)
    then have "0 = Suc j" using Cons.prems [of 0 "Suc j" a] by simp
    then show False by simp
  qed
  note first = invoke_safe [OF E this, of m d payload]
  have "ends bad (sound E {} {} (rooms_of ls))
    (seqs (\<lambda>l. invoke E (Suc (Suc (Suc (Suc m)))) (Suc (Suc d)) (ls_handler l) payload) ls) (sound E {} {} {})"
  proof (rule Cons.IH)
    fix i j a assume "i < length ls" "j < length ls" "a \<in> room_of (ls_handler (ls ! i))" "a \<in> room_of (ls_handler (ls ! j))"
    then show "i = j" using Cons.prems [of "Suc i" "Suc j" a] by simp
  qed
  moreover have "rooms_of (l # ls) = room_of (ls_handler l) \<union> rooms_of ls" by (simp add: rooms_of_def)
  ultimately show ?case
    using first by (auto simp: ends_def seq_def split: prod.splits outcome.splits) (fastforce intro: sound_sub)+
qed

lemma publish_safe:
  assumes E: "tame_env E"
  shows "safe bad (sound E {} {} {}) (publish E (Suc (Suc (Suc (Suc m)))) (Suc (Suc d)) key data)"
proof (rule safeI)
  fix w assume s: "sound E {} {} {} w"
  let ?ls = "ps_listeners (w_pubsub w) key"
  have "sound E {} {} (rooms_of ?ls) w"
    using s listener_live [OF s] by (auto simp: sound_def rooms_of_def)
  moreover have "i = j" if "i < length ?ls" "j < length ?ls" "a \<in> room_of (ls_handler (?ls ! i))"
      "a \<in> room_of (ls_handler (?ls ! j))" for i j a
  proof -
    have "?ls ! i = ?ls ! j" using that by (intro listeners_apart [OF E s nth_mem nth_mem])
    moreover have "distinct ?ls" using s unfolding sound_def server_ok_def listeners_ok_def by (simp add: distinct_map)
    ultimately show ?thesis using that by (simp add: nth_eq_iff_index_eq)
  qed
  ultimately show "fst (publish E (Suc (Suc (Suc (Suc m)))) (Suc (Suc d)) key data w) \<notin> bad \<and>
      sound E {} {} {} (snd (publish E (Suc (Suc (Suc (Suc m)))) (Suc (Suc d)) key data w))"
    using endsD [OF invoke_all [OF E, of ?ls m d data]] by (simp add: publish_def ps_publish_seqs)
qed

end
