(* ===== verification/Create_Safety.thy ===== *)
theory Create_Safety imports Handler_Safety
begin

text \<open>
  Creating a room in a well-formed server: the new object is subscribed and given its timer before it is
  managed, and destroyed again when a hook throws.
\<close>

subsection \<open>Identifiers, subscriptions and timers\<close>

lemma drawn_Suc: "drawn E (Suc n) = insert (e_rid E n) (drawn E n)"
  by (auto simp: drawn_def lessThan_Suc)

lemma new_not_drawn: "inj (e_rid E) \<Longrightarrow> e_rid E n \<notin> drawn E n"
  by (auto simp: drawn_def dest: injD)

lemma managing_ok_mono: "managing_ok ids mg rs \<Longrightarrow> ids \<subseteq> ids' \<Longrightarrow> managing_ok ids' mg rs"
  unfolding managing_ok_def by blast

lemma listeners_ok_mono: "listeners_ok ids D rs ps \<Longrightarrow> ids \<subseteq> ids' \<Longrightarrow> listeners_ok ids' D rs ps"
  unfolding listeners_ok_def by blast

lemma sound_draw: "sound E X D K w \<Longrightarrow> sound E X D K (w\<lparr>w_ids := Suc (w_ids w)\<rparr>)"
  unfolding sound_def server_ok_def
  by (simp add: drawn_Suc managing_ok_mono [OF _ subset_insertI] listeners_ok_mono [OF _ subset_insertI])

lemma listeners_on:
  assumes "inj (e_rid E)" "listeners_ok (drawn E n) D rs ps"
    and new: "listener_ok D rs' key \<lparr>ls_id = e_rid E n, ls_handler = h\<rparr>"
    and old: "\<And>k l. listener_ok D rs k l \<Longrightarrow> listener_ok D rs' k l"
  shows "listeners_ok (drawn E (Suc n)) D rs' (snd (ps_on (e_rid E n) key h ps))"
  unfolding listeners_ok_def
proof (intro allI conjI ballI)
  fix k
  have "distinct (map ls_id (ps_listeners ps k))" "ls_id ` set (ps_listeners ps k) \<subseteq> drawn E n"
    using assms(2) unfolding listeners_ok_def by blast+
  then show "distinct (map ls_id (ps_listeners (snd (ps_on (e_rid E n) key h ps)) k))"
    using new_not_drawn [OF assms(1), of n] by (auto simp: ps_listeners_on)
  fix l assume "l \<in> set (ps_listeners (snd (ps_on (e_rid E n) key h ps)) k)"
  then consider "l \<in> set (ps_listeners ps k)" | "k = key" "l = \<lparr>ls_id = e_rid E n, ls_handler = h\<rparr>"
    by (auto simp: ps_listeners_on split: if_splits)
  then show "ls_id l \<in> drawn E (Suc n)" "listener_ok D rs' k l"
    using assms(2) new old unfolding listeners_ok_def drawn_Suc by (cases; auto)+
qed

lemma listener_upd:
  assumes "listener_ok D rs k l" "rs a = Some r" "rm_id r' = rm_id r"
    and "rm_game_message_sub r' = rm_game_message_sub r \<or> rm_game_message_sub r = None"
    and "rm_player_left_sub r' = rm_player_left_sub r \<or> rm_player_left_sub r = None"
  shows "listener_ok D (rs(a \<mapsto> r')) k l"
  by (rule listener_ok_upd [OF assms(1-3)]) (use assms in \<open>auto simp: listener_ok_def\<close>)

text \<open>A room subscribes.\<close>

lemma on_sound:
  assumes "inj (e_rid E)" "sound E X D K w" "w_rooms w a = Some r" "rm_id r' = rm_id r"
    "rm_auto_dispose_timer r' = rm_auto_dispose_timer r" "rm_join_listeners r' = rm_join_listeners r"
    and "rm_game_message_sub r' = rm_game_message_sub r \<or> rm_game_message_sub r = None"
    and "rm_player_left_sub r' = rm_player_left_sub r \<or> rm_player_left_sub r = None"
    and new: "listener_ok D ((w_rooms w)(a \<mapsto> r')) key \<lparr>ls_id = e_rid E (w_ids w), ls_handler = h\<rparr>"
  shows "sound E X D K (w\<lparr>w_ids := Suc (w_ids w), w_pubsub := snd (ps_on (e_rid E (w_ids w)) key h (w_pubsub w)),
    w_rooms := (w_rooms w)(a \<mapsto> r')\<rparr>)"
proof -
  note ok = assms(2) [unfolded sound_def server_ok_def]
  have "listeners_ok (drawn E (Suc (w_ids w))) D ((w_rooms w)(a \<mapsto> r'))
      (snd (ps_on (e_rid E (w_ids w)) key h (w_pubsub w)))"
    using ok new assms(3,4,7,8) listener_upd [where rs = "w_rooms w" and a = a and r = r] by (intro listeners_on [OF assms(1), where rs = "w_rooms w"]) auto
  moreover have "managing_ok (drawn E (Suc (w_ids w))) (w_managing w) ((w_rooms w)(a \<mapsto> r'))"
    using ok assms(3,4) managing_ok_upd [where rs = "w_rooms w" and a = a and r = r] managing_ok_mono unfolding drawn_Suc by blast
  ultimately show ?thesis
    using ok rooms_ok_upd [where rs = "w_rooms w" and a = a and r = r] timers_ok_upd [where rs = "w_rooms w" and a = a and r = r] assms(3-6)
    unfolding sound_def server_ok_def by simp
qed

text \<open>A listener for the answers to a request.\<close>

lemma ask_sound:
  assumes "inj (e_rid E)" "sound E X D K w"
  shows "sound E X D K (w\<lparr>w_ids := Suc (w_ids w),
    w_pubsub := snd (ps_on (e_rid E (w_ids w)) REQUEST_INFO (AdminInfo q) (w_pubsub w))\<rparr>)"
proof -
  note ok = assms(2) [unfolded sound_def server_ok_def]
  have "listeners_ok (drawn E (Suc (w_ids w))) D (w_rooms w)
      (snd (ps_on (e_rid E (w_ids w)) REQUEST_INFO (AdminInfo q) (w_pubsub w)))"
    using ok by (intro listeners_on [OF assms(1), where rs = "w_rooms w"]) (auto simp: listener_ok_def)
  moreover have "managing_ok (drawn E (Suc (w_ids w))) (w_managing w) (w_rooms w)"
    using ok managing_ok_mono unfolding drawn_Suc by blast
  ultimately show ?thesis using ok unfolding sound_def server_ok_def by simp
qed

lemma unsubscribe_sound:
  assumes "sound E X D K w"
  shows "sound E X D K (w\<lparr>w_pubsub := snd (ps_unsubscribe s (w_pubsub w))\<rparr>)"
  using assms listeners_unsub [of _ D "w_rooms w" "w_pubsub w" s "w_rooms w"] unfolding sound_def server_ok_def by simp

text \<open>A room starts its timer.\<close>

lemma timer_sound:
  assumes "sound E X D K w" "w_rooms w a = Some r" "rm_auto_dispose_timer r = None"
  shows "sound E X D K (w\<lparr>w_sched := snd (set_timeout now delay (AutoDispose a) (w_sched w)),
    w_rooms := (w_rooms w)(a \<mapsto> r\<lparr>rm_auto_dispose_timer := Some (sc_next_flag (w_sched w))\<rparr>)\<rparr>)"
proof -
  let ?rs = "(w_rooms w)(a \<mapsto> r\<lparr>rm_auto_dispose_timer := Some (sc_next_flag (w_sched w))\<rparr>)"
  let ?s = "snd (set_timeout now delay (AutoDispose a) (w_sched w))"
  note ok = assms(1) [unfolded sound_def server_ok_def]
  have s: "sc_tasks ?s = sc_tasks (w_sched w) @
      [\<lparr>tk_due = now + delay, tk_callback = AutoDispose a, tk_flag = sc_next_flag (w_sched w)\<rparr>]"
      "sc_cancelled ?s = sc_cancelled (w_sched w)"
    by (simp_all add: set_timeout_def Let_def)
  have "timer_ok D ?rs (w_next_room w) ?s t" if "t \<in> set (sc_tasks (w_sched w))" for t
  proof -
    have "timer_ok D (w_rooms w) (w_next_room w) (w_sched w) t" using ok that unfolding timers_ok_def by blast
    with assms(2,3) s(2) show ?thesis by (cases "tk_callback t") (auto simp: timer_ok_def)
  qed
  moreover have "a < w_next_room w" using ok assms(2) unfolding rooms_ok_def by blast
  then have "timer_ok D ?rs (w_next_room w) ?s
      \<lparr>tk_due = now + delay, tk_callback = AutoDispose a, tk_flag = sc_next_flag (w_sched w)\<rparr>"
    by (simp add: timer_ok_def)
  ultimately have "timers_ok D ?rs (w_next_room w) ?s" unfolding timers_ok_def s by simp
  then show ?thesis
    using ok rooms_ok_upd [where rs = "w_rooms w" and a = a and r = r] managing_ok_upd [where rs = "w_rooms w" and a = a and r = r]
      listeners_ok_upd [where rs = "w_rooms w" and a = a and r = r] assms(2)
    unfolding sound_def server_ok_def by simp
qed

subsection \<open>The new room\<close>

text \<open>A room that is not managed yet, and one that has not subscribed either.\<close>

definition unmanaged :: "env \<Rightarrow> nat \<Rightarrow> string \<Rightarrow> (room \<Rightarrow> bool) \<Rightarrow> world \<Rightarrow> bool" where
  "unmanaged E a i Q w \<longleftrightarrow> sound E {a} {} {a} w \<and> i \<in> drawn E (w_ids w) \<and>
     (\<exists>r. w_rooms w a = Some r \<and> rm_id r = i \<and> Q r)"

definition unsubscribed_room :: "room \<Rightarrow> bool" where
  "unsubscribed_room r \<longleftrightarrow> rm_game_message_sub r = None \<and> rm_player_left_sub r = None \<and> rm_auto_dispose_timer r = None"

abbreviation fresh_room :: "env \<Rightarrow> nat \<Rightarrow> string \<Rightarrow> world \<Rightarrow> bool" where
  "fresh_room E a i \<equiv> unmanaged E a i unsubscribed_room"

lemma unmanaged_closed:
  assumes "\<And>r r'. Q r \<Longrightarrow> mild r r' \<Longrightarrow> Q r'"
  shows "tame_closed E a (unmanaged E a i Q)" "mild_closed a (unmanaged E a i Q)"
proof -
  have m: "unmanaged E a i Q (w\<lparr>w_rooms := (w_rooms w)(a \<mapsto> r')\<rparr>)"
    if "unmanaged E a i Q w" "w_rooms w a = Some r" "mild r r'" for w r r'
    using that sound_alike [OF _ that(2) mild_alike [OF that(3)], of E "{a}" "{}" "{a}"] assms [OF _ that(3)]
    by (simp add: unmanaged_def mild_fields)
  then show "mild_closed a (unmanaged E a i Q)" unfolding mild_closed_def by blast
  have same: "unmanaged E a i Q w'" if "unmanaged E a i Q w" "w_rooms w' = w_rooms w" "w_next_room w' = w_next_room w"
      "w_managing w' = w_managing w" "w_ids w' = w_ids w" "w_pubsub w' = w_pubsub w" "w_sched w' = w_sched w" "w_registered w' = w_registered w" for w w'
    using that sound_same [OF that(2-8), of E "{a}" "{}" "{a}"] by (simp add: unmanaged_def)
  show "tame_closed E a (unmanaged E a i Q)"
    unfolding tame_closed_def
  proof (intro conjI allI impI)
    fix w r v assume u: "unmanaged E a i Q w"
    then show "\<exists>r. w_rooms w a = Some r" by (auto simp: unmanaged_def)
    assume r: "w_rooms w a = Some r"
    show "unmanaged E a i Q (w\<lparr>w_rooms := (w_rooms w)(a \<mapsto> r\<lparr>rm_state := v\<rparr>)\<rparr>)"
      by (rule m [OF u r mild_intros(1)])
    show "unmanaged E a i Q (w\<lparr>w_rooms := (w_rooms w)(a \<mapsto> r\<lparr>rm_metadata := v\<rparr>)\<rparr>)"
      by (rule m [OF u r mild_intros(2)])
  qed (erule same, simp_all)+
qed

lemma unsubscribed_mild: "unsubscribed_room r \<Longrightarrow> mild r r' \<Longrightarrow> unsubscribed_room r'"
  by (simp add: unsubscribed_room_def mild_fields)

lemmas fresh_closed = unmanaged_closed [where Q = unsubscribed_room, OF unsubscribed_mild]

lemma marked_mild: "unsubscribed_room r \<and> rm_disposing r \<Longrightarrow> mild r r' \<Longrightarrow> unsubscribed_room r' \<and> rm_disposing r'"
  by (simp add: unsubscribed_room_def mild_fields)

lemma fresh_tail_closed: "tail_closed a (unmanaged E a i (\<lambda>r. unsubscribed_room r \<and> rm_disposing r))"
proof -
  have same: "r\<lparr>rm_game_message_sub := None\<rparr> = r" "r\<lparr>rm_player_left_sub := None\<rparr> = r"
    if "unsubscribed_room r" for r
    using that by (simp_all add: unsubscribed_room_def)
  have "w\<lparr>w_pubsub := w_pubsub w, w_rooms := (w_rooms w)(a \<mapsto> r)\<rparr> = w" "w\<lparr>w_sched := w_sched w\<rparr> = w"
    if "w_rooms w a = Some r" for w :: world and r
    using that by (simp_all add: fun_upd_idem)
  with same show ?thesis
    unfolding tail_closed_def by (auto simp: unmanaged_def unsubscribed_room_def)
qed

lemma fresh_dispose:
  assumes E: "tame_env E"
  shows "safe bad (fresh_room E a i) (dispose E (Suc (Suc (Suc m))) a)"
proof (rule safeI)
  fix w assume f: "fresh_room E a i w"
  then obtain r where r: "w_rooms w a = Some r" "rm_id r = i" "unsubscribed_room r" by (auto simp: unmanaged_def)
  let ?d = "dispose E (Suc (Suc (Suc m))) a"
  show "fst (?d w) \<notin> bad \<and> fresh_room E a i (snd (?d w))"
  proof (cases "rm_disposing r")
    case True
    with r f show ?thesis by (simp add: dispose.simps skip_def)
  next
    case False
    let ?P = "unmanaged E a i (\<lambda>r. unsubscribed_room r \<and> rm_disposing r)"
    let ?w = "w\<lparr>w_rooms := (w_rooms w)(a \<mapsto> r\<lparr>rm_disposing := True\<rparr>)\<rparr>"
    have P: "?P ?w"
      using f r sound_alike [OF _ r(1) alike_marked, of E "{a}" "{}" "{a}" True]
      by (simp add: unmanaged_def unsubscribed_room_def)
    note closed = unmanaged_closed [where Q = "\<lambda>r. unsubscribed_room r \<and> rm_disposing r", OF marked_mild]
    have "safe bad ?P (dispose_but_last E (Suc (Suc m)) a r)"
      by (rule dispose_but_last_safe [OF closed fresh_tail_closed tame_env_hooks [OF E]])
    note but = safeD [OF this P]
    obtain res u where u: "dispose_but_last E (Suc (Suc m)) a r ?w = (res, u)" by fastforce
    with but have Pu: "?P u" by simp
    then obtain ru where ru: "w_rooms u a = Some ru" by (auto simp: unmanaged_def)
    have "sound E {a} {} {a} u" using Pu by (simp add: unmanaged_def)
    then have "map_of (w_managing u) (rm_id ru) = None"
      using ru unfolding sound_def server_ok_def rooms_ok_def by (metis insertI1)
    then have "with_room a (\<lambda>r. on_room_disposed (rm_id r)) u = (Normal, u)"
      using ru by (simp add: on_room_disposed_def reading_def skip_def)
    then have "snd (?d w) = u" "fst (?d w) = res"
      using dispose_run [OF r(1) False, of E "Suc (Suc m)"] u
      by (cases res; simp add: seq_def)+
    moreover have "fresh_room E a i u" using Pu by (auto simp: unmanaged_def)
    ultimately show ?thesis using but u by simp
  qed
qed

lemma start_runs:
  "runs (fresh_room E a i) (start_auto_dispose a)
     (unmanaged E a i (\<lambda>r. rm_game_message_sub r = None \<and> rm_player_left_sub r = None))"
proof (rule runsI)
  fix w assume f: "fresh_room E a i w"
  then obtain r where r: "w_rooms w a = Some r" "rm_id r = i" "unsubscribed_room r" and s: "sound E {a} {} {a} w"
    by (auto simp: unmanaged_def)
  from timer_sound [OF s r(1), of "w_now w" AUTO_DISPOSE_AFTER] r f
  show "fst (start_auto_dispose a w) = Normal \<and>
      unmanaged E a i (\<lambda>r. rm_game_message_sub r = None \<and> rm_player_left_sub r = None) (snd (start_auto_dispose a w))"
    by (simp add: start_auto_dispose_def reading_def set_timeout_def Let_def unmanaged_def unsubscribed_room_def)
qed

lemma subscribe_runs:
  assumes "inj (e_rid E)"
  shows "runs (unmanaged E a i (\<lambda>r. rm_game_message_sub r = None \<and> rm_player_left_sub r = None))
     (pub_sub_listener E a) (unmanaged E a i (\<lambda>r. True))"
proof (rule runsI)
  fix w assume u: "unmanaged E a i (\<lambda>r. rm_game_message_sub r = None \<and> rm_player_left_sub r = None) w"
  then obtain r where r: "w_rooms w a = Some r" "rm_id r = i" "rm_game_message_sub r = None" "rm_player_left_sub r = None"
    and s: "sound E {a} {} {a} w" and i: "i \<in> drawn E (w_ids w)"
    by (auto simp: unmanaged_def)
  let ?r1 = "r\<lparr>rm_game_message_sub := Some (rm_id r, e_rid E (w_ids w))\<rparr>"
  let ?w1 = "w\<lparr>w_ids := Suc (w_ids w), w_pubsub := snd (ps_on (e_rid E (w_ids w)) (rm_id r) (GameMessage a) (w_pubsub w)),
      w_rooms := (w_rooms w)(a \<mapsto> ?r1)\<rparr>"
  have s1: "sound E {a} {} {a} ?w1"
    by (rule on_sound [OF assms s r(1)]) (simp_all add: r listener_ok_def)
  let ?r2 = "?r1\<lparr>rm_player_left_sub := Some (PLAYER_LEFT, e_rid E (w_ids ?w1))\<rparr>"
  let ?w2 = "?w1\<lparr>w_ids := Suc (w_ids ?w1), w_pubsub := snd (ps_on (e_rid E (w_ids ?w1)) PLAYER_LEFT (PlayerLeft a) (w_pubsub ?w1)),
      w_rooms := (w_rooms ?w1)(a \<mapsto> ?r2)\<rparr>"
  have s2: "sound E {a} {} {a} ?w2"
    by (rule on_sound [OF assms s1, where r = ?r1]) (simp_all add: r listener_ok_def)
  have "pub_sub_listener E a w = (Normal, ?w2)"
    using r by (simp add: pub_sub_listener_def random_id_def reading_def ps_on_def Let_def)
  moreover have "unmanaged E a i (\<lambda>r. True) ?w2"
    using s2 i r by (simp add: unmanaged_def drawn_Suc)
  ultimately show "fst (pub_sub_listener E a w) = Normal \<and> unmanaged E a i (\<lambda>r. True) (snd (pub_sub_listener E a w))"
    by simp
qed

lemma initialize_cases:
  assumes E: "tame_env E" and f: "fresh_room E a i w"
  obtains w' where "initialize E (Suc (Suc (Suc m))) a w = (Normal, w')" "unmanaged E a i (\<lambda>r. True) w'"
    | e w' where "initialize E (Suc (Suc (Suc m))) a w = (Raised e, w')" "fresh_room E a i w'"
proof -
  let ?n = "Suc (Suc (Suc m))"
  let ?create = "catch_rethrow (seq (log_hook a OnCreate)
                 (with_room a (\<lambda>r. run_prog E ?n a (hk_create (hooks_of E r) (rm_options r))))) (dispose E ?n a)"
  have s: "safe bad (fresh_room E a i) ?create"
    by (intro safe_catch_rethrow safe_seq tame_log [OF fresh_closed(1)] safe_live tame_run_prog [OF fresh_closed(1)]
        tame_hooksD [OF tame_env_hooks [OF E]] fresh_dispose [OF E]) (auto simp: unmanaged_def)
  obtain res u where u: "?create w = (res, u)" by fastforce
  with safeD [OF s f] have res: "res \<notin> bad" "fresh_room E a i u" by simp_all
  show thesis
  proof (cases res)
    case Normal
    have "runs (fresh_room E a i) (seq (start_auto_dispose a) (pub_sub_listener E a)) (unmanaged E a i (\<lambda>r. True))"
      using E by (intro runs_seq [OF start_runs subscribe_runs]) (simp add: tame_env_def)
    from runsD [OF this res(2)] obtain v where "seq (start_auto_dispose a) (pub_sub_listener E a) u = (Normal, v)"
        "unmanaged E a i (\<lambda>r. True) v" by blast
    with u Normal that(1) show thesis by (simp add: initialize_def)
  next
    case (Raised e)
    with u res that(2) show thesis by (simp add: initialize_def)
  qed (use res in simp_all)
qed

subsection \<open>Destroying and managing it\<close>

lemma sound_unmanaged:
  assumes s: "sound E {a} {} {a} w" and r: "w_rooms w a = Some r"
  shows "map_of (w_managing w) (rm_id r) = None" "map_of (w_managing w) j \<noteq> Some a" "a < w_next_room w"
proof -
  note ok = s [unfolded sound_def server_ok_def]
  show n: "map_of (w_managing w) (rm_id r) = None" using ok r unfolding rooms_ok_def by (metis insertI1)
  show "a < w_next_room w" using ok r unfolding rooms_ok_def by blast
  show "map_of (w_managing w) j \<noteq> Some a"
  proof
    assume "map_of (w_managing w) j = Some a"
    moreover from this have "rm_id r = j" using ok r unfolding managing_ok_def by fastforce
    ultimately show False using n by simp
  qed
qed

lemma destroy_sound:
  assumes f: "fresh_room E a i w"
  shows "sound E {} {} {} (w\<lparr>w_rooms := (w_rooms w)(a := None)\<rparr>)"
proof -
  obtain r where r: "w_rooms w a = Some r" "unsubscribed_room r" and s: "sound E {a} {} {a} w"
    using f by (auto simp: unmanaged_def)
  note ok = s [unfolded sound_def server_ok_def] and un = sound_unmanaged [OF s r(1)]
  let ?rs = "(w_rooms w)(a := None)"
  have "rooms_ok {} (w_next_room w) (w_managing w) ?rs"
    using ok unfolding rooms_ok_def by (auto split: if_splits)
  moreover have "managing_ok (drawn E (w_ids w)) (w_managing w) ?rs"
    using ok un(2) unfolding managing_ok_def by (metis fun_upd_apply)
  moreover have "listener_ok {} ?rs k l" if "listener_ok {} (w_rooms w) k l" for k l
    using that r by (cases "ls_handler l") (auto simp: listener_ok_def unsubscribed_room_def)
  then have "listeners_ok (drawn E (w_ids w)) {} ?rs (w_pubsub w)"
    using ok unfolding listeners_ok_def by blast
  moreover have "timer_ok {} ?rs (w_next_room w) (w_sched w) t" if "timer_ok {} (w_rooms w) (w_next_room w) (w_sched w) t" for t
    using that r by (cases "tk_callback t") (auto simp: timer_ok_def unsubscribed_room_def)
  then have "timers_ok {} ?rs (w_next_room w) (w_sched w)"
    using ok unfolding timers_ok_def by blast
  ultimately show ?thesis using ok unfolding sound_def server_ok_def by simp
qed

lemma manage_runs:
  "runs (unmanaged E a i (\<lambda>r. True)) (manage_room i a) (sound E {} {} {a})"
proof (rule runsI)
  fix w assume u: "unmanaged E a i (\<lambda>r. True) w"
  then obtain r where r: "w_rooms w a = Some r" "rm_id r = i" "i \<in> drawn E (w_ids w)" and s: "sound E {a} {} {a} w"
    by (auto simp: unmanaged_def)
  note ok = s [unfolded sound_def server_ok_def] and un = sound_unmanaged [OF s r(1), unfolded r(2)]
  have "rooms_ok {} (w_next_room w) (AList.update i a (w_managing w)) (w_rooms w)"
    unfolding rooms_ok_def
  proof (intro allI impI)
    fix b q assume q: "w_rooms w b = Some q"
    have *: "b < w_next_room w \<and> (\<forall>f \<in> ce_callback ` set (cb_entries (rm_join_listeners q)). \<exists>l. f = UserJoin l) \<and>
        map_of (w_managing w) (rm_id q) = (if b \<in> {a} then None else Some b)"
      using ok q unfolding rooms_ok_def by blast
    then have "b \<noteq> a \<Longrightarrow> rm_id q \<noteq> i" using un(1) by auto
    with * q r show "b < w_next_room w \<and> (\<forall>f \<in> ce_callback ` set (cb_entries (rm_join_listeners q)). \<exists>l. f = UserJoin l) \<and>
        map_of (AList.update i a (w_managing w)) (rm_id q) = (if b \<in> {} then None else Some b)"
      by (cases "b = a") simp_all
  qed
  moreover have "managing_ok (drawn E (w_ids w)) (AList.update i a (w_managing w)) (w_rooms w)"
    using ok r unfolding managing_ok_def by (auto split: if_splits)
  ultimately have "sound E {} {} {a} (w\<lparr>w_managing := AList.update i a (w_managing w)\<rparr>)"
    using ok unfolding sound_def server_ok_def by simp
  then show "fst (manage_room i a w) = Normal \<and> sound E {} {} {a} (snd (manage_room i a w))"
    using un(1) by (simp add: manage_room_def effect_def)
qed

lemma allocate_fresh:
  assumes s: "sound E {} {} {} w" and i: "i \<in> drawn E (w_ids w)" "map_of (w_managing w) i = None"
  shows "fresh_room E (w_next_room w) i (w\<lparr>w_next_room := Suc (w_next_room w),
     w_rooms := (w_rooms w)(w_next_room w \<mapsto> new_room i name client opts creator vals)\<rparr>)"
proof -
  let ?a = "w_next_room w" and ?r = "new_room i name client opts creator vals"
  let ?rs = "(w_rooms w)(?a \<mapsto> ?r)"
  note ok = s [unfolded sound_def server_ok_def]
  have none: "w_rooms w ?a = None" using ok unfolding rooms_ok_def by (metis less_irrefl not_None_eq)
  have "rooms_ok {?a} (Suc ?a) (w_managing w) ?rs"
    unfolding rooms_ok_def
  proof (intro allI impI)
    fix b q assume q: "?rs b = Some q"
    show "b < Suc ?a \<and> (\<forall>f \<in> ce_callback ` set (cb_entries (rm_join_listeners q)). \<exists>l. f = UserJoin l) \<and>
        map_of (w_managing w) (rm_id q) = (if b \<in> {?a} then None else Some b)"
    proof (cases "b = ?a")
      case True
      with q i(2) show ?thesis by (auto simp: new_room_def cb_empty_def)
    next
      case False
      with q have "w_rooms w b = Some q" by simp
      with ok False show ?thesis unfolding rooms_ok_def by (metis empty_iff less_SucI singletonD)
    qed
  qed
  moreover have "managing_ok (drawn E (w_ids w)) (w_managing w) ?rs"
    using ok none unfolding managing_ok_def by (metis fun_upd_apply option.distinct(1))
  moreover have "listener_ok {} ?rs k l" if "listener_ok {} (w_rooms w) k l" for k l
    using that none by (cases "ls_handler l") (auto simp: listener_ok_def)
  then have "listeners_ok (drawn E (w_ids w)) {} ?rs (w_pubsub w)"
    using ok unfolding listeners_ok_def by blast
  moreover have "timer_ok {} ?rs (Suc ?a) (w_sched w) t" if "timer_ok {} (w_rooms w) ?a (w_sched w) t" for t
    using that none by (cases "tk_callback t") (auto simp: timer_ok_def)
  then have "timers_ok {} ?rs (Suc ?a) (w_sched w)"
    using ok unfolding timers_ok_def by blast
  ultimately show ?thesis
    using i(1) ok unfolding unmanaged_def sound_def server_ok_def
    by (simp add: unsubscribed_room_def new_room_def)
qed

subsection \<open>The whole creation\<close>

lemma register_runs:
  assumes "tame_env E" "client_ok E client" "writable E name" "i \<in> range (e_rid E)"
  shows "runs (unmanaged E a i Q) (register_snapshot E i name client) (unmanaged E a i Q)"
proof (rule runsI)
  fix w assume u: "unmanaged E a i Q w"
  let ?s = "\<lparr>rs_id = i, rs_type = name, rs_owner = client, rs_metadata = empty_object, rs_created_at = w_wall_ms w\<rparr>"
  have "writable E i" "writes_snapshots E" using assms(1,4) unfolding tame_env_def by blast+
  then have "jl_dump (e_json E) (snapshot_to_json ?s) \<noteq> None"
    using assms(2,3) unfolding writes_snapshots_def by blast
  then obtain t where "dump (e_json E) (snapshot_to_json ?s) = Inr t" by (auto simp: dump_def)
  moreover have "unmanaged E a i Q (w\<lparr>w_storage := x\<rparr>)" for x
    using u sound_same [of "w\<lparr>w_storage := x\<rparr>" w E "{a}" "{}" "{a}"] by (simp add: unmanaged_def)
  ultimately show "fst (register_snapshot E i name client w) = Normal \<and> unmanaged E a i Q (snd (register_snapshot E i name client w))"
    by (simp add: register_snapshot_def reading_def add_room_def effect_def)
qed

lemma place_safe:
  assumes E: "tame_env E" and st: "client_ok E client" "writable E name" and i: "i \<in> range (e_rid E)"
    and k: "\<And>a. ends bad (sound E {} {} {a}) (k a) (sound E {} {} {})"
    and f: "fresh_room E a i w"
  shows "fst (seq (catch_rethrow (seq (initialize E (Suc (Suc (Suc m))) a) (register_snapshot E i name client)) (destroy_room a))
      (seq (manage_room i a) (k a)) w) \<notin> bad \<and>
    sound E {} {} {} (snd (seq (catch_rethrow (seq (initialize E (Suc (Suc (Suc m))) a)
      (register_snapshot E i name client)) (destroy_room a)) (seq (manage_room i a) (k a)) w))"
  using E f
proof (rule initialize_cases [where m = m])
  fix u assume u: "initialize E (Suc (Suc (Suc m))) a w = (Normal, u)" "unmanaged E a i (\<lambda>r. True) u"
  obtain v where v: "register_snapshot E i name client u = (Normal, v)" "unmanaged E a i (\<lambda>r. True) v"
    using runsD [OF register_runs [OF E st i] u(2)] by blast
  obtain x where x: "manage_room i a v = (Normal, x)" "sound E {} {} {a} x"
    using runsD [OF manage_runs v(2)] by blast
  show ?thesis
    using u v x endsD [OF k x(2)] by (simp add: catch_rethrow_def seq_def)
next
  fix e u assume u: "initialize E (Suc (Suc (Suc m))) a w = (Raised e, u)" "fresh_room E a i u"
  show ?thesis
    using u(1) destroy_sound [OF u(2)] by (simp add: catch_rethrow_def seq_def destroy_room_def effect_def throw_def)
qed

lemma pick_safe:
  assumes E: "tame_env E"
    and none: "ends bad (sound E {} {} {}) (k []) (sound E {} {} {})"
    and some: "\<And>i. i \<in> range (e_rid E) \<Longrightarrow>
      ends bad (\<lambda>w. sound E {} {} {} w \<and> i \<in> drawn E (w_ids w) \<and> map_of (w_managing w) i = None) (k i) (sound E {} {} {})"
  shows "ends bad (sound E {} {} {}) (pick_room_id E name opts creator existing j k) (sound E {} {} {})"
proof (induction j)
  case 0
  then show ?case using none by simp
next
  case (Suc j)
  show ?case
  proof (rule endsI)
    fix w assume s: "sound E {} {} {} w"
    let ?i = "e_rid E (w_ids w)" and ?w = "w\<lparr>w_ids := Suc (w_ids w)\<rparr>"
    have s': "sound E {} {} {} ?w" by (rule sound_draw [OF s])
    have "?i \<notin> drawn E (w_ids w)" using E new_not_drawn by (auto simp: tame_env_def)
    then have free: "map_of (w_managing w) ?i = None"
      using s unfolding sound_def server_ok_def managing_ok_def by (metis not_None_eq)
    have "?i \<in> drawn E (w_ids ?w)" by (simp add: drawn_Suc)
    then have "fst (k ?i ?w) \<notin> bad \<and> sound E {} {} {} (snd (k ?i ?w))"
      using endsD [OF some, of ?i ?w] s' free by simp
    moreover have "pick_room_id E name opts creator existing (Suc j) k w =
        (if ?i \<notin> set existing \<and> ?i \<noteq> [] then k ?i ?w else pick_room_id E name opts creator existing j k ?w)"
      using E by (simp add: room_id_candidate_def tame_env_def random_id_def reading_def)
    ultimately show "fst (pick_room_id E name opts creator existing (Suc j) k w) \<notin> bad \<and>
        sound E {} {} {} (snd (pick_room_id E name opts creator existing (Suc j) k w))"
      using endsD [OF Suc.IH s'] by simp
  qed
qed

lemma sound_storage [simp]: "sound E X D K (w\<lparr>w_storage := x\<rparr>) = sound E X D K w"
  by (rule sound_same) simp_all

lemma create_safe:
  assumes E: "tame_env E" and st: "client_ok E client"
    and k: "\<And>a. ends bad (sound E {} {} {a}) (k a) (sound E {} {} {})"
  shows "ends bad (sound E {} {} {}) (create_new_room E (Suc (Suc (Suc m))) client name creator [] k) (sound E {} {} {})"
proof (rule endsI)
  fix w assume s: "sound E {} {} {} w"
  let ?c = "create_new_room E (Suc (Suc (Suc m))) client name creator [] k"
  show "fst (?c w) \<notin> bad \<and> sound E {} {} {} (snd (?c w))"
  proof (cases "map_of (w_registered w) name")
    case None
    with s show ?thesis by (simp add: create_new_room_def reading_def throw_def)
  next
    case (Some opts)
    then have name: "writable E name"
      using s map_of_SomeD [of "w_registered w" name opts] by (fastforce simp: sound_def names_ok_def)
    obtain ids st' where l: "get_list_of_rooms (sops w) (w_storage w) = (ids, st')" by fastforce
    let ?w = "w\<lparr>w_storage := st'\<rparr>"
    let ?place = "\<lambda>i. reading (\<lambda>w. let a = w_next_room w in
             seq (effect (\<lambda>w. w\<lparr>w_next_room := Suc a,
                    w_rooms := (w_rooms w)(a \<mapsto> new_room i name client opts creator
                                 (gv_get_all (sops w) (e_json E) (w_storage w)))\<rparr>))
            (seq (catch_rethrow (seq (initialize E (Suc (Suc (Suc m))) a) (register_snapshot E i name client))
                                (destroy_room a))
            (seq (manage_room i a) (k a))))"
    have place: "ends bad (\<lambda>w. sound E {} {} {} w \<and> i \<in> drawn E (w_ids w) \<and> map_of (w_managing w) i = None)
        (?place i) (sound E {} {} {})" if i: "i \<in> range (e_rid E)" for i
    proof (rule endsI)
      fix u assume u: "sound E {} {} {} u \<and> i \<in> drawn E (w_ids u) \<and> map_of (w_managing u) i = None"
      then have "fresh_room E (w_next_room u) i (u\<lparr>w_next_room := Suc (w_next_room u),
         w_rooms := (w_rooms u)(w_next_room u \<mapsto> new_room i name client opts creator
            (gv_get_all (sops u) (e_json E) (w_storage u)))\<rparr>)"
        by (intro allocate_fresh) simp_all
      from place_safe [OF E st name i k this, of m]
      show "fst (?place i u) \<notin> bad \<and> sound E {} {} {} (snd (?place i u))"
        by (simp add: reading_def Let_def)
    qed
    have "ends bad (sound E {} {} {}) (pick_room_id E name opts creator ids 3
        (\<lambda>i. if i = [] then throw (RuntimeError ''Failed to create room with unique ID'') else ?place i)) (sound E {} {} {})"
    proof (rule pick_safe [OF E])
      have t: "ends bad P (throw e) (sound E {} {} {})" if "\<And>w. P w \<Longrightarrow> sound E {} {} {} w" for P e
        by (rule ends_safe [OF safe_throw]) (use that in simp_all)
      then show "ends bad (sound E {} {} {})
          (if [] = [] then throw (RuntimeError ''Failed to create room with unique ID'') else ?place []) (sound E {} {} {})"
        by (simp only: refl if_True)
      fix i assume i: "i \<in> range (e_rid E)"
      show "ends bad (\<lambda>w. sound E {} {} {} w \<and> i \<in> drawn E (w_ids w) \<and> map_of (w_managing w) i = None)
          (if i = [] then throw (RuntimeError ''Failed to create room with unique ID'') else ?place i) (sound E {} {} {})"
      proof (cases "i = []")
        case True
        show ?thesis unfolding if_P [OF True] by (rule t) blast
      next
        case False
        show ?thesis unfolding if_not_P [OF False] by (rule place [OF i])
      qed
    qed
    note pick = this
    have c: "?c w = pick_room_id E name opts creator ids 3
        (\<lambda>i. if i = [] then throw (RuntimeError ''Failed to create room with unique ID'') else ?place i) ?w"
      using Some l by (simp add: create_new_room_def reading_def list_rooms_def choose_room_id_def)
    have s': "sound E {} {} {} ?w" using s by simp
    show ?thesis unfolding c using endsD [OF pick s'] by (rule conjI)
  qed
qed

end
