(* ===== verification/Server_Run.thy ===== *)
theory Server_Run imports Create_Safety
begin

text \<open>
  The operations of the server as a whole, and what is reachable by them: every reachable server is
  well-formed, and no operation on it uses a destroyed object.
\<close>

abbreviation well :: "env \<Rightarrow> world \<Rightarrow> bool" where
  "well E \<equiv> sound E {} {} {}"

lemma sound_other [simp]:
  "sound E X D K (w\<lparr>w_connections := c\<rparr>) = sound E X D K w" "sound E X D K (w\<lparr>w_texts := t\<rparr>) = sound E X D K w"
  "sound E X D K (w\<lparr>w_frames := f\<rparr>) = sound E X D K w" "sound E X D K (w\<lparr>w_activity := a\<rparr>) = sound E X D K w"
  "sound E X D K (w\<lparr>w_ws_closed := s\<rparr>) = sound E X D K w" "sound E X D K (w\<lparr>w_replies := r\<rparr>) = sound E X D K w"
  "sound E X D K (w\<lparr>w_raw := x\<rparr>) = sound E X D K w" "sound E X D K (w\<lparr>w_now := n\<rparr>) = sound E X D K w"
  "sound E X D K (w\<lparr>w_wall_ms := m\<rparr>) = sound E X D K w"
  by (rule sound_same; simp)+

lemma safe_effect_same: "(\<And>w. sound E X D K (f w) = sound E X D K w) \<Longrightarrow> safe bad (sound E X D K) (effect f)"
  by (rule safe_effect) simp_all

lemma safe_random_id:
  "(\<And>i. i \<in> range (e_rid E) \<Longrightarrow> safe bad (sound E X D K) (k i)) \<Longrightarrow> safe bad (sound E X D K) (random_id E k)"
  unfolding random_id_def
  by (intro safe_reading_all safe_seq safe_effect) (auto intro: sound_draw)

lemma safe_send_frame: "safe bad (sound E X D K) (send_frame_to_client sid event data)"
  unfolding send_frame_to_client_def
  by (intro safe_reading_all safe_case_option safe_skip safe_effect_same) simp_all

lemmas well_rules = safe_seq safe_seqs safe_reading_all safe_if safe_case_option safe_from_res safe_catch_std
  safe_skip safe_throw safe_effect_same safe_random_id safe_send_frame

subsection \<open>Clients\<close>

lemma register_safe: "writable E name \<Longrightarrow> safe bad (well E) (register_room name opts)"
proof (rule safeI)
  fix w assume n: "writable E name" and s: "well E w"
  have "names_ok E (AList.update name opts (w_registered w))"
    using s n dom_update [of name opts "w_registered w"] by (auto simp: sound_def names_ok_def dom_map_of_conv_image_fst)
  then have "well E (w\<lparr>w_registered := AList.update name opts (w_registered w)\<rparr>)"
    using s by (simp add: sound_def server_ok_def)
  with s show "fst (register_room name opts w) \<notin> bad \<and> well E (snd (register_room name opts w))"
    by (simp add: register_room_def reading_def skip_def effect_def)
qed

lemma ends_live_room:
  assumes "\<And>r. safe bad (sound E X D {a}) (f r)"
  shows "ends bad (sound E X D {a}) (with_room a f) (sound E X D {})"
proof (rule endsI)
  fix w assume s: "sound E X D {a} w"
  then obtain r where "w_rooms w a = Some r" by (auto dest: soundD)
  with safeD [OF assms s, of r] show "fst (with_room a f w) \<notin> bad \<and> sound E X D {} (snd (with_room a f w))"
    by (auto intro: sound_sub)
qed

lemma safe_of_ends: "ends bad (well E) f (well E) \<Longrightarrow> safe bad (well E) f"
  by (simp add: ends_def safe_def)

lemma create_room_safe:
  assumes "tame_env E" "client_ok E no_client" "\<And>i a. safe bad (sound E {} {} {a}) (k i)"
  shows "safe bad (well E) (create_room E (Suc (Suc (Suc m))) name [] creator k)"
  unfolding create_room_def by (intro safe_of_ends create_safe ends_live_room assms)

lemma handle_create_safe:
  assumes "tame_env E" "client_ok E client"
  shows "safe bad (well E) (handle_create E (Suc (Suc (Suc m))) client data)"
  unfolding handle_create_def error_frame_def
  by (intro well_rules safe_of_ends [OF create_safe] ends_live_room assms) simp_all

lemma handle_join_safe:
  assumes "tame_env E"
  shows "safe bad (well E) (handle_join E (Suc (Suc (Suc (Suc m)))) (Suc (Suc d)) client data)"
  unfolding handle_join_def error_frame_def by (intro well_rules publish_safe assms) simp_all

lemma handle_send_safe:
  assumes "tame_env E"
  shows "safe bad (well E) (handle_send E (Suc (Suc (Suc (Suc m)))) (Suc (Suc d)) client data)"
  unfolding handle_send_def by (intro well_rules publish_safe assms) simp_all

lemma client_message_safe:
  assumes "tame_env E" "client_ok E client"
  shows "safe bad (well E) (handle_client_message E (Suc (Suc (Suc (Suc m)))) (Suc (Suc d)) client event data)"
  unfolding handle_client_message_def Let_def
  by (intro safe_if safe_skip handle_create_safe handle_join_safe handle_send_safe assms) simp_all

lemma client_disconnect_safe:
  assumes "tame_env E"
  shows "safe bad (well E) (handle_client_disconnect E (Suc (Suc (Suc (Suc m)))) (Suc (Suc d)) sid)"
  unfolding handle_client_disconnect_def by (intro well_rules publish_safe assms) simp_all

subsection \<open>Sessions\<close>

text \<open>The strings of the request that become part of the client are UTF-8.\<close>

definition request_ok :: "env \<Rightarrow> web \<Rightarrow> nat \<Rightarrow> http_request \<Rightarrow> bool" where
  "request_ok E W q req \<longleftrightarrow> writable E (peer_ip W q) \<and>
     (case map_of (parse_query (hr_query req)) ''id'' of Some i \<Rightarrow> writable E i | None \<Rightarrow> True) \<and>
     (case map_of (hr_headers req) ''origin'' of Some v \<Rightarrow> writable E v | None \<Rightarrow> True)"

lemma send_text_safe: "safe bad (sound E X D K) (send_text sid s)"
  unfolding send_text_def by (rule safe_effect_same) simp

lemma open_session_safe:
  assumes E: "tame_env E" and r: "request_ok E W q req"
    and k: "\<And>c. client_ok E c \<Longrightarrow> safe bad (well E) (k c)"
  shows "safe bad (well E) (open_session E W q req k)"
proof -
  have rid: "writable E i" if "i \<in> range (e_rid E)" for i
    using E that unfolding tame_env_def by blast
  have empty: "writable E []" using E by (simp add: tame_env_def)
  have rest: "safe bad (well E) (random_id E (\<lambda>sid.
       let origin = (case map_of (hr_headers req) ''origin'' of Some v \<Rightarrow> v | None \<Rightarrow> []);
           client_info = \<lparr>sc_id = i, sc_session_id = sid, sc_origin = origin, sc_ip = peer_ip W q\<rparr> in
       seq (effect (\<lambda>w. w\<lparr>w_connections := AList.update sid client_info (w_connections w)\<rparr>))
      (from_res (build_open_frame (e_json E) sid (of_int PING_INTERVAL_MS) (of_int PING_TIMEOUT_MS)) (\<lambda>f.
       seq (send_text sid f)
      (from_res (build_connect_ack_frame (e_json E)) (\<lambda>f.
       seq (send_text sid f)
      (seq (effect (\<lambda>w. w\<lparr>w_frames := w_frames w @ [(sid, clientIdSet, JString i)]\<rparr>))
      (seq (effect (\<lambda>w. w\<lparr>w_activity := AList.update sid (w_now w) (w_activity w)\<rparr>))
           (k client_info)))))))))" if i: "writable E i" for i
    unfolding Let_def
    by (intro well_rules send_text_safe k)
      (use i r rid empty in \<open>auto simp: client_ok_def request_ok_def split: option.splits\<close>)
  show ?thesis
    unfolding open_session_def with_client_id_def
    by (intro safe_case_option safe_if safe_random_id rest) (use r rid in \<open>auto simp: request_ok_def\<close>)
qed

lemma ws_payload_safe:
  assumes "tame_env E" "client_ok E client"
  shows "safe bad (well E) (handle_ws_payload E W (Suc (Suc (Suc (Suc m)))) (Suc (Suc d)) client b payload)"
proof -
  have t: "safe bad (well E) (touch_activity sid)" for sid
    unfolding touch_activity_def by (rule safe_effect_same) simp
  have p: "safe bad (well E) (send_pong sid)" for sid
    unfolding send_pong_def by (intro well_rules send_text_safe) simp_all
  show ?thesis
    unfolding handle_ws_payload_def
    by (intro safe_seq t safe_from_res)
      (auto intro: p client_message_safe client_disconnect_safe safe_skip assms split: frame_kind.split)
qed

lemma check_idle_safe: "safe bad (well E) (check_idle sid)"
  unfolding check_idle_def by (rule safe_effect_same) (simp split: option.split)

lemma session_safe:
  assumes "tame_env E" "client_ok E client" "\<And>f. ev = Elsewhere f \<Longrightarrow> safe bad (well E) f"
  shows "safe bad (well E) (session_step E W (Suc (Suc (Suc (Suc m)))) (Suc (Suc d)) client ev)"
  by (cases ev) (simp_all add: session_step_def ws_payload_safe check_idle_safe assms)

lemma close_session_safe:
  assumes "tame_env E"
  shows "safe bad (well E) (close_session E (Suc (Suc (Suc (Suc m)))) (Suc (Suc d)) sid)"
  unfolding close_session_def by (intro well_rules client_disconnect_safe assms) simp_all

subsection \<open>Administration\<close>

lemma write_reply_safe: "safe bad (sound E X D K) (write_reply q st txt ct body)"
  unfolding write_reply_def by (rule safe_effect_same) simp

lemma plain_replies_safe:
  "safe bad (sound E X D K) (reply_not_found q)" "safe bad (sound E X D K) (reply_ok q)"
  "safe bad (sound E X D K) (reply_unauthorized q)"
  unfolding reply_not_found_def reply_ok_def reply_unauthorized_def
  by (intro write_reply_safe safe_effect_same; simp)+

lemma reply_json_safe: "safe bad (sound E X D K) (reply_json E q v)"
  unfolding reply_json_def by (intro safe_from_res write_reply_safe) simp_all

lemma reply_error_safe: "safe bad (sound E X D K) (reply_error E q e)"
  unfolding reply_error_def by (intro safe_from_res write_reply_safe) simp_all

lemmas reply_rules = write_reply_safe plain_replies_safe reply_json_safe reply_error_safe

lemma list_rooms_safe: "(\<And>ids. safe bad (sound E X D K) (k ids)) \<Longrightarrow> safe bad (sound E X D K) (list_rooms k)"
  unfolding list_rooms_def by (auto simp: Let_def split: prod.split intro!: safe_reading_all safe_seq safe_effect_same)

lemma get_rooms_safe: "(\<And>rs. safe bad (sound E X D K) (k rs)) \<Longrightarrow> safe bad (sound E X D K) (get_rooms E k)"
  unfolding get_rooms_def by (auto simp: Let_def split: prod.split intro!: safe_reading_all safe_seq safe_effect_same)

lemma get_room_count_safe: "(\<And>m. safe bad (sound E X D K) (k m)) \<Longrightarrow> safe bad (sound E X D K) (get_room_count k)"
  unfolding get_room_count_def by (rule list_rooms_safe)

lemma admin_values_safe:
  "safe bad (sound E X D K) (admin_get_values E q)" "safe bad (sound E X D K) (admin_set_values E q body)"
  unfolding admin_get_values_def admin_set_values_def
  by (intro well_rules reply_rules; simp)+

lemma admin_external_safe:
  assumes "tame_env E"
  shows "safe bad (well E) (admin_external E (Suc (Suc (Suc (Suc m)))) (Suc (Suc d)) q text)"
  unfolding admin_external_def
  by (intro well_rules reply_rules publish_safe assms) simp_all

text \<open>While the thread waits for the answer the other threads run.\<close>

lemma ask_room_safe:
  assumes E: "tame_env E" and k: "\<And>h. safe bad (well E) (k h)"
  shows "safe bad (well E) (ask_room E (Suc (Suc (Suc (Suc m)))) (Suc (Suc d)) q i k)"
proof (rule safeI)
  fix w assume s: "well E w"
  let ?ps = "snd (ps_on (e_rid E (w_ids w)) REQUEST_INFO (AdminInfo q) (w_pubsub w))"
  let ?h = "fst (ps_on (e_rid E (w_ids w)) REQUEST_INFO (AdminInfo q) (w_pubsub w))"
  let ?w = "w\<lparr>w_ids := Suc (w_ids w), w_pubsub := ?ps\<rparr>"
  let ?rest = "seq (publish E (Suc (Suc (Suc (Suc m)))) (Suc (Suc d)) i (jobj [(''action'', JString REQUEST_INFO)])) (k ?h)"
  have "ask_room E (Suc (Suc (Suc (Suc m)))) (Suc (Suc d)) q i k w = ?rest ?w"
    by (simp add: ask_room_def random_id_def reading_def split_beta Let_def)
  moreover have "well E ?w" using ask_sound [OF _ s] E by (simp add: tame_env_def)
  then have "fst (?rest ?w) \<notin> bad \<and> well E (snd (?rest ?w))"
    using safeD [OF safe_seq [OF publish_safe [OF E] k]] by blast
  ultimately show "fst (ask_room E (Suc (Suc (Suc (Suc m)))) (Suc (Suc d)) q i k w) \<notin> bad \<and>
      well E (snd (ask_room E (Suc (Suc (Suc (Suc m)))) (Suc (Suc d)) q i k w))" by simp
qed

lemma admin_room_info_safe:
  assumes E: "tame_env E" and others: "safe bad (well E) others"
  shows "safe bad (well E) (admin_room_info E (Suc (Suc (Suc (Suc m)))) (Suc (Suc d)) q i others)"
proof -
  have "safe bad (well E) (cancel_info h)" for h
    unfolding cancel_info_def by (rule safe_effect) (auto intro: unsubscribe_sound)
  then show ?thesis
    unfolding admin_room_info_def
    by (intro ask_room_safe [OF E] well_rules reply_rules others) simp_all
qed

lemma admin_request_safe:
  assumes "tame_env E" "safe bad (well E) others"
  shows "safe bad (well E) (handle_admin_request E W (Suc (Suc (Suc (Suc m)))) (Suc (Suc d)) q req others)"
  unfolding handle_admin_request_def Let_def admin_rooms_def
  by (intro safe_if reply_rules get_rooms_safe admin_room_info_safe admin_values_safe admin_external_safe assms)

subsection \<open>Connections, timers and the shutdown\<close>

lemma connection_safe:
  assumes E: "tame_env E" and req: "\<And>req. request = Some req \<Longrightarrow> request_ok E W q req"
    and others: "safe bad (well E) others" "\<And>f. Elsewhere f \<in> set events \<Longrightarrow> safe bad (well E) f"
  shows "safe bad (well E)
    (handle_connection E W (Suc (Suc (Suc (Suc m)))) (Suc (Suc d)) q request accepted others events)"
proof (cases request)
  case (Some r)
  have "safe bad (well E) (seq (seqs (session_step E W (Suc (Suc (Suc (Suc m)))) (Suc (Suc d)) c) events)
      (close_session E (Suc (Suc (Suc (Suc m)))) (Suc (Suc d)) (sc_session_id c)))" if "client_ok E c" for c
    using others(2) by (intro safe_seq safe_seqs session_safe close_session_safe E that) auto
  note session = open_session_safe [OF E req [OF Some] this]
  show ?thesis
    unfolding handle_connection_def Some option.case
    by (intro safe_if safe_case_option safe_skip safe_seq [OF _ session] safe_effect_same
        admin_request_safe [OF E others(1)] write_reply_safe) simp_all
qed (simp add: handle_connection_def safe_skip)

text \<open>
  One turn of the timer thread: the task it takes is run at once.  (Between the two the code holds no
  lock; see \<open>taken_timer_outlives_room\<close> for what can happen there.)
\<close>

definition timer_turn :: "env \<Rightarrow> nat \<Rightarrow> wstep" where
  "timer_turn E n = reading (\<lambda>w. case sched_turn (w_now w) (w_sched w) of
       (Run t, s) \<Rightarrow> seq (effect (\<lambda>w. w\<lparr>w_sched := s\<rparr>)) (run_timer E n (tk_callback t))
     | (_, s) \<Rightarrow> effect (\<lambda>w. w\<lparr>w_sched := s\<rparr>))"

lemma fewer_tasks_sound:
  assumes "sound E X D K w" "set (sc_tasks s) \<subseteq> set (sc_tasks (w_sched w))" "sc_cancelled s = sc_cancelled (w_sched w)"
  shows "sound E X D K (w\<lparr>w_sched := s\<rparr>)"
proof -
  have "timer_ok D (w_rooms w) (w_next_room w) s t" if "timer_ok D (w_rooms w) (w_next_room w) (w_sched w) t" for t
    using that assms(3) by (cases "tk_callback t") (simp_all add: timer_ok_def)
  then show ?thesis using assms(1,2) unfolding sound_def server_ok_def timers_ok_def by auto
qed

lemma due_room:
  assumes s: "well E w" and t: "t \<in> set (sc_tasks (w_sched w))" "\<not> sc_cancelled (w_sched w) (tk_flag t)"
  obtains a where "tk_callback t = AutoDispose a" "w_rooms w a \<noteq> None"
proof -
  have ok: "timer_ok {} (w_rooms w) (w_next_room w) (w_sched w) t"
    using s t(1) unfolding sound_def server_ok_def timers_ok_def by blast
  show thesis
  proof (cases "tk_callback t")
    case (AutoDispose a)
    with ok t(2) have "w_rooms w a \<noteq> None" by (cases "w_rooms w a") (simp_all add: timer_ok_def)
    with AutoDispose that show thesis by blast
  qed (use ok in \<open>simp add: timer_ok_def\<close>)
qed

lemma timer_turn_safe:
  assumes E: "tame_env E"
  shows "safe bad (well E) (timer_turn E (Suc (Suc (Suc m))))"
proof (rule safeI)
  fix w assume s: "well E w"
  obtain tu sc where turn: "sched_turn (w_now w) (w_sched w) = (tu, sc)" by fastforce
  note t = turn_tasks [OF turn]
  have sc: "well E (w\<lparr>w_sched := sc\<rparr>)" by (rule fewer_tasks_sound [OF s t(1,2)])
  show "fst (timer_turn E (Suc (Suc (Suc m))) w) \<notin> bad \<and> well E (snd (timer_turn E (Suc (Suc (Suc m))) w))"
  proof (cases tu)
    case (Run k)
    from t(3) [OF this] obtain a where a: "tk_callback k = AutoDispose a" "w_rooms w a \<noteq> None"
      using due_room [OF s] by blast
    have "sound E {} {} {a} (w\<lparr>w_sched := sc\<rparr>)" using sc a(2) by (simp add: sound_def)
    from endsD [OF dispose_safe [OF E, where a = a and X = "{}" and K = "{}" and m = m] this] a(1) Run turn
    show ?thesis by (simp add: timer_turn_def reading_def)
  qed (use sc turn in \<open>simp_all add: timer_turn_def reading_def effect_def\<close>)
qed

lemma dispose_managed_safe:
  assumes E: "tame_env E"
  shows "safe bad (well E) (reading (\<lambda>w. case map_of (w_managing w) i of None \<Rightarrow> skip | Some a \<Rightarrow> dispose E (Suc (Suc (Suc m))) a))"
    (is "safe bad _ ?f")
proof (rule safeI)
  fix w assume s: "well E w"
  show "fst (?f w) \<notin> bad \<and> well E (snd (?f w))"
  proof (cases "map_of (w_managing w) i")
    case None
    with s show ?thesis by (simp add: reading_def skip_def)
  next
    case (Some a)
    then have "w_rooms w a \<noteq> None" using s unfolding sound_def server_ok_def managing_ok_def by fastforce
    then have "sound E {} {} {a} w" using s by (simp add: sound_def)
    from endsD [OF dispose_safe [OF E, where a = a and X = "{}" and K = "{}" and m = m] this] Some
    show ?thesis by (simp add: reading_def)
  qed
qed

lemma shutdown_safe:
  assumes "tame_env E"
  shows "safe bad (well E) (shutdown_rooms E (Suc (Suc (Suc m))))"
  unfolding shutdown_rooms_def
  by (intro safe_seq safe_effect_same safe_reading_all safe_seqs dispose_managed_safe assms) simp_all

end
