(* ===== verification/Chat_Room.thy ===== *)
theory Chat_Room imports Room
begin

text \<open>
  The example room (examples/server/chat_room.cpp): its virtual methods as hooks.  \<open>reconnected\<close> says
  what the \<open>allow_reconnection\<close> of \<open>on_leave\<close>, which blocks, answers for a client; \<open>chat_on_leave\<close> is the method
  with the wait in it.
\<close>

subsection \<open>JSON operations of the example\<close>

text \<open>\<open>v[k]\<close> on a value that is not constant: a missing key is created with null.\<close>

definition jindex :: "string \<Rightarrow> json \<Rightarrow> json jres" where
  "jindex k j =
     (case j of JObject m \<Rightarrow> Inr (case map_of m k of Some v \<Rightarrow> v | None \<Rightarrow> JNull)
      | JNull \<Rightarrow> Inr JNull
      | _ \<Rightarrow> Inl (JsonError (IndexOnNonObject j)))"

text \<open>\<open>push_back\<close>: null becomes an array, any other value that is no array is refused.\<close>

definition jpush_back :: "json \<Rightarrow> json \<Rightarrow> json jres" where
  "jpush_back x j =
     (case j of JArray xs \<Rightarrow> Inr (JArray (xs @ [x]))
      | JNull \<Rightarrow> Inr (JArray [x])
      | _ \<Rightarrow> Inl (JsonError (TypeMismatch j)))"

subsection \<open>The methods\<close>

definition act_of :: "'a jres \<Rightarrow> ('a \<Rightarrow> act) \<Rightarrow> act" where
  "act_of r f = (case r of Inl e \<Rightarrow> ThrowExn e | Inr x \<Rightarrow> f x)"

definition chat_line :: "string \<Rightarrow> string \<Rightarrow> json" where
  "chat_line text sender = jobj [(''message'', JString text), (''senderId'', JString sender)]"

definition chat_create :: prog where
  "chat_create =
     [\<lambda>r. act_of (jvalue get_string ''initialBotMessage'' ''Welcome to the chat!'' (rm_initial_game_values r)) (\<lambda>m.
        SetState (jobj [(''messages'', JArray [chat_line m ''Botsy''])]))]"

definition catch_up :: "simple_client \<Rightarrow> prog" where
  "catch_up client =
     [\<lambda>r. act_of (jindex ''messages'' (rm_state r)) (SendTo (sc_session_id client) ''MESSAGES'')]"

definition add_message :: "string \<Rightarrow> string \<Rightarrow> prog" where
  "add_message text sender =
     [\<lambda>r. act_of (rbind (jindex ''messages'' (rm_state r)) (jpush_back (chat_line text sender))) (\<lambda>ms.
        act_of (jassign ''messages'' ms (rm_state r)) SetState),
      \<lambda>r. Broadcast ''MESSAGE'' (chat_line text sender)]"

definition chat_message :: "json_lib \<Rightarrow> simple_client \<Rightarrow> string \<Rightarrow> json \<Rightarrow> prog" where
  "chat_message J client key d =
     (if key = [] then []
      else (if key = ''LATENCY'' then [\<lambda>r. SendTo (sc_session_id client) ''LATENCY'' d] else []) @
           (if key = ''CHAT'' then
              (case (case d of JString s \<Rightarrow> Inr s | _ \<Rightarrow> dump J d) of
                 Inl e \<Rightarrow> [\<lambda>r. ThrowExn e]
               | Inr text \<Rightarrow> add_message text (sc_id client))
            else []))"

definition chat_leave :: "(simple_client \<Rightarrow> bool) \<Rightarrow> simple_client \<Rightarrow> prog" where
  "chat_leave reconnected client =
     (if reconnected client then [] else add_message (sc_id client @ '' has left the room'') ''Botsy'')"

definition chat_hooks :: "json_lib \<Rightarrow> (simple_client \<Rightarrow> bool) \<Rightarrow> hooks" where
  "chat_hooks J reconnected =
     \<lparr>hk_create = (\<lambda>_. chat_create), hk_can_join = (\<lambda>_ _. []), hk_join = (\<lambda>client _. catch_up client),
      hk_message = chat_message J, hk_leave = (\<lambda>client _. chat_leave reconnected client),
      hk_before_dispose = [\<lambda>r. Broadcast ''DISPOSED'' JNull], hk_dispose = [], hk_external = (\<lambda>_ _. []),
      hk_join_cb = (\<lambda>_ _. []), hk_leave_cb = (\<lambda>_ _ _. [])\<rparr>"

subsection \<open>The method that waits\<close>

text \<open>
  \<open>Room::allow_reconnection\<close> as a whole: the listener and the timer are set up, then the lock is given up for
  what the other threads do (\<open>others\<close>) until the promise is set; a thread whose promise is not set yet does not
  go on.
\<close>

definition await :: "nat \<Rightarrow> (bool \<Rightarrow> wstep) \<Rightarrow> wstep" where
  "await t k = reading (\<lambda>w. case Option.bind (w_pending w t) pd_result of None \<Rightarrow> nofuel | Some b \<Rightarrow> k b)"

definition allow_reconnection :: "env \<Rightarrow> nat \<Rightarrow> simple_client \<Rightarrow> int \<Rightarrow> wstep \<Rightarrow> (bool \<Rightarrow> wstep) \<Rightarrow> wstep" where
  "allow_reconnection E a c seconds others k =
     begin_reconnection E a c seconds (\<lambda>p. case p of
         None \<Rightarrow> k False
       | Some t \<Rightarrow> seq others (await t k))"

text \<open>\<open>ChatRoom::on_leave\<close>\<close>

definition chat_on_leave :: "env \<Rightarrow> nat \<Rightarrow> nat \<Rightarrow> simple_client \<Rightarrow> wstep \<Rightarrow> wstep" where
  "chat_on_leave E n a c others =
     allow_reconnection E a c 30 others (\<lambda>reconnected. run_prog E n a (chat_leave (\<lambda>_. reconnected) c))"

text \<open>The hook \<open>chat_leave\<close> is what the method does once it has been answered.\<close>

lemma chat_on_leave_hook:
  assumes "w_rooms w a = Some r" "\<not> rm_disposing r"
    and "begin_reconnection E a c 30 (\<lambda>_. others) w = (Normal, u)" "Option.bind (w_pending u (w_next_pending w)) pd_result = Some b"
  shows "chat_on_leave E n a c others w = run_prog E n a (chat_leave (\<lambda>_. b) c) u"
proof -
  have "begin_reconnection E a c 30 (\<lambda>p. case p of None \<Rightarrow> f | Some t \<Rightarrow> seq others (g t)) w =
      seq (begin_reconnection E a c 30 (\<lambda>_. others)) (g (w_next_pending w)) w" for f g
    using assms(1,2) by (simp add: begin_reconnection_def reading_def Let_def seq_assoc seq_def split: prod.split outcome.split)
  then show ?thesis
    using assms(3,4) by (simp add: chat_on_leave_def allow_reconnection_def await_def reading_def)
qed

text \<open>A member of a room that is being disposed of is not waited for.\<close>

lemma chat_on_leave_disposing:
  assumes "w_rooms w a = Some r" "rm_disposing r"
  shows "chat_on_leave E n a c others w = run_prog E n a (chat_leave (\<lambda>_. False) c) w"
  using assms by (simp add: chat_on_leave_def allow_reconnection_def begin_reconnection_def)

end
