(* ===== verification/Run_Props.thy ===== *)
theory Run_Props imports Server_Run Chat_Room
begin

text \<open>
  Everything that can happen to a running server: its reachable states are well-formed, and no operation
  uses a destroyed object, as long as the classes of rooms leave the membership to the server (\<open>tame\<close>).
\<close>

subsection \<open>The operations of a server\<close>

text \<open>
  What the threads of the process do, one operation at a time: the program registers room types, creates
  rooms, asks how many there are, and shuts the server down; a connection is served, from its request to
  its end, with other operations in between; the timer thread takes a turn; time passes.  The numbers are
  recursion bounds that are enough.
\<close>

inductive server_op :: "env \<Rightarrow> web \<Rightarrow> wstep \<Rightarrow> bool" for E :: env and W :: web where
  register: "writable E name \<Longrightarrow> server_op E W (register_room name opts)"
| create: "3 \<le> n \<Longrightarrow> server_op E W (create_room E n name [] creator (\<lambda>i. skip))"
| count: "server_op E W (get_room_count (\<lambda>m. skip))"
| serve: "4 \<le> n \<Longrightarrow> 2 \<le> d \<Longrightarrow> (\<And>req. request = Some req \<Longrightarrow> request_ok E W q req) \<Longrightarrow> server_op E W others \<Longrightarrow>
    (\<And>f. Elsewhere f \<in> set events \<Longrightarrow> server_op E W f) \<Longrightarrow>
    server_op E W (handle_connection E W n d q request accepted others events)"
| turn: "3 \<le> n \<Longrightarrow> server_op E W (timer_turn E n)"
| tick: "server_op E W (effect (\<lambda>w. w\<lparr>w_now := w_now w + int ms, w_wall_ms := w_wall_ms w + of_nat ms\<rparr>))"
| stop: "3 \<le> n \<Longrightarrow> server_op E W (shutdown_rooms E n)"

text \<open>The states a server comes to, from its construction on.\<close>

inductive server_run :: "env \<Rightarrow> web \<Rightarrow> world \<Rightarrow> bool" for E :: env and W :: web where
  start: "server_run E W empty_world"
| step: "server_run E W w \<Longrightarrow> server_op E W f \<Longrightarrow> server_run E W (snd (f w))"

lemma sucs: "3 \<le> n \<Longrightarrow> \<exists>m. n = Suc (Suc (Suc m))" "4 \<le> n \<Longrightarrow> \<exists>m. n = Suc (Suc (Suc (Suc m)))"
  "2 \<le> n \<Longrightarrow> \<exists>m. n = Suc (Suc m)"
  by presburger+

lemma no_client_ok: "tame_env E \<Longrightarrow> client_ok E no_client"
  by (simp add: tame_env_def client_ok_def no_client_def)

lemma op_safe:
  assumes E: "tame_env E"
  shows "server_op E W f \<Longrightarrow> safe bad (well E) f"
proof (induction rule: server_op.induct)
  case (create n name creator)
  then show ?case
    using sucs(1) by (auto intro!: create_room_safe E no_client_ok safe_skip)
next
  case (serve n d request q others events accepted)
  then obtain m e where "n = Suc (Suc (Suc (Suc m)))" "d = Suc (Suc e)" using sucs(2,3) by blast
  with serve show ?case by (simp add: connection_safe E)
next
  case (turn n)
  then show ?case using sucs(1) by (auto intro: timer_turn_safe E)
next
  case (stop n)
  then show ?case using sucs(1) by (auto intro: shutdown_safe E)
next
  case tick
  show ?case by (rule safe_effect_same) simp
qed (auto intro!: register_safe get_room_count_safe safe_skip)

lemma well_empty: "well E empty_world"
  by (simp add: sound_def server_ok_def rooms_ok_def managing_ok_def listeners_ok_def timers_ok_def names_ok_def
      empty_world_def ps_listeners_def sched_init_def)

lemma run_well:
  assumes "tame_env E"
  shows "server_run E W w \<Longrightarrow> well E w"
  by (induction rule: server_run.induct) (auto intro: well_empty safeD op_safe [OF assms])

subsection \<open>A server with chat rooms\<close>

text \<open>A library that can write every value, the example room whose clients always reconnect, and identifiers
  that never repeat.\<close>

definition total_json :: json_lib where
  "total_json = \<lparr>jl_parse = (\<lambda>s. Some (JObject [])), jl_dump = (\<lambda>v. Some ''text''), jl_what = (\<lambda>e. ''json''),
     jl_float_int = (\<lambda>f. f)\<rparr>"

definition club_env :: env where
  "club_env = \<lparr>e_json = total_json, e_rid = (\<lambda>n. replicate (Suc n) (CHR ''r'')),
     e_hooks = (\<lambda>_. chat_hooks total_json (\<lambda>_. True)), e_idgen = None\<rparr>"

lemma tame_act_of: "(\<And>x. tame (f x)) \<Longrightarrow> tame (act_of r f)"
  by (cases r) (simp_all add: act_of_def)

lemma chat_tame: "tame_hooks (chat_hooks J rec)"
  unfolding tame_hooks_def tame_prog_def
  by (auto simp: chat_hooks_def chat_create_def catch_up_def chat_message_def chat_leave_def add_message_def
      intro!: tame_act_of split: if_splits sum.splits json.splits)

lemma club_tame: "tame_env club_env"
proof -
  have "PLAYER_LEFT \<noteq> replicate (Suc n) (CHR ''r'')" for n by (simp add: PLAYER_LEFT_def)
  then have "PLAYER_LEFT \<notin> range (\<lambda>n. replicate (Suc n) (CHR ''r''))" by blast
  moreover have "inj (\<lambda>n. replicate (Suc n) (CHR ''r''))" by (rule injI) (metis length_replicate nat.inject)
  ultimately show ?thesis
    by (simp add: tame_env_def club_env_def chat_tame writable_def writes_snapshots_def total_json_def)
qed

text \<open>It has registered the class and created one room.\<close>

definition club_open :: world where
  "club_open = snd (create_room club_env 3 ''Chat'' [] JNull (\<lambda>i. skip)
     (snd (register_room ''Chat'' (JObject []) empty_world)))"

lemma club_run: "server_run club_env W club_open"
  unfolding club_open_def
  by (intro server_run.intros server_op.intros) (simp_all add: writable_def club_env_def total_json_def)

lemma club_rooms: "w_managing club_open = [(''r'', 0)]"
  unfolding club_open_def by code_simp





end
