(* ===== verification/Bounds.thy ===== *)
theory Bounds imports Run_Props
begin

text \<open>
  The bounds of the recursions only cut: when an operation is not stopped by its bound, a larger bound gives
  the same result.  Outcomes are ordered by how much they are defined, with \<open>NoFuel\<close> at the bottom.
\<close>

instantiation outcome :: (type) order_bot
begin

definition less_eq_outcome :: "'a outcome \<Rightarrow> 'a outcome \<Rightarrow> bool" where
  "less_eq_outcome x y \<longleftrightarrow> x = NoFuel \<or> x = y"

definition less_outcome :: "'a outcome \<Rightarrow> 'a outcome \<Rightarrow> bool" where
  "less_outcome x y \<longleftrightarrow> x = NoFuel \<and> y \<noteq> NoFuel"

definition bot_outcome :: "'a outcome" where
  "bot_outcome = NoFuel"

instance
  by standard (auto simp: less_eq_outcome_def less_outcome_def bot_outcome_def)

end

definition below :: "('j, 'w) step \<Rightarrow> ('j, 'w) step \<Rightarrow> bool" where
  "below f g \<longleftrightarrow> (\<forall>w. fst (f w) \<le> fst (g w) \<and> (fst (f w) \<noteq> bot \<longrightarrow> snd (f w) = snd (g w)))"

lemma below_cases: "below f g \<longleftrightarrow> (\<forall>w. fst (f w) = NoFuel \<or> f w = g w)"
  by (auto simp: below_def less_eq_outcome_def bot_outcome_def prod_eq_iff)

lemma belowI: "(\<And>w r u. f w = (r, u) \<Longrightarrow> r \<noteq> NoFuel \<Longrightarrow> g w = (r, u)) \<Longrightarrow> below f g"
  unfolding below_cases by (metis prod.collapse)

lemma belowE: "below f g \<Longrightarrow> f w = (r, u) \<Longrightarrow> r \<noteq> NoFuel \<Longrightarrow> g w = (r, u)"
  unfolding below_cases by (metis fst_conv)

lemma belowD: "below f g \<Longrightarrow> fst (f w) \<noteq> NoFuel \<Longrightarrow> g w = f w"
  by (auto simp: below_cases)

subsection \<open>The combinators are monotone\<close>

named_theorems below_rules \<open>monotonicity of the step combinators\<close>

lemma below_refl [below_rules]: "below f f"
  by (simp add: below_cases)

lemma below_nofuel [below_rules]: "below nofuel f"
  by (simp add: below_cases nofuel_def)

lemma below_seq [below_rules]: "below f f' \<Longrightarrow> below g g' \<Longrightarrow> below (seq f g) (seq f' g')"
proof (rule belowI)
  fix w r u assume b: "below f f'" "below g g'" and w: "seq f g w = (r, u)" "r \<noteq> NoFuel"
  obtain q v where v: "f w = (q, v)" by fastforce
  with w have "q \<noteq> NoFuel" by (auto simp: seq_def)
  then have "f' w = (q, v)" using belowE [OF b(1) v] by simp
  with v w belowE [OF b(2), of v r u] show "seq f' g' w = (r, u)"
    by (cases q) (auto simp: seq_def)
qed

lemma below_seqs [below_rules]: "(\<And>x. below (f x) (g x)) \<Longrightarrow> below (seqs f xs) (seqs g xs)"
  by (induction xs) (simp_all add: below_rules)

lemma below_reading [below_rules]: "(\<And>u. below (f u) (g u)) \<Longrightarrow> below (reading f) (reading g)"
  by (simp add: below_cases reading_def)

lemma below_with_room [below_rules]: "(\<And>r. below (f r) (g r)) \<Longrightarrow> below (with_room a f) (with_room a g)"
  unfolding with_room_def by (auto intro!: below_rules split: option.split)

lemma below_catch_std [below_rules]:
  "below f f' \<Longrightarrow> (\<And>e. below (h e) (h' e)) \<Longrightarrow> below (catch_std f h) (catch_std f' h')"
proof (rule belowI)
  fix w r u assume b: "below f f'" "\<And>e. below (h e) (h' e)" and w: "catch_std f h w = (r, u)" "r \<noteq> NoFuel"
  obtain q v where v: "f w = (q, v)" by fastforce
  with w have "q \<noteq> NoFuel" by (auto simp: catch_std_def)
  then have "f' w = (q, v)" using belowE [OF b(1) v] by simp
  with v w belowE [OF b(2), of _ v r u] show "catch_std f' h' w = (r, u)"
    by (cases q) (simp_all add: catch_std_def split: if_splits)
qed

lemma below_catch_rethrow [below_rules]:
  "below f f' \<Longrightarrow> below h h' \<Longrightarrow> below (catch_rethrow f h) (catch_rethrow f' h')"
proof (rule belowI)
  fix w r u assume b: "below f f'" "below h h'" and w: "catch_rethrow f h w = (r, u)" "r \<noteq> NoFuel"
  have s: "below (seq h (throw e)) (seq h' (throw e))" for e using b(2) by (intro below_rules)
  obtain q v where v: "f w = (q, v)" by fastforce
  with w have "q \<noteq> NoFuel" by (auto simp: catch_rethrow_def)
  then have "f' w = (q, v)" using belowE [OF b(1) v] by simp
  with v w belowE [OF s, of _ v r u] show "catch_rethrow f' h' w = (r, u)"
    by (cases q) (simp_all add: catch_rethrow_def)
qed

lemma below_from_res [below_rules]: "(\<And>x. below (f x) (g x)) \<Longrightarrow> below (from_res r f) (from_res r g)"
  by (cases r) (simp_all add: below_rules)

lemma below_if [below_rules]: "(b \<Longrightarrow> below f f') \<Longrightarrow> (\<not> b \<Longrightarrow> below g g') \<Longrightarrow> below (if b then f else g) (if b then f' else g')"
  by simp

lemma below_case_option [below_rules]:
  "(y = None \<Longrightarrow> below f f') \<Longrightarrow> (\<And>x. y = Some x \<Longrightarrow> below (g x) (g' x)) \<Longrightarrow>
   below (case y of None \<Rightarrow> f | Some x \<Rightarrow> g x) (case y of None \<Rightarrow> f' | Some x \<Rightarrow> g' x)"
  by (cases y) simp_all

lemma below_cb_call [below_rules]: "(\<And>f. below (k f) (k' f)) \<Longrightarrow> below (cb_call k get put) (cb_call k' get put)"
  unfolding cb_call_def call_entry_def by (intro below_rules)

lemma below_publish [below_rules]:
  assumes "\<And>h p. below (k h p) (k' h p)"
  shows "below (ps_publish k get key payload) (ps_publish k' get key payload)"
proof -
  have "below (seqs (\<lambda>l. k (ls_handler l) payload) ls) (seqs (\<lambda>l. k' (ls_handler l) payload) ls)" for ls
    using assms by (intro below_rules)
  then have "fst (seqs (\<lambda>l. k (ls_handler l) payload) ls w) = NoFuel \<or>
      seqs (\<lambda>l. k (ls_handler l) payload) ls w = seqs (\<lambda>l. k' (ls_handler l) payload) ls w" for ls w
    unfolding below_cases by blast
  then show ?thesis unfolding below_cases ps_publish_seqs by blast
qed

subsection \<open>Rooms\<close>

lemma room_ops_below:
  "n \<le> m \<Longrightarrow> below (run_prog E n a p) (run_prog E m a p)"
  "n \<le> m \<Longrightarrow> below (do_act E n a x) (do_act E m a x)"
  "n \<le> m \<Longrightarrow> below (remove_client E n a sid b) (remove_client E m a sid b)"
  "n \<le> m \<Longrightarrow> below (dispose E n a) (dispose E m a)"
proof (induction E n a p and E n a x and E n a sid b and E n a arbitrary: m and m and m and m
    rule: run_prog_do_act_remove_client_dispose.induct)
  case (12 E n a sid b)
  then obtain k where "m = Suc k" "n \<le> k" by (cases m) auto
  with 12 show ?case by (simp only: remove_client.simps) (intro below_rules; blast)
next
  case (14 E n a)
  then obtain k where "m = Suc k" "n \<le> k" by (cases m) auto
  with 14 show ?case by (simp only: dispose.simps) (intro below_rules; blast)
qed (auto intro!: below_rules)

subsection \<open>The handlers of the server\<close>

lemma run_join_cb_below: "n \<le> m \<Longrightarrow> below (run_join_cb E n a c f) (run_join_cb E m a c f)"
  by (cases f) (auto intro!: below_rules room_ops_below)

lemma add_client_below: "n \<le> m \<Longrightarrow> below (add_client E n a c opts) (add_client E m a c opts)"
  unfolding add_client_def client_has_joined_def by (intro below_rules room_ops_below run_join_cb_below)

lemma game_message_below:
  assumes "n \<le> m" "\<And>k p. below (pub k p) (pub' k p)"
  shows "below (game_message E n pub a payload) (game_message E m pub' a payload)"
  unfolding game_message_def join_request_def message_request_def external_request_def
  by (intro below_rules room_ops_below add_client_below assms)

lemma invoke_below:
  "n \<le> m \<Longrightarrow> d \<le> e \<Longrightarrow> below (invoke E n d h payload) (invoke E m e h payload)"
proof (induction d arbitrary: e h payload)
  case 0
  then show ?case by (cases h) (auto intro!: below_rules room_ops_below)
next
  case (Suc d)
  then obtain k where k: "e = Suc k" "d \<le> k" by (cases e) auto
  have "below (invoke E n d g p) (invoke E m k g p)" for g p
    using Suc k(2) by blast
  then show ?case
    using k(1) Suc.prems(1) by (cases h) (auto intro!: below_rules room_ops_below game_message_below)
qed

lemma publish_below: "n \<le> m \<Longrightarrow> d \<le> e \<Longrightarrow> below (publish E n d key data) (publish E m e key data)"
  unfolding publish_def by (intro below_publish invoke_below)

lemma initialize_below: "n \<le> m \<Longrightarrow> below (initialize E n a) (initialize E m a)"
  unfolding initialize_def by (intro below_rules room_ops_below)

lemma below_choose:
  assumes "\<And>i. below (k i) (k' i)"
  shows "below (choose_room_id E name opts creator override ex k) (choose_room_id E name opts creator override ex k')"
proof -
  have c: "(\<And>i. below (f i) (f' i)) \<Longrightarrow> below (room_id_candidate E name opts creator f) (room_id_candidate E name opts creator f')" for f f'
    unfolding room_id_candidate_def random_id_def by (intro below_rules)
  have pick: "(\<And>i. below (f i) (f' i)) \<Longrightarrow> below (pick_room_id E name opts creator ex j f) (pick_room_id E name opts creator ex j f')" for f f' j
    by (induction j) (auto intro!: c below_rules)
  show ?thesis unfolding choose_room_id_def by (intro below_rules pick assms)
qed

lemma create_below:
  assumes "n \<le> m" "\<And>a. below (k a) (k' a)"
  shows "below (create_new_room E n client name creator override k) (create_new_room E m client name creator override k')"
  unfolding create_new_room_def list_rooms_def Let_def split_beta
  by (intro below_rules below_choose initialize_below assms)

lemma message_below:
  assumes "n \<le> m" "d \<le> e"
  shows "below (handle_client_message E n d client event data) (handle_client_message E m e client event data)"
    "below (handle_client_disconnect E n d sid) (handle_client_disconnect E m e sid)"
  unfolding handle_client_message_def handle_create_def handle_join_def handle_send_def handle_client_disconnect_def Let_def
  by (intro below_rules create_below publish_below assms)+

lemma session_below:
  assumes "n \<le> m" "d \<le> e"
  shows "below (session_step E W n d client ev) (session_step E W m e client ev)"
    "below (close_session E n d sid) (close_session E m e sid)"
proof -
  show "below (session_step E W n d client ev) (session_step E W m e client ev)"
    unfolding session_step_def handle_ws_payload_def
    by (auto split: session_event.split frame_kind.split intro!: below_rules message_below assms)
  show "below (close_session E n d sid) (close_session E m e sid)"
    unfolding close_session_def by (intro below_rules message_below assms)
qed

lemma admin_below:
  assumes "n \<le> m" "d \<le> e"
  shows "below (handle_admin_request E W n d q req others) (handle_admin_request E W m e q req others)"
  unfolding handle_admin_request_def admin_room_info_def ask_room_def random_id_def admin_external_def Let_def split_beta
  by (intro below_rules publish_below assms)

lemma connection_below:
  assumes "n \<le> m" "d \<le> e"
  shows "below (handle_connection E W n d q request accepted others events) (handle_connection E W m e q request accepted others events)"
  unfolding handle_connection_def open_session_def with_client_id_def random_id_def Let_def
  by (intro below_rules admin_below session_below assms)

lemma others_below:
  assumes "n \<le> m"
  shows "below (timer_turn E n) (timer_turn E m)" "below (shutdown_rooms E n) (shutdown_rooms E m)"
proof -
  have "below (run_timer E n f) (run_timer E m f)" for f
    by (cases f) (auto intro!: below_rules room_ops_below assms)
  then show "below (timer_turn E n) (timer_turn E m)"
    unfolding timer_turn_def by (auto intro!: below_rules split: prod.split turn.split)
  show "below (shutdown_rooms E n) (shutdown_rooms E m)"
    unfolding shutdown_rooms_def by (intro below_rules room_ops_below assms)
qed


text \<open>A visitor of the club starts a game session; in between the program counts the rooms and a minute passes.\<close>

definition visitor_web :: web where
  "visitor_web = \<lparr>wb_admins = [], wb_decode_block = (\<lambda>s. None), wb_encode_block = (\<lambda>s. s), wb_sha1 = (\<lambda>s. s),
     wb_msgpack = \<lparr>ml_bytes = (\<lambda>c. []), ml_unpack = (\<lambda>s. Inl ''empty'')\<rparr>, wb_getpeername = (\<lambda>q. Some (PeerV4 ''abcd'')), wb_inet_ntop = (\<lambda>a. ''97.98.99.100'')\<rparr>"

definition visit :: http_request where
  "visit = \<lparr>hr_method = ''GET'', hr_path = ''/blueboat/'', hr_query = ''EIO=3&transport=websocket'',
     hr_headers = [(''upgrade'', ''websocket''), (''sec-websocket-key'', ''x3JJHMbDL1EzLkh9GBhXDw=='')], hr_body = []\<rparr>"


end
