(* ===== verification/Lobby.thy ===== *)
theory Lobby imports Server_Run Server_Props Server_Leave
begin

text \<open>
  The server as its clients see it: a table of rooms, each with its type and its members.  This theory has the
  abstract specification of what the requests of clients do to that table, and shows that the code of the
  server implements it for rooms whose hooks are quiet.
\<close>

subsection \<open>The abstract specification\<close>

text \<open>The rooms by their identifiers.\<close>

type_synonym lobby = "string \<Rightarrow> (string \<times> simple_client list) option"

datatype lobby_event =
    Make simple_client string string json
  | Enter simple_client string json
  | Say simple_client string string json
  | Lose string

text \<open>
  A room of a registered type is made under an identifier nobody has used; one enters at the end of the list of
  members; a lost session leaves every room, and a room without members is no more.
\<close>

fun lobby_next :: "string set \<Rightarrow> string \<Rightarrow> lobby_event \<Rightarrow> lobby \<Rightarrow> lobby" where
  "lobby_next types fresh (Make c uid name opts) L =
     (if uid \<noteq> [] \<and> name \<noteq> [] \<and> name \<in> types then L(fresh \<mapsto> (name, [])) else L)"
| "lobby_next types fresh (Enter c i opts) L =
     (case L i of None \<Rightarrow> L | Some (name, cs) \<Rightarrow> L(i \<mapsto> (name, cs @ [c])))"
| "lobby_next types fresh (Say c i key v) L = L"
| "lobby_next types fresh (Lose sid) L = (\<lambda>i. case L i of None \<Rightarrow> None
     | Some (name, cs) \<Rightarrow>
         if find_session sid cs \<noteq> None \<and> erase_session sid cs = [] then None else Some (name, erase_session sid cs))"

text \<open>\<open>L'\<close> can be reached from \<open>L\<close> by the events, with some choice of unused identifiers.\<close>

fun lobby_path :: "string set \<Rightarrow> lobby_event list \<Rightarrow> lobby \<Rightarrow> lobby \<Rightarrow> bool" where
  "lobby_path types [] L L' \<longleftrightarrow> L' = L"
| "lobby_path types (ev # evs) L L' \<longleftrightarrow> (\<exists>i. L i = None \<and> lobby_path types evs (lobby_next types i ev L) L')"

subsection \<open>The server behind it\<close>

text \<open>The handlers that the events run.\<close>

fun serve_event :: "env \<Rightarrow> nat \<Rightarrow> nat \<Rightarrow> lobby_event \<Rightarrow> wstep" where
  "serve_event E n d (Make c uid name opts) = handle_client_message E n d c createNewRoom
     (jobj [(''type'', JString name), (''options'', opts), (''uniqueRequestId'', JString uid)])"
| "serve_event E n d (Enter c i opts) = handle_client_message E n d c joinRoom
     (jobj [(''roomId'', JString i), (''options'', opts)])"
| "serve_event E n d (Say c i key v) = handle_client_message E n d c sendMessage
     (jobj [(''room'', JString i), (''key'', JString key), (''data'', v)])"
| "serve_event E n d (Lose sid) = handle_client_disconnect E n d sid"

text \<open>
  The key of departures is not a room: a message to it is handed to the handlers of departures (see
  \<open>internal_key_reachable\<close>).
\<close>

fun event_ok :: "env \<Rightarrow> lobby_event \<Rightarrow> bool" where
  "event_ok E (Make c uid name opts) \<longleftrightarrow> client_ok E c"
| "event_ok E (Enter c i opts) \<longleftrightarrow> client_ok E c"
| "event_ok E (Say c i key v) \<longleftrightarrow> client_ok E c \<and> i \<noteq> PLAYER_LEFT"
| "event_ok E (Lose sid) \<longleftrightarrow> True"

text \<open>The table of rooms of a server.\<close>

definition lobby_of :: "world \<Rightarrow> lobby" where
  "lobby_of w i = (case map_of (w_managing w) i of None \<Rightarrow> None
     | Some a \<Rightarrow> map_option (\<lambda>r. (rm_type r, rm_clients r)) (w_rooms w a))"

text \<open>Hooks that do not interfere with the membership, never-empty identifiers, and a JSON library that reads
  the snapshots it has written.\<close>

definition reads_snapshots :: "env \<Rightarrow> bool" where
  "reads_snapshots E \<longleftrightarrow> (\<forall>i name c t. writable E i \<and> writable E name \<and> client_ok E c \<longrightarrow>
     text_safe (e_json E) (snapshot_to_json
       \<lparr>rs_id = i, rs_type = name, rs_owner = c, rs_metadata = empty_object, rs_created_at = t\<rparr>))"

definition quiet_env :: "env \<Rightarrow> bool" where
  "quiet_env E \<longleftrightarrow> tame_env E \<and> [] \<notin> range (e_rid E) \<and> reads_snapshots E \<and>
     (\<forall>t. (\<forall>opts. quiet_prog (hk_create (e_hooks E t) opts)) \<and> quiet_join (e_hooks E t) \<and> quiet_leave (e_hooks E t) \<and>
       (\<forall>c key v. quiet_prog (hk_message (e_hooks E t) c key v)))"

text \<open>
  Beside \<open>server_ok\<close>: every room is subscribed and not being disposed, and exactly the managed rooms are stored;
  nobody waits for the details of a room.
\<close>

definition attached :: "env \<Rightarrow> world \<Rightarrow> bool" where
  "attached E w \<longleftrightarrow> mem_good (w_storage w) \<and>
     (\<forall>k. \<forall>l \<in> set (ps_listeners (w_pubsub w) k). \<forall>q. ls_handler l \<noteq> AdminInfo q) \<and>
     (\<forall>b r. w_rooms w b = Some r \<longrightarrow> \<not> rm_disposing r \<and>
        GameMessage b \<in> ls_handler ` set (ps_listeners (w_pubsub w) (rm_id r)) \<and>
        PlayerLeft b \<in> ls_handler ` set (ps_listeners (w_pubsub w) PLAYER_LEFT)) \<and>
     (\<forall>i. if map_of (w_managing w) i = None then not_stored i w
        else \<exists>snap. find_room_by_id (sops w) (e_json E) (w_storage w) i = Inr snap)"

text \<open>
  The life of a room as its hooks see it: it is created; clients are asked for, join, speak and leave; then it is
  disposed of, and no hook is called again.
\<close>

datatype phase = Unborn | Open | Closing | Ended

fun hook_next :: "phase \<Rightarrow> hook_name \<Rightarrow> phase option" where
  "hook_next Unborn OnCreate = Some Open"
| "hook_next Open CanClientJoin = Some Open"
| "hook_next Open OnJoin = Some Open"
| "hook_next Open OnMessage = Some Open"
| "hook_next Open OnExternalMessage = Some Open"
| "hook_next Open OnLeave = Some Open"
| "hook_next Open BeforeDispose = Some Closing"
| "hook_next Closing OnDispose = Some Ended"
| "hook_next p h = None"

fun hook_run :: "phase \<Rightarrow> hook_name list \<Rightarrow> phase option" where
  "hook_run p [] = Some p"
| "hook_run p (h # hs) = (case hook_next p h of None \<Rightarrow> None | Some q \<Rightarrow> hook_run q hs)"

definition hooks_called :: "nat \<Rightarrow> world \<Rightarrow> hook_name list" where
  "hooks_called a w = map snd (filter (\<lambda>x. fst x = a) (w_log w))"

definition phase_of :: "nat \<Rightarrow> world \<Rightarrow> phase" where
  "phase_of a w = (if w_next_room w \<le> a then Unborn else if w_rooms w a = None then Ended else Open)"

text \<open>The hooks called for every room are those of a life, up to the phase the room is in.\<close>

definition in_phase :: "world \<Rightarrow> bool" where
  "in_phase w \<longleftrightarrow> (\<forall>a. hook_run Unborn (hooks_called a w) = Some (phase_of a w))"

definition lobby_ok :: "env \<Rightarrow> world \<Rightarrow> bool" where
  "lobby_ok E w \<longleftrightarrow> well E w \<and> attached E w \<and> in_phase w"

lemma hook_run_append: "hook_run p (xs @ ys) = (case hook_run p xs of None \<Rightarrow> None | Some q \<Rightarrow> hook_run q ys)"
  by (induction xs arbitrary: p) (auto split: option.splits)

text \<open>Hooks of one room are called, and its phase moves on.\<close>

lemma in_phase_step:
  assumes "in_phase w" "w_log w' = w_log w @ map (Pair a) hs" "\<And>b. b \<noteq> a \<Longrightarrow> phase_of b w' = phase_of b w"
    and "hook_run (phase_of a w) hs = Some (phase_of a w')"
  shows "in_phase w'"
proof -
  have "hooks_called b w' = hooks_called b w @ (if b = a then hs else [])" for b
    using assms(2) by (auto simp: hooks_called_def comp_def filter_empty_conv)
  then show ?thesis using assms(1,3,4) unfolding in_phase_def by (auto simp: hook_run_append split: option.splits)
qed

subsection \<open>What follows for the tables\<close>

lemma well_room:
  assumes "well E w" "w_rooms w b = Some r"
  shows "map_of (w_managing w) (rm_id r) = Some b" "rm_id r \<in> range (e_rid E)" "b < w_next_room w"
    "\<forall>f \<in> ce_callback ` set (cb_entries (rm_join_listeners r)). unrelated i f"
proof -
  have ok: "rooms_ok {} (w_next_room w) (w_managing w) (w_rooms w)"
    "managing_ok (drawn E (w_ids w)) (w_managing w) (w_rooms w)"
    using assms(1) by (simp_all add: sound_def server_ok_def)
  then show m: "map_of (w_managing w) (rm_id r) = Some b" and "b < w_next_room w"
    using assms(2) by (auto simp: rooms_ok_def)
  show "\<forall>f \<in> ce_callback ` set (cb_entries (rm_join_listeners r)). unrelated i f"
  proof
    fix f assume "f \<in> ce_callback ` set (cb_entries (rm_join_listeners r))"
    then obtain l where "f = UserJoin l" using ok(1) assms(2) unfolding rooms_ok_def by blast
    then show "unrelated i f" by simp
  qed
  have "rm_id r \<in> drawn E (w_ids w)" using ok(2) m unfolding managing_ok_def by blast
  then show "rm_id r \<in> range (e_rid E)" by (auto simp: drawn_def)
qed

lemma well_managed:
  assumes "well E w" "map_of (w_managing w) i = Some b"
  shows "\<exists>r. w_rooms w b = Some r \<and> rm_id r = i" "i \<in> drawn E (w_ids w)"
  using assms unfolding sound_def server_ok_def managing_ok_def by blast+

lemma well_listener:
  assumes "well E w"
  shows "l \<in> set (ps_listeners (w_pubsub w) k) \<Longrightarrow> listener_ok {} (w_rooms w) k l"
    "distinct (map ls_id (ps_listeners (w_pubsub w) k))"
  using assms unfolding sound_def server_ok_def listeners_ok_def by blast+

lemma lobby_room:
  assumes "well E w" "w_rooms w b = Some r"
  shows "lobby_of w (rm_id r) = Some (rm_type r, rm_clients r)"
  using well_room(1) [OF assms] assms(2) by (simp add: lobby_of_def)

lemma lobby_entry:
  assumes "well E w" "lobby_of w i = Some x"
  obtains b r where "w_rooms w b = Some r" "rm_id r = i" "map_of (w_managing w) i = Some b" "x = (rm_type r, rm_clients r)"
proof -
  from assms(2) obtain b where b: "map_of (w_managing w) i = Some b"
    by (auto simp: lobby_of_def split: option.splits)
  obtain r where r: "w_rooms w b = Some r" "rm_id r = i" using well_managed(1) [OF assms(1) b] by blast
  have "x = (rm_type r, rm_clients r)" using assms(2) b r by (simp add: lobby_of_def)
  with r b show thesis using that by blast
qed

text \<open>The table is determined by the live rooms.\<close>

lemma lobby_eqI:
  assumes "well E w" and "\<And>b r. w_rooms w b = Some r \<Longrightarrow> L (rm_id r) = Some (rm_type r, rm_clients r)"
    and "\<And>i x. L i = Some x \<Longrightarrow> \<exists>b r. w_rooms w b = Some r \<and> rm_id r = i"
  shows "lobby_of w = L"
proof
  fix i
  show "lobby_of w i = L i"
  proof (cases "L i")
    case (Some x)
    then obtain b r where "w_rooms w b = Some r" "rm_id r = i" using assms(3) by blast
    then show ?thesis using lobby_room [OF assms(1), of b r] assms(2) [of b r] by simp
  next
    case None
    have "lobby_of w i \<noteq> Some x" for x
    proof
      assume "lobby_of w i = Some x"
      then obtain b r where "w_rooms w b = Some r" "rm_id r = i" by (rule lobby_entry [OF assms(1)])
      with assms(2) None show False by force
    qed
    then show ?thesis using None by (cases "lobby_of w i") auto
  qed
qed

text \<open>The listener under the identifier of a room is the room's.\<close>

lemma same_id_single: "distinct (map ls_id ls) \<Longrightarrow> \<forall>l \<in> set ls. ls_id l = x \<Longrightarrow> ls \<noteq> [] \<Longrightarrow> \<exists>l. ls = [l]"
  by (cases ls; cases "tl ls") auto

lemma room_listener:
  assumes E: "tame_env E" and w: "lobby_ok E w" and r: "w_rooms w b = Some r"
  shows "map ls_handler (ps_listeners (w_pubsub w) (rm_id r)) = [GameMessage b]"
proof -
  let ?ls = "ps_listeners (w_pubsub w) (rm_id r)"
  have s: "well E w" and at: "attached E w" using w by (simp_all add: lobby_ok_def)
  have left: "rm_id r \<noteq> PLAYER_LEFT" using well_room(2) [OF s r] E by (auto simp: tame_env_def)
  have one: "ls_handler l = GameMessage b \<and> rm_game_message_sub r = Some (rm_id r, ls_id l)" if l: "l \<in> set ?ls" for l
  proof -
    have same: "c = b" if "w_rooms w c = Some q" "rm_id q = rm_id r" for c q
      using well_room(1) [OF s that(1)] well_room(1) [OF s r] that(2) by simp
    have ok: "listener_ok {} (w_rooms w) (rm_id r) l" by (rule well_listener(1) [OF s l])
    show ?thesis
    proof (cases "ls_handler l")
      case (GameMessage c)
      with ok obtain q where q: "w_rooms w c = Some q" "rm_id q = rm_id r" "rm_game_message_sub q = Some (rm_id r, ls_id l)"
        by (cases "w_rooms w c") (simp_all add: listener_ok_def)
      with same [OF q(1,2)] r GameMessage show ?thesis by simp
    next
      case (PlayerLeft c)
      with ok left show ?thesis by (simp add: listener_ok_def)
    next
      case (AdminInfo q)
      with at l show ?thesis by (simp add: attached_def)
    qed
  qed
  have "?ls \<noteq> []" using at r unfolding attached_def by fastforce
  then obtain l where "?ls = [l]"
    using same_id_single [OF well_listener(2) [OF s], of _ "snd (the (rm_game_message_sub r))"] one by fastforce
  with one show ?thesis by simp
qed

text \<open>The listeners of departures are those of the live rooms.\<close>

lemma departure_listeners:
  assumes E: "tame_env E" and w: "lobby_ok E w"
  obtains as where "map ls_handler (ps_listeners (w_pubsub w) PLAYER_LEFT) = map PlayerLeft as" "distinct as"
    "set as = dom (w_rooms w)"
proof -
  let ?ls = "ps_listeners (w_pubsub w) PLAYER_LEFT"
  let ?b = "\<lambda>l. case ls_handler l of PlayerLeft b \<Rightarrow> b"
  have s: "well E w" and at: "attached E w" using w by (simp_all add: lobby_ok_def)
  have one: "\<exists>b r. ls_handler l = PlayerLeft b \<and> w_rooms w b = Some r \<and> rm_player_left_sub r = Some (PLAYER_LEFT, ls_id l)"
    if l: "l \<in> set ?ls" for l
  proof -
    have ok: "listener_ok {} (w_rooms w) PLAYER_LEFT l" by (rule well_listener(1) [OF s l])
    show ?thesis
    proof (cases "ls_handler l")
      case (GameMessage c)
      with ok obtain q where q: "w_rooms w c = Some q" "PLAYER_LEFT = rm_id q"
        by (cases "w_rooms w c") (simp_all add: listener_ok_def)
      with well_room(2) [OF s q(1)] E show ?thesis by (simp add: tame_env_def)
    next
      case (PlayerLeft c)
      with ok show ?thesis by (cases "w_rooms w c") (simp_all add: listener_ok_def)
    next
      case (AdminInfo q)
      with at l show ?thesis by (simp add: attached_def)
    qed
  qed
  have eq: "map ls_handler ?ls = map PlayerLeft (map ?b ?ls)" using one by force
  moreover have "distinct (map ?b ?ls)"
  proof -
    have d: "distinct (map ls_id ?ls)" by (rule well_listener(2) [OF s])
    have "inj_on ?b (set ?ls)"
    proof (rule inj_onI)
      fix l m assume lm: "l \<in> set ?ls" "m \<in> set ?ls" "?b l = ?b m"
      then have "ls_id l = ls_id m" using one [OF lm(1)] one [OF lm(2)] by auto
      then show "l = m" using d lm(1,2) by (auto simp: distinct_map dest: inj_onD)
    qed
    then show ?thesis using d by (simp add: distinct_map)
  qed
  moreover have "set (map ?b ?ls) = dom (w_rooms w)"
  proof
    show "set (map ?b ?ls) \<subseteq> dom (w_rooms w)" using one by force
    show "dom (w_rooms w) \<subseteq> set (map ?b ?ls)"
    proof
      fix b assume "b \<in> dom (w_rooms w)"
      then obtain l where "l \<in> set ?ls" "ls_handler l = PlayerLeft b" using at unfolding attached_def by fastforce
      then show "b \<in> set (map ?b ?ls)" by force
    qed
  qed
  ultimately show thesis by (rule that)
qed

end
