(* ===== verification/Lobby_Time.thy ===== *)
theory Lobby_Time imports Lobby
begin

text \<open>
  Rooms and time.  A room is disposed of two and a half hours after it was made, by the timer thread; its entry in the
  storage, without which nobody finds it, expires after three hours.  This theory extends the specification of
  \<open>Lobby\<close> by a clock and the time at which each room ends, and has the invariant of the timers and the storage
  that goes with it.
\<close>

subsection \<open>The abstract specification with a clock\<close>

record timed_lobby =
  tl_now :: int
  tl_rooms :: lobby
  tl_due :: "string \<Rightarrow> int option"

text \<open>The timer thread takes one turn of its loop at a \<open>Turn\<close>.\<close>

datatype timed_event = Request lobby_event | Elapse nat | Turn

text \<open>The table after a request: a room that was not there before has its whole time ahead.\<close>

definition with_rooms :: "lobby \<Rightarrow> timed_lobby \<Rightarrow> timed_lobby" where
  "with_rooms L T = T\<lparr>tl_rooms := L, tl_due := (\<lambda>i. if L i = None then None
     else if tl_rooms T i = None then Some (tl_now T + AUTO_DISPOSE_AFTER) else tl_due T i)\<rparr>"

definition end_room :: "string \<Rightarrow> timed_lobby \<Rightarrow> timed_lobby" where
  "end_room i T = T\<lparr>tl_rooms := (tl_rooms T)(i := None), tl_due := (tl_due T)(i := None)\<rparr>"

text \<open>A turn of the timer thread ends a room whose time is over, one of those that are due first, or none.\<close>

definition ends_first :: "string \<Rightarrow> timed_lobby \<Rightarrow> bool" where
  "ends_first i T \<longleftrightarrow> (\<exists>d. tl_due T i = Some d \<and> d \<le> tl_now T \<and> (\<forall>j e. tl_due T j = Some e \<longrightarrow> d \<le> e))"

fun timed_next :: "string set \<Rightarrow> timed_event \<Rightarrow> timed_lobby \<Rightarrow> timed_lobby \<Rightarrow> bool" where
  "timed_next types (Request ev) T T' \<longleftrightarrow>
     (\<exists>i. tl_rooms T i = None \<and> T' = with_rooms (lobby_next types i ev (tl_rooms T)) T)"
| "timed_next types (Elapse ms) T T' \<longleftrightarrow> T' = T\<lparr>tl_now := tl_now T + int ms\<rparr>"
| "timed_next types Turn T T' \<longleftrightarrow> T' = T \<or> (\<exists>i. ends_first i T \<and> T' = end_room i T)"

fun timed_path :: "string set \<Rightarrow> timed_event list \<Rightarrow> timed_lobby \<Rightarrow> timed_lobby \<Rightarrow> bool" where
  "timed_path types [] T T' \<longleftrightarrow> T' = T"
| "timed_path types (ev # evs) T T' \<longleftrightarrow> (\<exists>U. timed_next types ev T U \<and> timed_path types evs U T')"

subsection \<open>The server behind it\<close>

fun serve_timed :: "env \<Rightarrow> nat \<Rightarrow> nat \<Rightarrow> timed_event \<Rightarrow> wstep" where
  "serve_timed E n d (Request ev) = serve_event E n d ev"
| "serve_timed E n d (Elapse ms) = effect (\<lambda>w. w\<lparr>w_now := w_now w + int ms, w_wall_ms := w_wall_ms w + of_nat ms\<rparr>)"
| "serve_timed E n d Turn = timer_turn E n"

fun timed_event_ok :: "env \<Rightarrow> timed_event \<Rightarrow> bool" where
  "timed_event_ok E (Request ev) \<longleftrightarrow> event_ok E ev"
| "timed_event_ok E (Elapse ms) \<longleftrightarrow> True"
| "timed_event_ok E Turn \<longleftrightarrow> True"

text \<open>When the auto-dispose timer of the room at \<open>a\<close> is due, and the table of a server.\<close>

definition room_due :: "world \<Rightarrow> nat \<Rightarrow> int option" where
  "room_due w a = map_option tk_due (List.find (\<lambda>t. tk_callback t = AutoDispose a) (sc_tasks (w_sched w)))"

definition timed_of :: "world \<Rightarrow> timed_lobby" where
  "timed_of w = \<lparr>tl_now = w_now w, tl_rooms = lobby_of w,
     tl_due = (\<lambda>i. case map_of (w_managing w) i of None \<Rightarrow> None | Some a \<Rightarrow> room_due w a)\<rparr>"

text \<open>
  The timer thread may be late, because it waits for the game lock or for the processor, but not by more than the
  half hour that the storage allows for.
\<close>

definition LATENESS :: int where
  "LATENESS = THREE_HOURS - AUTO_DISPOSE_AFTER"

definition in_time :: "world \<Rightarrow> bool" where
  "in_time w \<longleftrightarrow> list_all (\<lambda>i. case tl_due (timed_of w) i of None \<Rightarrow> True | Some d \<Rightarrow> w_now w \<le> d + LATENESS)
     (map fst (w_managing w))"

fun on_time :: "env \<Rightarrow> nat \<Rightarrow> nat \<Rightarrow> timed_event list \<Rightarrow> world \<Rightarrow> bool" where
  "on_time E n d [] w \<longleftrightarrow> True"
| "on_time E n d (ev # evs) w \<longleftrightarrow>
     (case ev of Elapse ms \<Rightarrow> in_time (snd (serve_timed E n d ev w)) | _ \<Rightarrow> True) \<and> on_time E n d evs (snd (serve_timed E n d ev w))"

subsection \<open>The timers and the storage\<close>

definition sched_ok :: "'c sched \<Rightarrow> bool" where
  "sched_ok s \<longleftrightarrow> distinct (map tk_flag (sc_tasks s)) \<and> (\<forall>t \<in> set (sc_tasks s). tk_flag t < sc_next_flag s) \<and>
     (\<forall>f. sc_next_flag s \<le> f \<longrightarrow> \<not> sc_cancelled s f) \<and> \<not> sc_stopping s"

text \<open>The task that will end the room at \<open>a\<close>, half an hour before its entry expires.\<close>

definition ticking :: "world \<Rightarrow> nat \<Rightarrow> room \<Rightarrow> timer_cb task \<Rightarrow> bool" where
  "ticking w a r t \<longleftrightarrow> t \<in> set (sc_tasks (w_sched w)) \<and> tk_callback t = AutoDispose a \<and>
     \<not> sc_cancelled (w_sched w) (tk_flag t) \<and>
     map_option ent_expires_at (map_of (w_storage w) (room_key (rm_id r))) = Some (Some (tk_due t + LATENESS))"

definition timed_ok :: "world \<Rightarrow> bool" where
  "timed_ok w \<longleftrightarrow> sched_ok (w_sched w) \<and> (\<forall>a r. w_rooms w a = Some r \<longrightarrow> (\<exists>t. ticking w a r t))"

text \<open>Nothing happens to the clock, and rooms that are still there keep their time.\<close>

definition steady :: "world \<Rightarrow> world \<Rightarrow> bool" where
  "steady w w' \<longleftrightarrow> w_now w' = w_now w \<and>
     (\<forall>a r'. w_rooms w' a = Some r' \<longrightarrow> (\<exists>r. w_rooms w a = Some r \<and> rm_id r' = rm_id r) \<and> room_due w' a = room_due w a) \<and>
     (timed_ok w \<longrightarrow> timed_ok w')"

lemma room_due_same: "sc_tasks (w_sched w') = sc_tasks (w_sched w) \<Longrightarrow> room_due w' a = room_due w a"
  by (simp add: room_due_def)

lemma timed_other [simp]:
  "room_due (w\<lparr>w_frames := fs\<rparr>) a = room_due w a" "timed_ok (w\<lparr>w_frames := fs\<rparr>) = timed_ok w"
  "room_due (w\<lparr>w_connections := cs\<rparr>) a = room_due w a" "timed_ok (w\<lparr>w_connections := cs\<rparr>) = timed_ok w"
  by (simp_all add: room_due_def timed_ok_def ticking_def)

lemma steady_refl [simp]: "steady w w"
  by (simp add: steady_def)

lemma steady_frames [simp]: "steady w (w'\<lparr>w_frames := fs\<rparr>) = steady w w'"
  "steady w (w'\<lparr>w_connections := cs\<rparr>) = steady w w'"
  by (simp_all add: steady_def)

lemma steady_trans: "steady u v \<Longrightarrow> steady v w \<Longrightarrow> steady u w"
  unfolding steady_def by (metis (no_types, lifting))

text \<open>Steps that touch neither the timers nor the storage.\<close>

lemma steady_rooms:
  assumes "w_now w' = w_now w" "w_sched w' = w_sched w" "w_storage w' = w_storage w"
    and ids: "\<And>a r'. w_rooms w' a = Some r' \<Longrightarrow> \<exists>r. w_rooms w a = Some r \<and> rm_id r' = rm_id r"
  shows "steady w w'"
proof -
  have "\<exists>t. ticking w' a r' t" if "timed_ok w" "w_rooms w' a = Some r'" for a r'
  proof -
    obtain r where "w_rooms w a = Some r" "rm_id r' = rm_id r" using ids \<open>w_rooms w' a = Some r'\<close> by blast
    with that(1) assms(2,3) show ?thesis by (auto simp: timed_ok_def ticking_def)
  qed
  then show ?thesis using assms room_due_same [of w' w] by (auto simp: steady_def timed_ok_def)
qed

subsection \<open>A room that is told to remove a client or to dispose of itself\<close>

text \<open>What such a step on the room at \<open>a\<close> leaves alone of the timers and the storage.\<close>

definition spares_time :: "nat \<Rightarrow> room \<Rightarrow> world \<Rightarrow> world \<Rightarrow> bool" where
  "spares_time a ra w u \<longleftrightarrow>
     sc_tasks (w_sched u) = sc_tasks (w_sched w) \<and> sc_next_flag (w_sched u) = sc_next_flag (w_sched w) \<and>
     sc_stopping (w_sched u) = sc_stopping (w_sched w) \<and>
     (\<forall>f. rm_auto_dispose_timer ra \<noteq> Some f \<longrightarrow> sc_cancelled (w_sched u) f = sc_cancelled (w_sched w) f) \<and>
     (\<forall>j. j \<noteq> rm_id ra \<longrightarrow> map_of (w_storage u) (room_key j) = map_of (w_storage w) (room_key j)) \<and>
     (\<forall>r. w_rooms u a = Some r \<longrightarrow> rm_id r = rm_id ra \<and> rm_auto_dispose_timer r = rm_auto_dispose_timer ra \<and>
        map_of (w_managing u) (rm_id r) = Some a)"

lemma spares_time_other [simp]:
  "spares_time a ra w (u\<lparr>w_frames := fs\<rparr>) = spares_time a ra w u" "spares_time a ra w (u\<lparr>w_log := lg\<rparr>) = spares_time a ra w u"
  by (simp_all add: spares_time_def)

lemma timer_clear_fields [simp]:
  "sc_next_flag (timer_clear h s) = sc_next_flag s" "sc_stopping (timer_clear h s) = sc_stopping s"
  by (cases h; simp)+

lemma timer_clear_cancels: "h \<noteq> Some f \<Longrightarrow> sc_cancelled (timer_clear h s) f = sc_cancelled s f"
  by (cases h) auto

text \<open>The timer of the room is its own.\<close>

definition own_timer :: "nat \<Rightarrow> room \<Rightarrow> world \<Rightarrow> bool" where
  "own_timer a ra w \<longleftrightarrow> (\<forall>f. rm_auto_dispose_timer ra = Some f \<longrightarrow> f < sc_next_flag (w_sched w) \<and>
     (\<forall>t \<in> set (sc_tasks (w_sched w)). tk_flag t = f \<longrightarrow> tk_callback t = AutoDispose a))"

lemma spares_time_ticking:
  assumes "spares_time a ra w u" "sched_ok (w_sched w)" "own_timer a ra w"
  shows "sched_ok (w_sched u)" "c \<noteq> a \<Longrightarrow> rm_id r \<noteq> rm_id ra \<Longrightarrow> ticking w c r t \<Longrightarrow> ticking u c r t"
proof -
  have tasks: "sc_tasks (w_sched u) = sc_tasks (w_sched w)" "sc_next_flag (w_sched u) = sc_next_flag (w_sched w)"
    "sc_stopping (w_sched u) = sc_stopping (w_sched w)"
    and flags: "\<And>f. rm_auto_dispose_timer ra \<noteq> Some f \<Longrightarrow> sc_cancelled (w_sched u) f = sc_cancelled (w_sched w) f"
    and stored: "\<And>j. j \<noteq> rm_id ra \<Longrightarrow> map_of (w_storage u) (room_key j) = map_of (w_storage w) (room_key j)"
    using assms(1) by (simp_all add: spares_time_def)
  show "sched_ok (w_sched u)"
    unfolding sched_ok_def tasks
  proof (intro conjI allI impI)
    fix f assume f: "sc_next_flag (w_sched w) \<le> f"
    then have "rm_auto_dispose_timer ra \<noteq> Some f" using assms(3) by (auto simp: own_timer_def)
    with f assms(2) flags show "\<not> sc_cancelled (w_sched u) f" by (simp add: sched_ok_def)
  qed (use assms(2) in \<open>simp_all add: sched_ok_def\<close>)
  assume c: "c \<noteq> a" "rm_id r \<noteq> rm_id ra" "ticking w c r t"
  then have "rm_auto_dispose_timer ra \<noteq> Some (tk_flag t)" using assms(3) by (auto simp: own_timer_def ticking_def)
  with c flags stored tasks show "ticking u c r t" by (simp add: ticking_def)
qed

text \<open>In a well-formed server every room that is ticking has one task, and the flag of that task is its timer.\<close>

lemma ticking_timer:
  assumes "well E w" "w_rooms w a = Some r" "t \<in> set (sc_tasks (w_sched w))" "tk_callback t = AutoDispose a"
  shows "rm_auto_dispose_timer r = Some (tk_flag t)"
proof -
  have "timer_ok {} (w_rooms w) (w_next_room w) (w_sched w) t"
    using assms(1,3) unfolding sound_def server_ok_def timers_ok_def by blast
  with assms(2,4) show ?thesis by (simp add: timer_ok_def)
qed

lemma same_flag: "sched_ok s \<Longrightarrow> t \<in> set (sc_tasks s) \<Longrightarrow> t' \<in> set (sc_tasks s) \<Longrightarrow> tk_flag t = tk_flag t' \<Longrightarrow> t = t'"
  unfolding sched_ok_def by (auto simp: distinct_map dest: inj_onD)

lemma ticking_due:
  assumes s: "well E w" and t: "timed_ok w" and r: "w_rooms w a = Some r" and k: "ticking w a r t"
  shows "room_due w a = Some (tk_due t)"
proof -
  have in_t: "t \<in> set (sc_tasks (w_sched w))" "tk_callback t = AutoDispose a" using k by (simp_all add: ticking_def)
  obtain u where u: "List.find (\<lambda>t. tk_callback t = AutoDispose a) (sc_tasks (w_sched w)) = Some u"
    using in_t by (cases "List.find (\<lambda>t. tk_callback t = AutoDispose a) (sc_tasks (w_sched w))") (auto simp: find_None_iff)
  then have "u \<in> set (sc_tasks (w_sched w))" "tk_callback u = AutoDispose a" by (auto simp: find_Some_iff)
  with ticking_timer [OF s r] in_t have "u = t" using same_flag t unfolding timed_ok_def by (metis option.inject)
  with u show ?thesis by (simp add: room_due_def)
qed

lemma timed_own_timer:
  assumes s: "well E w" and t: "timed_ok w" and r: "w_rooms w a = Some r"
  shows "own_timer a r w"
proof -
  obtain u where u: "ticking w a r u" using t r by (auto simp: timed_ok_def)
  then have in_u: "u \<in> set (sc_tasks (w_sched w))" "tk_callback u = AutoDispose a" by (simp_all add: ticking_def)
  have ok: "sched_ok (w_sched w)" using t by (simp add: timed_ok_def)
  have "v = u" if "v \<in> set (sc_tasks (w_sched w))" "tk_flag v = tk_flag u" for v
    by (rule same_flag [OF ok that(1) in_u(1) that(2)])
  with ok in_u ticking_timer [OF s r in_u] show ?thesis by (auto simp: own_timer_def sched_ok_def)
qed

lemma steady_spares:
  assumes s: "well E w" and r: "w_rooms w a = Some ra" and sp: "spares_time a ra w w'" and now: "w_now w' = w_now w"
    and same: "\<And>c. c \<noteq> a \<Longrightarrow> w_rooms w' c = w_rooms w c"
    and stays: "w_rooms w' a \<noteq> None \<Longrightarrow> w_sched w' = w_sched w \<and> w_storage w' = w_storage w"
  shows "steady w w'"
proof -
  have id: "rm_id r' = rm_id ra" if "w_rooms w' a = Some r'" for r' using sp that by (simp add: spares_time_def)
  have due: "room_due w' c = room_due w c" for c by (rule room_due_same) (use sp in \<open>simp add: spares_time_def\<close>)
  have rooms: "\<exists>q. w_rooms w c = Some q \<and> rm_id q' = rm_id q" if "w_rooms w' c = Some q'" for c q'
    using that r same id by (cases "c = a") auto
  have "timed_ok w'" if t: "timed_ok w"
    unfolding timed_ok_def
  proof (intro conjI allI impI)
    note keep = spares_time_ticking [OF sp _ timed_own_timer [OF s t r]]
    have ok: "sched_ok (w_sched w)" using t by (simp add: timed_ok_def)
    show "sched_ok (w_sched w')" by (rule keep(1) [OF ok])
    fix c q' assume q': "w_rooms w' c = Some q'"
    then obtain q where q: "w_rooms w c = Some q" "rm_id q' = rm_id q" using rooms by blast
    then obtain u where u: "ticking w c q u" using t by (auto simp: timed_ok_def)
    show "\<exists>u. ticking w' c q' u"
    proof (cases "c = a")
      case True
      with stays q' u q(2) show ?thesis by (auto simp: ticking_def)
    next
      case False
      then have "rm_id q \<noteq> rm_id ra" using well_room(1) [OF s q(1)] well_room(1) [OF s r] by auto
      from keep(2) [OF ok False this u] q(2) have "ticking w' c q' u" by (simp add: ticking_def)
      then show ?thesis ..
    qed
  qed
  with now due rooms show ?thesis by (simp add: steady_def)
qed

end
