(* ===== verification/Lobby_Props.thy ===== *)
theory Lobby_Props imports Lobby_Time Run_Props End_To_End "HOL-Library.Countable"
begin

text \<open>
  The server implements the specification of \<open>Lobby\<close>: each request of a client, and each lost session, one by
  one, and then any sequence of them.
\<close>

subsection \<open>What the end of a membership leaves alone\<close>

text \<open>From \<open>w\<close> to \<open>u\<close> nothing but room \<open>a\<close> has changed, its own listeners, timer and snapshot included.\<close>

definition fewer :: "handler pubsub \<Rightarrow> handler pubsub \<Rightarrow> bool" where
  "fewer ps ps' \<longleftrightarrow> (\<forall>k l. l \<in> set (ps_listeners ps' k) \<longrightarrow> l \<in> set (ps_listeners ps k))"

definition spared :: "room \<Rightarrow> handler pubsub \<Rightarrow> handler pubsub \<Rightarrow> bool" where
  "spared ra ps ps' \<longleftrightarrow> (\<forall>k l. l \<in> set (ps_listeners ps k) \<longrightarrow> l \<in> set (ps_listeners ps' k) \<or>
     rm_game_message_sub ra = Some (k, ls_id l) \<or> rm_player_left_sub ra = Some (k, ls_id l))"

definition spares :: "nat \<Rightarrow> room \<Rightarrow> world \<Rightarrow> world \<Rightarrow> bool" where
  "spares a ra w u \<longleftrightarrow>
     mem_good (w_storage u) \<and> w_registered u = w_registered w \<and> w_now u = w_now w \<and> w_next_room u = w_next_room w \<and>
     (\<forall>j. j \<noteq> rm_id ra \<longrightarrow> mem_get (w_now w) (w_storage u) (room_key j) = mem_get (w_now w) (w_storage w) (room_key j)) \<and>
     fewer (w_pubsub w) (w_pubsub u) \<and> spared ra (w_pubsub w) (w_pubsub u) \<and>
     (\<forall>r. w_rooms u a = Some r \<longrightarrow> rm_id r = rm_id ra \<and> map_of (w_managing u) (rm_id r) = Some a \<and>
        rm_game_message_sub r \<in> {None, rm_game_message_sub ra} \<and> rm_player_left_sub r \<in> {None, rm_player_left_sub ra})"

lemma spares_other [simp]:
  "spares a ra w (u\<lparr>w_frames := fs\<rparr>) = spares a ra w u" "spares a ra w (u\<lparr>w_log := lg\<rparr>) = spares a ra w u"
  "spares a ra w (u\<lparr>w_sched := sc\<rparr>) = spares a ra w u"
  by (simp_all add: spares_def)

lemma unsubscribe_spares:
  assumes "fewer ps ps'" "spared ra ps ps'" "s = None \<or> s = rm_game_message_sub ra \<or> s = rm_player_left_sub ra"
  shows "fewer ps (snd (ps_unsubscribe s ps'))" "spared ra ps (snd (ps_unsubscribe s ps'))"
proof -
  have "l \<in> set (ps_listeners (snd (ps_unsubscribe s ps')) k) \<or> s = Some (k, ls_id l)"
    if "l \<in> set (ps_listeners ps' k)" for l k
    using that by (cases s) (auto simp: ps_listeners_remove split: if_splits)
  then show "spared ra ps (snd (ps_unsubscribe s ps'))"
    using assms(2,3) unfolding spared_def by (metis option.distinct(1))
  show "fewer ps (snd (ps_unsubscribe s ps'))"
    using assms(1) unsub_subset unfolding fewer_def by blast
qed

text \<open>
  Hooks that do not set metadata do not depend on the JSON library, so one may be taken with which no
  metadata can be written.
\<close>

definition no_json :: json_lib where
  "no_json = \<lparr>jl_parse = (\<lambda>s. None), jl_dump = (\<lambda>v. None), jl_what = (\<lambda>e. []), jl_float_int = (\<lambda>f. f)\<rparr>"

abbreviation mute :: "env \<Rightarrow> env" where
  "mute E \<equiv> E\<lparr>e_json := no_json\<rparr>"

lemma mute_metadata: "set_room_metadata S (e_json (mute E)) s i m \<noteq> Inr s'"
  by (simp add: set_room_metadata_def find_room_by_id_def no_json_def parse_def dump_def split: option.splits)

lemma mute_prog: "quiet_prog p \<Longrightarrow> run_prog (mute E) n a p = run_prog E n a p"
proof (induction p)
  case (Cons g gs)
  have "do_act (mute E) n a (g r) = do_act E n a (g r)" for r
    using Cons.prems by (cases "g r") (auto simp: quiet_prog_def dest: spec [of _ r])
  with Cons show ?case by simp
qed simp

lemma mute_ops:
  assumes "\<And>t. quiet_leave (e_hooks E t)"
  shows "remove_client (mute E) n a sid b = remove_client E n a sid b \<and> dispose (mute E) n a = dispose E n a"
proof (induction n arbitrary: sid b)
  case (Suc n)
  have q: "quiet_prog (hk_leave (e_hooks E t) c x)" "quiet_prog (hk_leave_cb (e_hooks E t) l c x)"
    "quiet_prog (hk_before_dispose (e_hooks E t))" "quiet_prog (hk_dispose (e_hooks E t))" for t c x l
    using assms by (simp_all add: quiet_leave_def)
  show ?case by (simp add: remove_client.simps dispose.simps Suc q mute_prog cong: option.case_cong if_cong)
qed simp

lemma spares_closed: "closed (room_step (mute E) a) (spares a ra w)"
  unfolding closed_def
proof (intro allI impI)
  fix u v assume u: "spares a ra w u" and s: "room_step (mute E) a u v"
  from s consider (calm) "calm_step (mute E) a u v" | (tail) "tail_step a u v" by (auto simp: room_step_def)
  then show "spares a ra w v"
  proof cases
    case calm
    then show ?thesis
    proof cases
      case (store_metadata r m s)
      with mute_metadata [of "sops u" E "w_storage u" "rm_id r" m s] show ?thesis by simp
    next
      case (change r r')
      have "rm_id r' = rm_id r" "rm_game_message_sub r' = rm_game_message_sub r" "rm_player_left_sub r' = rm_player_left_sub r"
        using change(3) by (simp_all add: mild_fields)
      with u change(1,2) show ?thesis by (clarsimp simp: spares_def)
    qed (use u in simp_all)
  next
    case tail
    then show ?thesis
    proof cases
      case (unsub_game r)
      with u show ?thesis by (auto simp: spares_def intro: unsubscribe_spares)
    next
      case (unsub_left r)
      with u show ?thesis by (auto simp: spares_def intro: unsubscribe_spares)
    next
      case (forget r)
      with u have "rm_id r = rm_id ra" by (simp add: spares_def)
      with u forget show ?thesis
        by (simp add: spares_def remove_room_def mem_ops_def mem_get_remove mem_good_ops)
    next
      case (free r b)
      with u have "b = a" by (auto simp: spares_def)
      with u free show ?thesis by (simp add: spares_def)
    next
      case (timer r)
      with u show ?thesis by simp
    next
      case (mark r)
      with u show ?thesis by (clarsimp simp: spares_def)
    qed
  qed
qed

lemma spares_time_closed: "closed (room_step (mute E) a) (spares_time a ra w)"
  unfolding closed_def
proof (intro allI impI)
  fix u v assume u: "spares_time a ra w u" and s: "room_step (mute E) a u v"
  from s consider (calm) "calm_step (mute E) a u v" | (tail) "tail_step a u v" by (auto simp: room_step_def)
  then show "spares_time a ra w v"
  proof cases
    case calm
    then show ?thesis
    proof cases
      case (store_metadata r m s)
      with mute_metadata [of "sops u" E "w_storage u" "rm_id r" m s] show ?thesis by simp
    next
      case (change r r')
      with u show ?thesis by (clarsimp simp: spares_time_def mild_fields)
    qed (use u in simp_all)
  next
    case tail
    then show ?thesis
    proof cases
      case (forget r)
      with u have "rm_id r = rm_id ra" by (simp add: spares_time_def)
      with u forget show ?thesis by (simp add: spares_time_def remove_room_def mem_ops_def mem_remove_def delete_conv')
    next
      case (free r b)
      with u have "b = a" by (auto simp: spares_time_def)
      with u free show ?thesis by (simp add: spares_time_def)
    next
      case (timer r)
      with u have "rm_auto_dispose_timer r = rm_auto_dispose_timer ra" "rm_id r = rm_id ra" by (simp_all add: spares_time_def)
      with u timer show ?thesis by (simp add: spares_time_def timer_clear_cancels)
    qed (use u in \<open>clarsimp simp: spares_time_def\<close>)+
  qed
qed

lemma quiet_envD:
  assumes "quiet_env E"
  shows "tame_env E" "quiet_leave (e_hooks E t)" "quiet_join (e_hooks E t)" "quiet_prog (hk_create (e_hooks E t) opts)"
    "quiet_prog (hk_message (e_hooks E t) c key v)" "e_rid E n \<noteq> []" "reads_snapshots E"
  using assms unfolding quiet_env_def by (auto intro: range_eqI [OF sym])

text \<open>The handles of a room are those of its two listeners.\<close>

lemma handle_owner:
  assumes E: "tame_env E" and w: "lobby_ok E w" and r: "w_rooms w a = Some ra" and l: "l \<in> set (ps_listeners (w_pubsub w) k)"
  shows "rm_game_message_sub ra = Some (k, ls_id l) \<Longrightarrow> ls_handler l = GameMessage a"
    "rm_player_left_sub ra = Some (k, ls_id l) \<Longrightarrow> ls_handler l = PlayerLeft a"
proof -
  have s: "well E w" and at: "attached E w" using w by (simp_all add: lobby_ok_def)
  obtain g where g: "ps_listeners (w_pubsub w) (rm_id ra) = [g]" "ls_handler g = GameMessage a"
    using room_listener [OF E w r] by (cases "ps_listeners (w_pubsub w) (rm_id ra)") auto
  have gs: "rm_game_message_sub ra = Some (rm_id ra, ls_id g)"
    using well_listener(1) [OF s, of g "rm_id ra"] g r by (simp add: listener_ok_def)
  obtain p where p: "p \<in> set (ps_listeners (w_pubsub w) PLAYER_LEFT)" "ls_handler p = PlayerLeft a"
    using at r unfolding attached_def by fastforce
  have ps: "rm_player_left_sub ra = Some (PLAYER_LEFT, ls_id p)"
    using well_listener(1) [OF s p(1)] p(2) r by (simp add: listener_ok_def)
  show "ls_handler l = GameMessage a" if "rm_game_message_sub ra = Some (k, ls_id l)"
    using that gs g l by auto
  show "ls_handler l = PlayerLeft a" if "rm_player_left_sub ra = Some (k, ls_id l)"
  proof -
    have k: "k = PLAYER_LEFT" "ls_id l = ls_id p" using that ps by auto
    have "l = p" using well_listener(2) [OF s, of PLAYER_LEFT] l p(1) k by (auto simp: distinct_map dest: inj_onD)
    with p(2) show ?thesis by simp
  qed
qed

lemma find_room_cong:
  "mem_get (w_now u) (w_storage u) (room_key i) = mem_get (w_now w) (w_storage w) (room_key i) \<Longrightarrow>
    find_room_by_id (sops u) J (w_storage u) i = find_room_by_id (sops w) J (w_storage w) i \<and> not_stored i u = not_stored i w"
  by (simp add: find_room_by_id_def mem_ops_def not_stored_def)

lemma lobby_ok_other [simp]:
  "lobby_ok E (w\<lparr>w_connections := cs\<rparr>) = lobby_ok E w" "lobby_ok E (w\<lparr>w_frames := fs\<rparr>) = lobby_ok E w"
  by (simp_all add: lobby_ok_def attached_def not_stored_def in_phase_def hooks_called_def phase_of_def cong: if_cong)

lemma lobby_of_other [simp]: "lobby_of (w\<lparr>w_frames := fs\<rparr>) = lobby_of w"
  by (rule ext) (simp add: lobby_of_def split: option.split)

subsection \<open>A departure\<close>

text \<open>One room is gone, or has members less: the rest of the server is as it was.\<close>

lemma lobby_shrink:
  assumes tame: "tame_env E" and w: "lobby_ok E w" and r: "w_rooms w a = Some ra" and s': "well E w'" and sp: "spares a ra w w'"
    and same: "\<And>c. c \<noteq> a \<Longrightarrow> w_rooms w' c = w_rooms w c"
    and kept: "\<And>r'. w_rooms w' a = Some r' \<Longrightarrow> rm_id r' = rm_id ra \<and> \<not> rm_disposing r'"
    and fate: "if w_rooms w' a = None then gone a (rm_id ra) w' else w_pubsub w' = w_pubsub w \<and> w_storage w' = w_storage w"
    and log: "w_log w' = w_log w @ map (Pair a) hs" "hook_run Open hs = Some (if w_rooms w' a = None then Ended else Open)"
  shows "lobby_ok E w'"
proof -
  have s: "well E w" and at: "attached E w" using w by (simp_all add: lobby_ok_def)
  have "attached E w'"
    unfolding attached_def
  proof (intro conjI allI ballI impI)
    show "mem_good (w_storage w')" using sp by (simp add: spares_def)
    show "ls_handler l \<noteq> AdminInfo q" if "l \<in> set (ps_listeners (w_pubsub w') k)" for k l q
    proof -
      have "l \<in> set (ps_listeners (w_pubsub w) k)" using sp that unfolding spares_def fewer_def by blast
      then show ?thesis using at unfolding attached_def by blast
    qed
  next
    fix c r assume c: "w_rooms w' c = Some r"
    have stays: "l \<in> set (ps_listeners (w_pubsub w') k)"
      if "l \<in> set (ps_listeners (w_pubsub w) k)" "ls_handler l \<noteq> GameMessage a" "ls_handler l \<noteq> PlayerLeft a" for l k
      using sp that handle_owner [OF tame w r that(1)] unfolding spares_def spared_def by blast
    have "\<not> rm_disposing r \<and> GameMessage c \<in> ls_handler ` set (ps_listeners (w_pubsub w') (rm_id r)) \<and>
        PlayerLeft c \<in> ls_handler ` set (ps_listeners (w_pubsub w') PLAYER_LEFT)"
    proof (cases "c = a")
      case True
      then have "rm_id r = rm_id ra" "\<not> rm_disposing r" using kept c by simp_all
      moreover have "w_pubsub w' = w_pubsub w" using fate c True by simp
      ultimately show ?thesis using at r True unfolding attached_def by simp
    next
      case False
      then have "w_rooms w c = Some r" using same c by simp
      then have "\<not> rm_disposing r" "GameMessage c \<in> ls_handler ` set (ps_listeners (w_pubsub w) (rm_id r))"
        "PlayerLeft c \<in> ls_handler ` set (ps_listeners (w_pubsub w) PLAYER_LEFT)"
        using at unfolding attached_def by blast+
      then show ?thesis using stays False by fastforce
    qed
    then show "\<not> rm_disposing r" "GameMessage c \<in> ls_handler ` set (ps_listeners (w_pubsub w') (rm_id r))"
      "PlayerLeft c \<in> ls_handler ` set (ps_listeners (w_pubsub w') PLAYER_LEFT)" by blast+
  next
    fix i
    have old: "if map_of (w_managing w) i = None then not_stored i w
        else \<exists>snap. find_room_by_id (sops w) (e_json E) (w_storage w) i = Inr snap"
      using at unfolding attached_def by blast
    show "if map_of (w_managing w') i = None then not_stored i w'
        else \<exists>snap. find_room_by_id (sops w') (e_json E) (w_storage w') i = Inr snap"
    proof (cases "i = rm_id ra")
      case True
      have m: "map_of (w_managing w) i = Some a" using well_room(1) [OF s r] True by simp
      show ?thesis
      proof (cases "w_rooms w' a")
        case None
        with fate True show ?thesis by (simp add: gone_def)
      next
        case (Some r')
        then have "rm_id r' = i" "w_storage w' = w_storage w" "w_now w' = w_now w"
          using kept fate sp True Some by (simp_all add: spares_def)
        then show ?thesis using well_room(1) [OF s' Some] old m by (simp add: mem_ops_def)
      qed
    next
      case False
      have "map_of (w_managing w') i = map_of (w_managing w) i"
      proof (cases "map_of (w_managing w') i")
        case (Some c)
        then obtain r where c: "w_rooms w' c = Some r" "rm_id r = i" using well_managed(1) [OF s'] by blast
        then have "c \<noteq> a" using kept False by auto
        then show ?thesis using Some c same well_room(1) [OF s, of c r] by simp
      next
        case None
        show ?thesis
        proof (rule ccontr)
          assume "\<not> ?thesis"
          then obtain c where "map_of (w_managing w) i = Some c" using None by (cases "map_of (w_managing w) i") simp_all
          then obtain r where c: "w_rooms w c = Some r" "rm_id r = i" using well_managed(1) [OF s] by blast
          then have "c \<noteq> a" using r False by auto
          then show False using well_room(1) [OF s', of c r] c same None by simp
        qed
      qed
      moreover have "mem_get (w_now w') (w_storage w') (room_key i) = mem_get (w_now w) (w_storage w) (room_key i)"
        using sp False by (simp add: spares_def)
      ultimately show ?thesis using old find_room_cong [of w' i w "e_json E"] by simp
    qed
  qed
  moreover have "in_phase w'"
  proof -
    have ph: "in_phase w" using w by (simp add: lobby_ok_def)
    have count: "w_next_room w' = w_next_room w" using sp by (simp add: spares_def)
    then have others: "phase_of b w' = phase_of b w" if "b \<noteq> a" for b using same [OF that] by (simp add: phase_of_def)
    have a: "phase_of a w = Open" "phase_of a w' = (if w_rooms w' a = None then Ended else Open)"
      using well_room(3) [OF s r] r count by (simp_all add: phase_of_def)
    from log a show ?thesis using in_phase_step [OF ph _ others] by simp
  qed
  ultimately show ?thesis using s' by (simp add: lobby_ok_def)
qed

lemma lobby_remove:
  assumes E: "quiet_env E" and w: "lobby_ok E w" and r: "w_rooms w a = Some ra"
  shows "\<exists>w'. remove_client E (Suc (Suc (Suc (Suc m)))) a sid b w = (Normal, w') \<and> lobby_ok E w' \<and>
    departed sid ra (w_rooms w' a) \<and> (\<forall>c. c \<noteq> a \<longrightarrow> w_rooms w' c = w_rooms w c) \<and> w_registered w' = w_registered w \<and>
    w_connections w' = w_connections w \<and> steady w w'"
proof -
  let ?n = "Suc (Suc (Suc (Suc m)))"
  note tame = quiet_envD(1) [OF E]
  have s: "well E w" and at: "attached E w" using w by (simp_all add: lobby_ok_def)
  have wired: "wired a ra w" by (rule sound_wired [OF s r]) simp
  have sr: "sound_room E a ra w"
    using r at wired quiet_envD(2) [OF E] by (simp add: sound_room_def attached_def)
  obtain w' where w': "remove_client E ?n a sid b w = (Normal, w')" "departed sid ra (w_rooms w' a)"
    and fate: "if w_rooms w' a = None
      then gone a (rm_id ra) w' \<and> w_log w' = w_log w @ [(a, OnLeave), (a, BeforeDispose), (a, OnDispose)]
      else w_pubsub w' = w_pubsub w \<and> w_storage w' = w_storage w \<and> w_sched w' = w_sched w \<and> w_log w' \<in> {w_log w, w_log w @ [(a, OnLeave)]}"
    using depart_one [OF sr, of ?n sid b] by auto
  have same: "w_rooms w' c = w_rooms w c" if "c \<noteq> a" for c
    using remove_keeps_room(1) [OF sr that, of ?n sid b] w'(1) by simp
  have "sound E {} {} {a} w" using s r by (simp add: sound_def)
  from endsD(2) [OF remove_client_safe [OF tame, of a "{}" "{}" m sid b] this] have s': "well E w'"
    using w'(1) by simp
  have "keeps (spares a ra w) (remove_client (mute E) ?n a sid b)"
    by (rule room_ops_keep(3) [OF spares_closed])
  then have k: "keeps (spares a ra w) (remove_client E ?n a sid b)"
    using mute_ops [of E, OF quiet_envD(2) [OF E]] by simp
  have "spares a ra w w" using at r wired by (simp add: spares_def fewer_def spared_def attached_def wired_def)
  from keepsD [OF k this] have sp: "spares a ra w w'" using w'(1) by simp
  have "keeps (spares_time a ra w) (remove_client (mute E) ?n a sid b)"
    by (rule room_ops_keep(3) [OF spares_time_closed])
  then have kt: "keeps (spares_time a ra w) (remove_client E ?n a sid b)"
    using mute_ops [of E, OF quiet_envD(2) [OF E]] by simp
  have "spares_time a ra w w" using r wired by (simp add: spares_time_def wired_def)
  from keepsD [OF kt this] have st: "spares_time a ra w w'" using w'(1) by simp
  have "w_now w' = w_now w" using sp by (simp add: spares_def)
  then have steady: "steady w w'"
    by (rule steady_spares [OF s r st _ same]) (use fate in \<open>auto split: if_splits\<close>)
  have log: "\<exists>hs. w_log w' = w_log w @ map (Pair a) hs \<and> hook_run Open hs = Some (if w_rooms w' a = None then Ended else Open)"
  proof (cases "w_rooms w' a = None")
    case True
    then show ?thesis using fate by (intro exI [of _ "[OnLeave, BeforeDispose, OnDispose]"]) simp
  next
    case False
    then have "w_log w' = w_log w \<or> w_log w' = w_log w @ [(a, OnLeave)]" using fate by (auto split: if_splits)
    then show ?thesis using exI [of _ "[]"] exI [of _ "[OnLeave]"] False by fastforce
  qed
  then obtain hs where hs: "w_log w' = w_log w @ map (Pair a) hs" "hook_run Open hs = Some (if w_rooms w' a = None then Ended else Open)" by blast
  have "lobby_ok E w'"
    by (rule lobby_shrink [OF tame w r s' sp same _ _ hs]) (use w'(2) fate in \<open>auto simp: departed_def split: if_splits\<close>)
  moreover have "w_registered w' = w_registered w" using sp by (simp add: spares_def)
  moreover have "w_connections w' = w_connections w"
    using remove_keeps_room(2) [OF sr, of "Suc a" ?n sid b] w'(1) by simp
  ultimately show ?thesis using w' same steady by blast
qed


lemma lobby_tell:
  assumes E: "quiet_env E"
  shows "lobby_ok E w \<Longrightarrow> distinct as \<Longrightarrow> set as \<subseteq> dom (w_rooms w) \<Longrightarrow>
    \<exists>w'. seqs (\<lambda>a. remove_client E (Suc (Suc (Suc (Suc m)))) a sid b) as w = (Normal, w') \<and> lobby_ok E w' \<and>
      (\<forall>a \<in> set as. departed sid (the (w_rooms w a)) (w_rooms w' a)) \<and>
      (\<forall>c. c \<notin> set as \<longrightarrow> w_rooms w' c = w_rooms w c) \<and> w_registered w' = w_registered w \<and> w_connections w' = w_connections w \<and>
      steady w w'"
proof (induction as arbitrary: w)
  case Nil
  then show ?case by (simp add: skip_def)
next
  case (Cons a as)
  then obtain r where r: "w_rooms w a = Some r" by auto
  obtain u where u: "remove_client E (Suc (Suc (Suc (Suc m)))) a sid b w = (Normal, u)" "lobby_ok E u"
      "departed sid r (w_rooms u a)" "\<forall>c. c \<noteq> a \<longrightarrow> w_rooms u c = w_rooms w c" "w_registered u = w_registered w"
      "w_connections u = w_connections w" "steady w u"
    using lobby_remove [OF E Cons.prems(1) r] by blast
  have sub: "set as \<subseteq> dom (w_rooms u)"
  proof
    fix x assume "x \<in> set as"
    then have "x \<noteq> a" "x \<in> dom (w_rooms w)" using Cons.prems by auto
    then show "x \<in> dom (w_rooms u)" using u(4) by (simp add: domIff)
  qed
  obtain w' where w': "seqs (\<lambda>a. remove_client E (Suc (Suc (Suc (Suc m)))) a sid b) as u = (Normal, w')" "lobby_ok E w'"
      "\<forall>a \<in> set as. departed sid (the (w_rooms u a)) (w_rooms w' a)" "\<forall>c. c \<notin> set as \<longrightarrow> w_rooms w' c = w_rooms u c"
      "w_registered w' = w_registered u" "w_connections w' = w_connections u" "steady u w'"
    using Cons.IH [OF u(2) _ sub] Cons.prems(2) by auto
  have "departed sid (the (w_rooms w c)) (w_rooms w' c)" if "c \<in> set (a # as)" for c
    using that w'(3,4) u(3,4) r Cons.prems(2) by (cases "c = a") auto
  moreover have "w_rooms w' c = w_rooms w c" if "c \<notin> set (a # as)" for c using that w'(4) u(4) by simp
  ultimately show ?case using u(1,5,6) w'(1,2,5,6) steady_trans [OF u(7) w'(7)] by auto
qed

lemma departed_entry:
  assumes "departed sid r (Some r')"
  shows "rm_id r' = rm_id r" "rm_type r' = rm_type r" "rm_clients r' = erase_session sid (rm_clients r)"
    "\<not> (find_session sid (rm_clients r) \<noteq> None \<and> erase_session sid (rm_clients r) = [])"
  using assms by (auto simp: departed_def split: if_splits)

lemma lobby_lose:
  assumes E: "quiet_env E" and w: "lobby_ok E w" and n: "4 \<le> n"
  shows "\<exists>w'. handle_client_disconnect E n d sid w = (Normal, w') \<and> lobby_ok E w' \<and>
    lobby_of w' = lobby_next types i (Lose sid) (lobby_of w) \<and> w_registered w' = w_registered w \<and>
    map_of (w_connections w') sid = None \<and> steady w w'"
proof -
  obtain m where m: "n = Suc (Suc (Suc (Suc m)))" using sucs(2) [OF n] by blast
  let ?w = "w\<lparr>w_connections := AList.delete sid (w_connections w)\<rparr>"
  have w0: "lobby_ok E ?w" using w by simp
  obtain as where as: "map ls_handler (ps_listeners (w_pubsub w) PLAYER_LEFT) = map PlayerLeft as" "distinct as"
      "set as = dom (w_rooms w)"
    by (rule departure_listeners [OF quiet_envD(1) [OF E] w])
  obtain w' where w': "seqs (\<lambda>a. remove_client E n a sid False) as ?w = (Normal, w')" "lobby_ok E w'"
      "\<forall>a \<in> set as. departed sid (the (w_rooms w a)) (w_rooms w' a)" "\<forall>c. c \<notin> set as \<longrightarrow> w_rooms w' c = w_rooms w c"
      "w_registered w' = w_registered w" "w_connections w' = AList.delete sid (w_connections w)" "steady ?w w'"
    using lobby_tell [OF E w0 as(2), of m sid False] as(3) by (auto simp: m)
  have loop: "seqs (\<lambda>l. invoke E n d (ls_handler l) (JString sid)) ls =
      seqs (\<lambda>a. remove_client E n a sid False) as" if "map ls_handler ls = map PlayerLeft as" for ls as
    using that by (induction ls arbitrary: as) auto
  have run: "handle_client_disconnect E n d sid w = (Normal, w')"
    using loop [OF as(1)] w'(1) by (simp add: handle_client_disconnect_def publish_def ps_publish_seqs)
  have s: "well E w" and s': "well E w'" using w w'(2) by (simp_all add: lobby_ok_def)
  have "lobby_of w' = lobby_next types i (Lose sid) (lobby_of w)"
  proof (rule lobby_eqI [OF s'])
    fix b r assume r: "w_rooms w' b = Some r"
    then have "b \<in> set as" using w'(4) as(3) by (metis domI domIff)
    then obtain q where q: "w_rooms w b = Some q" "departed sid q (Some r)" using w'(3) as(3) r by force
    note f = departed_entry [OF q(2)]
    show "lobby_next types i (Lose sid) (lobby_of w) (rm_id r) = Some (rm_type r, rm_clients r)"
      using lobby_room [OF s q(1)] f by simp
  next
    fix j x assume x: "lobby_next types i (Lose sid) (lobby_of w) j = Some x"
    then obtain y where "lobby_of w j = Some y" by (auto split: option.splits)
    then obtain b r where r: "w_rooms w b = Some r" "rm_id r = j" "y = (rm_type r, rm_clients r)"
      "lobby_of w j = Some (rm_type r, rm_clients r)"
      using lobby_entry [OF s] by metis
    have "departed sid r (w_rooms w' b)" using w'(3) as(3) r(1) by force
    then show "\<exists>b r. w_rooms w' b = Some r \<and> rm_id r = j"
      using x r by (auto simp: departed_def split: if_splits)
  qed
  moreover have "map_of (w_connections w') sid = None" using w'(6) by simp
  moreover have "steady w w'" using w'(7) by (simp add: steady_def)
  ultimately show ?thesis using run w'(2,5) by blast
qed


subsection \<open>Entering and speaking\<close>

text \<open>A change of room objects that keeps their identifiers and handles nothing else.\<close>

lemma attached_rooms:
  assumes "attached E w" "w_storage w' = w_storage w" "w_pubsub w' = w_pubsub w" "w_managing w' = w_managing w" "w_now w' = w_now w"
    and "\<And>b r'. w_rooms w' b = Some r' \<Longrightarrow> \<exists>r. w_rooms w b = Some r \<and> rm_id r' = rm_id r \<and> rm_disposing r' = rm_disposing r"
  shows "attached E w'"
proof -
  have "not_stored i w' = not_stored i w" "find_room_by_id (sops w') J (w_storage w') i = find_room_by_id (sops w) J (w_storage w) i" for i J
    using assms(2,5) by (simp_all add: not_stored_def find_room_by_id_def)
  with assms(1-4) assms(6) show ?thesis unfolding attached_def by (metis (no_types, lifting))
qed

lemma message_safe:
  assumes "quiet_env E" "client_ok E c" "4 \<le> n" "2 \<le> d" "well E w"
  shows "well E (snd (handle_client_message E n d c ev data w))"
proof -
  obtain m e where "n = Suc (Suc (Suc (Suc m)))" "d = Suc (Suc e)" using sucs(2,3) assms(3,4) by blast
  then show ?thesis using safeD(2) [OF client_message_safe [OF quiet_envD(1) [OF assms(1)] assms(2)] assms(5)] by simp
qed

lemma send_frame_result:
  "\<exists>fs. send_frame_to_client sid ev data w = (Normal, w\<lparr>w_frames := fs\<rparr>)"
proof -
  have same: "w\<lparr>w_frames := w_frames w\<rparr> = w" by simp
  show ?thesis
    by (cases "map_of (w_connections w) sid")
      (auto simp: send_frame_to_client_def reading_def effect_def skip_def intro: exI [of _ "w_frames w"])
qed

text \<open>An identifier without a room has neither a snapshot nor listeners.\<close>

lemma no_room:
  assumes E: "tame_env E" and w: "lobby_ok E w" and i: "lobby_of w i = None"
  shows "map_of (w_managing w) i = None" "not_stored i w" "i \<noteq> PLAYER_LEFT \<Longrightarrow> ps_listeners (w_pubsub w) i = []"
proof -
  have s: "well E w" and at: "attached E w" using w by (simp_all add: lobby_ok_def)
  show m: "map_of (w_managing w) i = None"
  proof (cases "map_of (w_managing w) i")
    case (Some b)
    with well_managed(1) [OF s Some] i show ?thesis by (auto simp: lobby_of_def)
  qed simp
  then show "not_stored i w" using at unfolding attached_def by (metis (no_types, lifting))
  show "ps_listeners (w_pubsub w) i = []" if "i \<noteq> PLAYER_LEFT"
  proof (rule ccontr)
    assume "\<not> ?thesis"
    then obtain l where l: "l \<in> set (ps_listeners (w_pubsub w) i)" by fastforce
    have ok: "listener_ok {} (w_rooms w) i l" by (rule well_listener(1) [OF s l])
    show False
    proof (cases "ls_handler l")
      case (GameMessage b)
      with ok obtain r where "w_rooms w b = Some r" "rm_id r = i"
        by (cases "w_rooms w b") (simp_all add: listener_ok_def)
      with well_room(1) [OF s] m show False by fastforce
    next
      case (PlayerLeft b)
      with ok that show False by (simp add: listener_ok_def)
    next
      case (AdminInfo q)
      with at l show False by (simp add: attached_def)
    qed
  qed
qed

lemma lobby_enter:
  assumes E: "quiet_env E" and w: "lobby_ok E w" and n: "4 \<le> n" "2 \<le> d" and c: "client_ok E c"
  shows "\<exists>w'. serve_event E n d (Enter c i opts) w = (Normal, w') \<and> lobby_ok E w' \<and>
    lobby_of w' = lobby_next types f (Enter c i opts) (lobby_of w) \<and> w_registered w' = w_registered w \<and> steady w w'"
proof -
  have s: "well E w" and at: "attached E w" using w by (simp_all add: lobby_ok_def)
  note tame = quiet_envD(1) [OF E]
  obtain e where d: "d = Suc e" using n(2) by (cases d) auto
  let ?data = "jobj [(''roomId'', JString i), (''options'', opts)]"
  note safe = message_safe [OF E c n s, of joinRoom ?data]
  show ?thesis
  proof (cases "lobby_of w i")
    case None
    have f: "find_room_by_id (sops w) (e_json E) (w_storage w) i = Inl (RuntimeError (room_key i @ '' - No data received''))"
      using no_room(2) [OF tame w None] by (simp add: find_room_by_id_def not_stored_def mem_ops_def)
    have fields: "is_object ?data" "jvalue get_string ''roomId'' [] ?data = Inr i" by (simp_all add: json_access)
    obtain fs where fs: "error_frame E c i (RuntimeError (room_key i @ '' - No data received'')) w = (Normal, w\<lparr>w_frames := fs\<rparr>)"
      unfolding error_frame_def using send_frame_result by blast
    have "\<exists>fs. serve_event E n d (Enter c i opts) w = (Normal, w\<lparr>w_frames := fs\<rparr>)"
    proof (cases "i = []")
      case True
      then show ?thesis using fields by (auto simp: handle_client_message_def joinRoom_def createNewRoom_def handle_join_def
          skip_def intro: exI [of _ "w_frames w"])
    next
      case False
      then show ?thesis using fields f fs by (auto simp: handle_client_message_def joinRoom_def createNewRoom_def handle_join_def
          catch_std_def reading_def seq_def throw_def)
    qed
    with w None show ?thesis by auto
  next
    case (Some x)
    then obtain a r where r: "w_rooms w a = Some r" "rm_id r = i" "map_of (w_managing w) i = Some a" "x = (rm_type r, rm_clients r)"
      by (rule lobby_entry [OF s])
    have i: "i \<noteq> []" using well_room(2) [OF s r(1)] r(2) quiet_envD(6) [OF E] by (metis rangeE)
    obtain snap where snap: "find_room_by_id (sops w) (e_json E) (w_storage w) i = Inr snap"
      using at r(3) unfolding attached_def by (metis (no_types, lifting) option.distinct(1))
    have ls: "map ls_handler (ps_listeners (w_pubsub w) i) = [GameMessage a]" using room_listener [OF tame w r(1)] r(2) by simp
    have un: "\<forall>f \<in> ce_callback ` set (cb_entries (rm_join_listeners r)). unrelated (sc_id c) f" by (rule well_room(4) [OF s r(1)])
    obtain w' r' where w': "handle_client_message E n (Suc e) c joinRoom ?data w = (Normal, w')"
        "w_rooms w' a = Some r'" "rm_clients r' = rm_clients r @ [c]" "rm_id r' = rm_id r" "rm_type r' = rm_type r"
        "rm_disposing r' = rm_disposing r" "only_room a w w'" "w_log w' = w_log w @ [(a, CanClientJoin), (a, OnJoin)]"
      by (rule join_message_run [OF snap i ls r(1) quiet_envD(3) [OF E] un, of n e opts])
    have s': "well E w'" using safe w'(1) by (simp add: d)
    have "\<exists>q. w_rooms w b = Some q \<and> rm_id q' = rm_id q \<and> rm_disposing q' = rm_disposing q" if "w_rooms w' b = Some q'" for b q'
      using that w' r(1) by (cases "b = a") (auto simp: only_room_def)
    note rooms = this
    have "steady w w'"
      by (rule steady_rooms) (use w'(7) rooms in \<open>simp_all add: only_room_def, blast\<close>)
    moreover have "attached E w'" using attached_rooms [OF at, of w'] w'(7) rooms by (simp add: only_room_def)
    moreover have "lobby_of w' = lobby_next types f (Enter c i opts) (lobby_of w)"
    proof (rule lobby_eqI [OF s'])
      fix b q assume q: "w_rooms w' b = Some q"
      show "lobby_next types f (Enter c i opts) (lobby_of w) (rm_id q) = Some (rm_type q, rm_clients q)"
      proof (cases "b = a")
        case True
        with q w' r Some show ?thesis by simp
      next
        case False
        then have "w_rooms w b = Some q" using q w'(7) by (simp add: only_room_def)
        moreover from this have "rm_id q \<noteq> i" using well_room(1) [OF s] r(3) False by fastforce
        ultimately show ?thesis using lobby_room [OF s] Some r(4) by simp
      qed
    next
      fix j y assume y: "lobby_next types f (Enter c i opts) (lobby_of w) j = Some y"
      show "\<exists>b q. w_rooms w' b = Some q \<and> rm_id q = j"
      proof (cases "j = i")
        case True
        with w'(2,4) r(2) show ?thesis by blast
      next
        case False
        then have "lobby_of w j = Some y" using y Some r(4) by simp
        then obtain b q where q: "w_rooms w b = Some q" "rm_id q = j" by (rule lobby_entry [OF s])
        then have "b \<noteq> a" using r(1,2) False by auto
        then have "w_rooms w' b = Some q" using w'(7) q(1) by (simp add: only_room_def)
        with q(2) show ?thesis by blast
      qed
    qed
    moreover have "in_phase w'"
    proof (rule in_phase_step [of w w' a "[CanClientJoin, OnJoin]"])
      show "phase_of b w' = phase_of b w" if "b \<noteq> a" for b using w'(7) that by (simp add: only_room_def phase_of_def)
      show "hook_run (phase_of a w) [CanClientJoin, OnJoin] = Some (phase_of a w')"
        using well_room(3) [OF s r(1)] r(1) w'(2,7) by (simp add: only_room_def phase_of_def)
    qed (use w w'(8) in \<open>simp_all add: lobby_ok_def\<close>)
    ultimately show ?thesis using s' w'(1,7) by (auto simp: lobby_ok_def d only_room_def)
  qed
qed


lemma lobby_say:
  assumes E: "quiet_env E" and w: "lobby_ok E w" and n: "4 \<le> n" "2 \<le> d" and c: "client_ok E c" and i: "i \<noteq> PLAYER_LEFT"
  shows "\<exists>w'. serve_event E n d (Say c i key v) w = (Normal, w') \<and> lobby_ok E w' \<and>
    lobby_of w' = lobby_of w \<and> w_registered w' = w_registered w \<and> steady w w'"
proof -
  have s: "well E w" and at: "attached E w" using w by (simp_all add: lobby_ok_def)
  note tame = quiet_envD(1) [OF E]
  obtain e where d: "d = Suc e" using n(2) by (cases d) auto
  let ?data = "jobj [(''room'', JString i), (''key'', JString key), (''data'', v)]"
  note safe = message_safe [OF E c n s, of sendMessage ?data]
  show ?thesis
  proof (cases "lobby_of w i")
    case None
    have "serve_event E n d (Say c i key v) w = (Normal, w)"
      using no_room(3) [OF tame w None i]
      by (simp add: send_fields Let_def handle_client_message_def joinRoom_def createNewRoom_def sendMessage_def handle_send_def
          publish_def ps_publish_seqs skip_def)
    with w show ?thesis by (intro exI [of _ w]) (simp del: serve_event.simps)
  next
    case (Some x)
    then obtain a r where r: "w_rooms w a = Some r" "rm_id r = i"
      by (rule lobby_entry [OF s])
    have i: "i \<noteq> []" using well_room(2) [OF s r(1)] r(2) quiet_envD(6) [OF E] by (metis rangeE)
    have ls: "map ls_handler (ps_listeners (w_pubsub w) i) = [GameMessage a]" using room_listener [OF tame w r(1)] r(2) by simp
    note run = message_needs_membership [OF ls i r(1), of E n e c key v]
    show ?thesis
    proof (cases "find_session (sc_session_id c) (rm_clients r)")
      case None
      with run w show ?thesis by (auto simp: d)
    next
      case (Some m)
      let ?w = "w\<lparr>w_log := w_log w @ [(a, OnMessage)]\<rparr>"
      have "w_rooms ?w a = Some r" using r(1) by simp
      from quietlyD [OF quietly_run_prog [OF quiet_envD(5) [OF E, of "rm_type r" m key v]] this, of E n] obtain w' where
        w': "run_prog E n a (hk_message (hooks_of E r) m key v) ?w = (Normal, w')" "soft a ?w w'"
        by (auto simp: tacit_def)
      obtain r' where r': "w_rooms w' a = Some r'" "same_membership r r'"
        using soft_room [OF w'(2), of r] r(1) by auto
      have f: "rm_clients r' = rm_clients r" "rm_id r' = rm_id r" "rm_type r' = rm_type r" "rm_disposing r' = rm_disposing r"
        using r'(2) by (simp_all add: same_membership_def mild_def)
      have other: "w_rooms w' b = w_rooms w b" if "b \<noteq> a" for b using soft_other [OF w'(2) that] by simp
      note soft = soft_fields [OF w'(2), simplified]
      have "\<exists>q. w_rooms w b = Some q \<and> rm_id q' = rm_id q \<and> rm_disposing q' = rm_disposing q" if "w_rooms w' b = Some q'" for b q'
        using that r(1) r'(1) f other by (cases "b = a") auto
      note rooms = this
      have "steady w w'"
        by (rule steady_rooms [OF soft(6,3,1)]) (use rooms in blast)
      moreover have "attached E w'" using attached_rooms [OF at, of w'] soft rooms by simp
      moreover have "well E w'" using safe run Some w'(1) by (simp add: d)
      moreover have "lobby_of w' = lobby_of w"
      proof
        fix j
        show "lobby_of w' j = lobby_of w j"
        proof (cases "map_of (w_managing w) j")
          case (Some b)
          then show ?thesis using r(1) r'(1) f(1,3) other [of b] soft(4) by (cases "b = a") (simp_all add: lobby_of_def)
        qed (simp add: lobby_of_def soft(4))
      qed
      moreover have "in_phase w'"
      proof (rule in_phase_step [of w w' a "[OnMessage]"])
        show "phase_of b w' = phase_of b w" if "b \<noteq> a" for b using other [OF that] soft(10) by (simp add: phase_of_def)
        show "hook_run (phase_of a w) [OnMessage] = Some (phase_of a w')"
          using well_room(3) [OF s r(1)] r(1) r'(1) soft(10) by (simp add: phase_of_def)
      qed (use w soft(5) in \<open>simp_all add: lobby_ok_def\<close>)
      ultimately show ?thesis using run Some w'(1) soft by (auto simp: d lobby_ok_def)
    qed
  qed
qed


subsection \<open>Making a room\<close>

lemma create_fields:
  fixes name opts uid
  defines "data \<equiv> jobj [(''type'', JString name), (''options'', opts), (''uniqueRequestId'', JString uid)]"
  shows "is_object data" "jvalue get_string ''uniqueRequestId'' [] data = Inr uid"
    "jvalue get_string ''type'' [] data = Inr name" "jvalue get_json ''options'' empty_object data = Inr opts"
  by (simp_all add: data_def json_access)

text \<open>The next room address and the next identifier are new.\<close>

lemma next_unknown:
  assumes "well E w"
  shows "unknown (w_next_room w) w" "w_rooms w (w_next_room w) = None"
proof -
  have ok: "timers_ok {} (w_rooms w) (w_next_room w) (w_sched w)" using assms by (simp add: sound_def server_ok_def)
  show none: "w_rooms w (w_next_room w) = None"
    using well_room(3) [OF assms] by (cases "w_rooms w (w_next_room w)") auto
  have "ls_handler l \<noteq> GameMessage (w_next_room w) \<and> ls_handler l \<noteq> PlayerLeft (w_next_room w)"
    if "l \<in> set (ps_listeners (w_pubsub w) k)" for k l
    using well_listener(1) [OF assms that] none by (auto simp: listener_ok_def)
  moreover have "tk_callback t \<noteq> AutoDispose (w_next_room w)" if "t \<in> set (sc_tasks (w_sched w))" for t
    using ok that by (force simp: timers_ok_def timer_ok_def)
  ultimately show "unknown (w_next_room w) w" by (simp add: unknown_def no_handler_def)
qed

lemma stored_iff: "mem_good (w_storage w) \<Longrightarrow> i \<in> set (stored_ids w) \<longleftrightarrow> \<not> not_stored i w"
  by (simp add: get_list_of_rooms_def mem_ops_def fetch_keys_set not_stored_def room_key_def)

lemma next_id_unused:
  assumes E: "quiet_env E" and w: "lobby_ok E w"
  shows "map_of (w_managing w) (e_rid E (w_ids w)) = None" "lobby_of w (e_rid E (w_ids w)) = None"
    "e_rid E (w_ids w) \<notin> set (stored_ids w)"
proof -
  have s: "well E w" and at: "attached E w" using w by (simp_all add: lobby_ok_def)
  have "e_rid E (w_ids w) \<notin> drawn E (w_ids w)"
    using quiet_envD(1) [OF E] by (auto simp: tame_env_def drawn_def inj_def)
  then show m: "map_of (w_managing w) (e_rid E (w_ids w)) = None"
    using well_managed(2) [OF s] by (metis option.exhaust)
  then show "lobby_of w (e_rid E (w_ids w)) = None" by (simp add: lobby_of_def)
  have "not_stored (e_rid E (w_ids w)) w" using at m unfolding attached_def by (metis (no_types, lifting))
  then show "e_rid E (w_ids w) \<notin> set (stored_ids w)"
    using at stored_iff unfolding attached_def by blast
qed

lemma created_attached:
  assumes w: "lobby_ok E w" and s': "well E w'" and c: "created E (w_next_room w) i name client w w'"
  shows "attached E w'" "lobby_of w' = (lobby_of w)(i \<mapsto> (name, []))"
proof -
  let ?a = "w_next_room w"
  have s: "well E w" and at: "attached E w" using w by (simp_all add: lobby_ok_def)
  note none = next_unknown(2) [OF s]
  obtain r where r: "w_rooms w' ?a = Some r" "rm_id r = i" "rm_type r = name" "rm_clients r = []" "\<not> rm_disposing r"
    using c unfolding created_def by blast
  have other: "w_rooms w' b = w_rooms w b" if "b \<noteq> ?a" for b using c that unfolding created_def by blast
  have i: "map_of (w_managing w') i = Some ?a" using well_room(1) [OF s' r(1)] r(2) by simp
  have handlers: "ls_handler ` set (ps_listeners (w_pubsub w') k) = ls_handler ` set (ps_listeners (w_pubsub w) k) \<union>
      (if k = i then {GameMessage ?a} else {}) \<union> (if k = PLAYER_LEFT then {PlayerLeft ?a} else {})" for k
  proof -
    have "map ls_handler (ps_listeners (w_pubsub w') k) = map ls_handler (ps_listeners (w_pubsub w) k) @
       (if k = i then [GameMessage ?a] else []) @ (if k = PLAYER_LEFT then [PlayerLeft ?a] else [])"
      using c unfolding created_def by blast
    from arg_cong [OF this, of set] show ?thesis by auto
  qed
  have managing: "map_of (w_managing w') j = map_of (w_managing w) j" if j: "j \<noteq> i" for j
  proof (cases "map_of (w_managing w') j")
    case (Some b)
    then obtain q where q: "w_rooms w' b = Some q" "rm_id q = j" using well_managed(1) [OF s'] by blast
    then have "b \<noteq> ?a" using r j by auto
    then show ?thesis using Some q other well_room(1) [OF s, of b q] by simp
  next
    case None
    show ?thesis
    proof (cases "map_of (w_managing w) j")
      case (Some b)
      then obtain q where q: "w_rooms w b = Some q" "rm_id q = j" using well_managed(1) [OF s] by blast
      then have "b \<noteq> ?a" using none by auto
      then show ?thesis using well_room(1) [OF s', of b q] q other None by simp
    qed (simp add: None)
  qed
  show "attached E w'"
    unfolding attached_def
  proof (intro conjI allI ballI impI)
    show g': "mem_good (w_storage w')" using c unfolding created_def by blast
    show "ls_handler l \<noteq> AdminInfo q" if "l \<in> set (ps_listeners (w_pubsub w') k)" for k l q
    proof -
      have new: "ls_handler l \<in> ls_handler ` set (ps_listeners (w_pubsub w') k)" using that by blast
      have "ls_handler m \<noteq> AdminInfo q" if "m \<in> set (ps_listeners (w_pubsub w) k)" for m
        using at that unfolding attached_def by blast
      then have "AdminInfo q \<notin> ls_handler ` set (ps_listeners (w_pubsub w) k)" by (metis imageE)
      then have "AdminInfo q \<notin> ls_handler ` set (ps_listeners (w_pubsub w') k)" by (simp add: handlers)
      with new show ?thesis by metis
    qed
    fix b q assume b: "w_rooms w' b = Some q"
    have "\<not> rm_disposing q \<and> GameMessage b \<in> ls_handler ` set (ps_listeners (w_pubsub w') (rm_id q)) \<and>
        PlayerLeft b \<in> ls_handler ` set (ps_listeners (w_pubsub w') PLAYER_LEFT)"
    proof (cases "b = ?a")
      case True
      with b r show ?thesis by (simp add: handlers)
    next
      case False
      then have "w_rooms w b = Some q" using b other by simp
      then have "\<not> rm_disposing q \<and> GameMessage b \<in> ls_handler ` set (ps_listeners (w_pubsub w) (rm_id q)) \<and>
          PlayerLeft b \<in> ls_handler ` set (ps_listeners (w_pubsub w) PLAYER_LEFT)"
        using at unfolding attached_def by blast
      then show ?thesis unfolding handlers by blast
    qed
    then show "\<not> rm_disposing q" "GameMessage b \<in> ls_handler ` set (ps_listeners (w_pubsub w') (rm_id q))"
      "PlayerLeft b \<in> ls_handler ` set (ps_listeners (w_pubsub w') PLAYER_LEFT)" by blast+
  next
    fix j
    show "if map_of (w_managing w') j = None then not_stored j w'
        else \<exists>snap. find_room_by_id (sops w') (e_json E) (w_storage w') j = Inr snap"
    proof (cases "j = i")
      case True
      then show ?thesis using i c unfolding created_def by auto
    next
      case False
      have old: "if map_of (w_managing w) j = None then not_stored j w
          else \<exists>snap. find_room_by_id (sops w) (e_json E) (w_storage w) j = Inr snap"
        using at unfolding attached_def by blast
      have g: "mem_good (w_storage w)" "mem_good (w_storage w')" using at c unfolding attached_def created_def by blast+
      have "set (stored_ids w') = insert i (set (stored_ids w))" using c unfolding created_def by blast
      then have "not_stored j w' = not_stored j w"
        using False stored_iff [OF g(1), of j] stored_iff [OF g(2), of j] by simp
      moreover have "find_room_by_id (sops w') (e_json E) (w_storage w') j = find_room_by_id (sops w) (e_json E) (w_storage w) j"
        using c False unfolding created_def by blast
      ultimately show ?thesis using old managing [OF False] by simp
    qed
  qed
  show "lobby_of w' = (lobby_of w)(i \<mapsto> (name, []))"
  proof
    fix j
    show "lobby_of w' j = ((lobby_of w)(i \<mapsto> (name, []))) j"
    proof (cases "j = i")
      case True
      with i r show ?thesis by (simp add: lobby_of_def)
    next
      case False
      have "w_rooms w' b = w_rooms w b" if b: "map_of (w_managing w) j = Some b" for b
      proof -
        obtain q where "w_rooms w b = Some q" using well_managed(1) [OF s b] by blast
        then have "b \<noteq> ?a" using none by auto
        then show ?thesis by (rule other)
      qed
      then show ?thesis using False managing [OF False]
        by (cases "map_of (w_managing w) j") (simp_all add: lobby_of_def)
    qed
  qed
qed


lemma lobby_make:
  assumes E: "quiet_env E" and w: "lobby_ok E w" and n: "4 \<le> n" "2 \<le> d" and c: "client_ok E c"
  shows "\<exists>w'. serve_event E n d (Make c uid name opts) w = (Normal, w') \<and> lobby_ok E w' \<and>
    lobby_of w' = lobby_next (fst ` set (w_registered w)) (e_rid E (w_ids w)) (Make c uid name opts) (lobby_of w) \<and>
    w_registered w' = w_registered w \<and>
    (steady w w' \<or> created E (w_next_room w) (e_rid E (w_ids w)) name c w w')"
proof -
  have s: "well E w" and at: "attached E w" using w by (simp_all add: lobby_ok_def)
  note tame = quiet_envD(1) [OF E]
  let ?data = "jobj [(''type'', JString name), (''options'', opts), (''uniqueRequestId'', JString uid)]"
  let ?i = "e_rid E (w_ids w)" and ?a = "w_next_room w"
  let ?k = "\<lambda>a. with_room a (\<lambda>r. send_frame_to_client (sc_session_id c) (uid @ ''-create'') (JString (rm_id r)))"
  note safe = message_safe [OF E c n s, of createNewRoom ?data]
  have run: "serve_event E n d (Make c uid name opts) w = (if name = [] \<or> uid = [] then (Normal, w)
      else catch_std (create_new_room E n c name opts [] ?k) (error_frame E c uid) w)"
    by (simp add: create_fields Let_def handle_client_message_def handle_create_def skip_def)
  consider (idle) "name = [] \<or> uid = []" | (unregistered) "name \<noteq> []" "uid \<noteq> []" "map_of (w_registered w) name = None"
    | (made) ropts where "name \<noteq> []" "uid \<noteq> []" "map_of (w_registered w) name = Some ropts" by fastforce
  then show ?thesis
  proof cases
    case idle
    with run w show ?thesis by auto
  next
    case unregistered
    obtain fs where "error_frame E c uid (RuntimeError (name @ '' does not have a room handler'')) w = (Normal, w\<lparr>w_frames := fs\<rparr>)"
      unfolding error_frame_def using send_frame_result by blast
    then have "serve_event E n d (Make c uid name opts) w = (Normal, w\<lparr>w_frames := fs\<rparr>)"
      unfolding run using unregistered by (simp add: create_new_room_def reading_def catch_std_def throw_def)
    moreover have "name \<notin> fst ` set (w_registered w)" using unregistered(3) by (simp add: map_of_eq_None_iff)
    ultimately show ?thesis using w by simp
  next
    case made
    have name: "name \<in> fst ` set (w_registered w)" using made(3) by (force dest: map_of_SomeD)
    then have "writable E name" using s unfolding sound_def names_ok_def by blast
    then have writes: "text_safe (e_json E) (snapshot_to_json (fresh_snapshot ?i name c w))"
      using quiet_envD(7) [OF E] tame c by (simp add: reads_snapshots_def fresh_snapshot_def tame_env_def)
    have gen: "e_idgen E = None" and good: "mem_good (w_storage w)" using tame at by (simp_all add: tame_env_def attached_def)
    obtain u where u: "create_new_room E n c name opts [] ?k w = ?k ?a u" "created E ?a ?i name c w u"
      by (rule create_quiet [where n = n and k = ?k and creator = opts, OF made(3)
            choose_random_id [OF gen next_id_unused(3) [OF E w] quiet_envD(6) [OF E]] quiet_envD(4) [OF E] next_unknown(1) [OF s]
            writes good next_id_unused(1) [OF E w]]) blast+
    obtain r where r: "w_rooms u ?a = Some r" "w_registered u = w_registered w" using u(2) unfolding created_def by blast
    obtain fs where "?k ?a u = (Normal, u\<lparr>w_frames := fs\<rparr>)" using send_frame_result r(1) by force
    then have w': "serve_event E n d (Make c uid name opts) w = (Normal, u\<lparr>w_frames := fs\<rparr>)"
      unfolding run using made u(1) by (simp add: catch_std_def)
    then have "well E u" using safe by simp
    note result = created_attached [OF w this u(2)]
    have "in_phase u"
    proof (rule in_phase_step [of w u ?a "[OnCreate]"])
      have count: "w_next_room u = Suc ?a" using u(2) unfolding created_def by blast
      show "phase_of b u = phase_of b w" if "b \<noteq> ?a" for b
        using u(2) that count unfolding created_def by (auto simp: phase_of_def)
      show "hook_run (phase_of ?a w) [OnCreate] = Some (phase_of ?a u)" using count r(1) by (simp add: phase_of_def)
      show "w_log u = w_log w @ map (Pair ?a) [OnCreate]" using u(2) unfolding created_def by auto
    qed (use w in \<open>simp add: lobby_ok_def\<close>)
    then have "lobby_ok E (u\<lparr>w_frames := fs\<rparr>)" using result(1) \<open>well E u\<close> by (simp add: lobby_ok_def [of E u])
    moreover have "lobby_of (u\<lparr>w_frames := fs\<rparr>) = (lobby_of w)(?i \<mapsto> (name, []))" using result(2) by simp
    ultimately show ?thesis using w' r(2) made name u(2) by auto
  qed
qed


subsection \<open>Sequences of requests\<close>

lemma lobby_event:
  assumes E: "quiet_env E" and w: "lobby_ok E w" and n: "4 \<le> n" "2 \<le> d" and ev: "event_ok E ev"
  shows "\<exists>w'. serve_event E n d ev w = (Normal, w') \<and> lobby_ok E w' \<and>
    lobby_of w' = lobby_next (fst ` set (w_registered w)) (e_rid E (w_ids w)) ev (lobby_of w) \<and> w_registered w' = w_registered w \<and>
    (steady w w' \<or> (\<exists>name c. created E (w_next_room w) (e_rid E (w_ids w)) name c w w'))"
proof (cases ev)
  case (Make c uid name opts)
  then show ?thesis using lobby_make [OF E w n, of c uid name opts] ev by (simp del: serve_event.simps lobby_next.simps) blast
next
  case (Enter c i opts)
  then show ?thesis using lobby_enter [OF E w n, of c i opts] ev by (simp del: serve_event.simps lobby_next.simps) blast
next
  case (Say c i key v)
  then show ?thesis using lobby_say [OF E w n, of c i key v] ev by (simp del: serve_event.simps) blast
next
  case (Lose sid)
  then show ?thesis using lobby_lose [OF E w n(1), of d sid] by (simp del: lobby_next.simps) blast
qed

text \<open>A server that has been constructed and has registered its types has no rooms.\<close>

lemma lobby_start:
  assumes "names_ok E types"
  shows "lobby_ok E (empty_world\<lparr>w_registered := types\<rparr>)" "lobby_of (empty_world\<lparr>w_registered := types\<rparr>) = (\<lambda>i. None)"
proof -
  have "well E (empty_world\<lparr>w_registered := types\<rparr>)" using well_empty [of E] assms by (simp add: sound_def server_ok_def)
  then show "lobby_ok E (empty_world\<lparr>w_registered := types\<rparr>)"
    by (simp add: lobby_ok_def attached_def in_phase_def hooks_called_def phase_of_def empty_world_def mem_good_def
        ps_listeners_def not_stored_def mem_get_def)
qed (simp add: lobby_of_def empty_world_def fun_eq_iff)

lemma lobby_run:
  assumes "quiet_env E" "lobby_ok E w" "\<forall>ev \<in> set evs. event_ok E ev" "4 \<le> n" "2 \<le> d"
  shows "\<exists>w'. seqs (serve_event E n d) evs w = (Normal, w') \<and> lobby_ok E w' \<and>
    lobby_path (fst ` set (w_registered w)) evs (lobby_of w) (lobby_of w')"
  using assms(2,3)
proof (induction evs arbitrary: w)
  case Nil
  then show ?case by (simp add: skip_def)
next
  case (Cons ev evs)
  obtain u where u: "serve_event E n d ev w = (Normal, u)" "lobby_ok E u"
      "lobby_of u = lobby_next (fst ` set (w_registered w)) (e_rid E (w_ids w)) ev (lobby_of w)" "w_registered u = w_registered w"
    using lobby_event [OF assms(1) Cons.prems(1) assms(4,5), of ev] Cons.prems(2) by auto
  obtain w' where "seqs (serve_event E n d) evs u = (Normal, w')" "lobby_ok E w'"
      "lobby_path (fst ` set (w_registered u)) evs (lobby_of u) (lobby_of w')"
    using Cons.IH [OF u(2)] Cons.prems(2) by auto
  then show ?case using u next_id_unused(2) [OF assms(1) Cons.prems(1)] by auto
qed



text \<open>Values as unary numbers, a JSON library that reads back what it writes; the classes have the default hooks.\<close>

instance json :: countable
  by countable_datatype

definition unary_json :: json_lib where
  "unary_json = \<lparr>jl_parse = (\<lambda>s. Some (norm (from_nat (length s)))), jl_dump = (\<lambda>v. Some (replicate (to_nat v) (CHR ''1''))),
     jl_what = (\<lambda>e. ''json''), jl_float_int = (\<lambda>f. f)\<rparr>"

definition plain_env :: env where
  "plain_env = \<lparr>e_json = unary_json, e_rid = (\<lambda>n. replicate (Suc n) (CHR ''r'')), e_hooks = (\<lambda>_. default_hooks), e_idgen = None\<rparr>"

definition fresh_server :: world where
  "fresh_server = empty_world\<lparr>w_registered := [(''Chat'', JObject [])]\<rparr>"

lemma unary_safe: "text_safe unary_json v"
  by (simp add: text_safe_def unary_json_def)

lemma plain_quiet: "quiet_env plain_env"
proof -
  have "tame_env plain_env"
  proof -
    have "e_rid plain_env = e_rid club_env" by (simp add: plain_env_def club_env_def)
    moreover have "tame_hooks default_hooks" by (simp add: tame_hooks_def tame_prog_def default_hooks_def)
    ultimately show ?thesis using club_tame
      by (simp add: tame_env_def writes_snapshots_def writable_def plain_env_def unary_json_def)
  qed
  then show ?thesis
    by (auto simp: quiet_env_def reads_snapshots_def unary_safe plain_env_def default_hooks_def quiet_join_def quiet_leave_def)
qed

lemma fresh_lobby: "lobby_ok plain_env fresh_server" "lobby_of fresh_server = (\<lambda>i. None)"
  using lobby_start [of plain_env "[(''Chat'', JObject [])]"]
  by (simp_all add: fresh_server_def names_ok_def writable_def plain_env_def unary_json_def)

definition evening :: "lobby_event list" where
  "evening = [Make (demo_client ''ann'') ''q1'' ''Chat'' JNull, Enter (demo_client ''ann'') ''r'' JNull,
     Say (demo_client ''ann'') ''r'' ''hi'' JNull, Lose ''ann-session'']"

lemma evening_ok: "\<forall>ev \<in> set evening. event_ok plain_env ev"
  by (simp add: evening_def client_ok_def writable_def plain_env_def unary_json_def PLAYER_LEFT_def)





definition one_room :: world where
  "one_room = snd (serve_event plain_env 4 2 (Make (demo_client ''ann'') ''q1'' ''Chat'' JNull) fresh_server)"

lemma one_room_lobby: "lobby_ok plain_env one_room" "lobby_of one_room ''r'' = Some (''Chat'', [])"
proof -
  have ann: "client_ok plain_env (demo_client ''ann'')" by (simp add: client_ok_def writable_def plain_env_def unary_json_def)
  have start: "fst ` set (w_registered fresh_server) = {''Chat''}" "w_ids fresh_server = 0"
    by (simp_all add: fresh_server_def empty_world_def)
  obtain w where w: "serve_event plain_env 4 2 (Make (demo_client ''ann'') ''q1'' ''Chat'' JNull) fresh_server = (Normal, w)"
      "lobby_ok plain_env w"
      "lobby_of w = lobby_next {''Chat''} (e_rid plain_env 0) (Make (demo_client ''ann'') ''q1'' ''Chat'' JNull) (\<lambda>i. None)"
    using lobby_make [OF plain_quiet fresh_lobby(1) _ _ ann, of 4 2 "''q1''" "''Chat''" JNull]
    unfolding start fresh_lobby(2) by (metis order_refl)
  have one: "one_room = w" unfolding one_room_def w(1) by simp
  show "lobby_ok plain_env one_room" unfolding one by (rule w(2))
  show "lobby_of one_room ''r'' = Some (''Chat'', [])" unfolding one w(3) by (simp add: plain_env_def)
qed


end
