(* ===== verification/Lobby_Time_Props.thy ===== *)
theory Lobby_Time_Props imports Lobby_Props
begin

text \<open>
  The server implements the specification with a clock of \<open>Lobby_Time\<close>: its timer thread ends every room when its
  time is over, and as long as that thread is not more than half an hour late, every room can be found for as long as
  it lives.
\<close>

subsection \<open>Requests\<close>

lemma find_stored: "find_room_by_id (mem_ops t) J s i = Inr snap \<Longrightarrow> mem_get t s (room_key i) \<noteq> None"
  by (auto simp: find_room_by_id_def split: option.splits)

lemma lobby_stored:
  assumes w: "lobby_ok E w" and r: "w_rooms w a = Some r"
  shows "mem_get (w_now w) (w_storage w) (room_key (rm_id r)) \<noteq> None"
proof -
  have s: "well E w" and at: "attached E w" using w by (simp_all add: lobby_ok_def)
  have "map_of (w_managing w) (rm_id r) = Some a" by (rule well_room(1) [OF s r])
  then obtain snap where "find_room_by_id (sops w) (e_json E) (w_storage w) (rm_id r) = Inr snap"
    using at unfolding attached_def by (metis (no_types, lifting) option.distinct(1))
  then show ?thesis by (rule find_stored)
qed

text \<open>The time of each room in the table of a server.\<close>

lemma timed_due:
  assumes s: "well E w" and r: "w_rooms w a = Some r"
  shows "tl_due (timed_of w) (rm_id r) = room_due w a"
  using well_room(1) [OF s r] by (simp add: timed_of_def)

lemma timed_eqI:
  assumes s: "well E w" and now: "w_now w = tl_now T" and rooms: "lobby_of w = tl_rooms T"
    and due: "\<And>a r. w_rooms w a = Some r \<Longrightarrow> room_due w a = tl_due T (rm_id r)"
    and none: "\<And>i. tl_rooms T i = None \<Longrightarrow> tl_due T i = None"
  shows "timed_of w = T"
proof -
  have "tl_due (timed_of w) i = tl_due T i" for i
  proof (cases "lobby_of w i")
    case None
    have "map_of (w_managing w) i = None"
    proof (cases "map_of (w_managing w) i")
      case (Some b)
      with well_managed(1) [OF s Some] None show ?thesis by (auto simp: lobby_of_def)
    qed simp
    then show ?thesis using none rooms None by (simp add: timed_of_def)
  next
    case (Some x)
    then obtain b r where "w_rooms w b = Some r" "rm_id r = i" by (rule lobby_entry [OF s])
    with timed_due [OF s] due show ?thesis by metis
  qed
  then show ?thesis using now rooms by (intro timed_lobby.equality) (simp_all add: timed_of_def fun_eq_iff)
qed

lemma timed_of_fields [simp]: "tl_now (timed_of w) = w_now w" "tl_rooms (timed_of w) = lobby_of w"
  by (simp_all add: timed_of_def)

lemma steady_timed:
  assumes s: "well E w" "well E w'" and st: "steady w w'"
  shows "timed_of w' = with_rooms (lobby_of w') (timed_of w)"
proof (rule timed_eqI [OF s(2)])
  show "w_now w' = tl_now (with_rooms (lobby_of w') (timed_of w))" using st by (simp add: steady_def with_rooms_def)
  fix a r' assume r': "w_rooms w' a = Some r'"
  then obtain r where r: "w_rooms w a = Some r" "rm_id r' = rm_id r" "room_due w' a = room_due w a"
    using st unfolding steady_def by metis
  with lobby_room [OF s(1) r(1)] lobby_room [OF s(2) r'] timed_due [OF s(1) r(1)]
  show "room_due w' a = tl_due (with_rooms (lobby_of w') (timed_of w)) (rm_id r')" by (simp add: with_rooms_def)
qed (simp_all add: with_rooms_def)

lemma sched_ok_timeout:
  assumes "sched_ok s" "set_timeout now delay f s = (h, s')"
  shows "sched_ok s'" "sc_tasks s' = sc_tasks s @ [\<lparr>tk_due = now + delay, tk_callback = f, tk_flag = sc_next_flag s\<rparr>]"
    "sc_cancelled s' = sc_cancelled s" "\<not> sc_cancelled s (sc_next_flag s)"
  using assms by (auto 0 3 simp: sched_ok_def set_timeout_def Let_def less_Suc_eq)

lemma created_timed:
  assumes E: "quiet_env E" and w: "lobby_ok E w" and t: "timed_ok w" and s': "well E w'"
    and c: "created E (w_next_room w) (e_rid E (w_ids w)) name client w w'"
  shows "timed_ok w'" "timed_of w' = with_rooms (lobby_of w') (timed_of w)"
proof -
  let ?a = "w_next_room w" and ?i = "e_rid E (w_ids w)"
  have s: "well E w" using w by (simp add: lobby_ok_def)
  note unused = next_id_unused [OF E w] and none = next_unknown(2) [OF s]
  obtain r where r: "w_rooms w' ?a = Some r" "rm_id r = ?i" using c unfolding created_def by blast
  have other: "w_rooms w' b = w_rooms w b" if "b \<noteq> ?a" for b using c that unfolding created_def by blast
  have now: "w_now w' = w_now w" and en: "enrolled ?a ?i w w'" using c unfolding created_def by auto
  obtain h where st: "set_timeout (w_now w) AUTO_DISPOSE_AFTER (AutoDispose ?a) (w_sched w) = (h, w_sched w')"
    using en unfolding enrolled_def by (metis prod.collapse)
  have ok: "sched_ok (w_sched w)" using t by (simp add: timed_ok_def)
  note sched = sched_ok_timeout [OF ok st]
  let ?t = "\<lparr>tk_due = w_now w + AUTO_DISPOSE_AFTER, tk_callback = AutoDispose ?a, tk_flag = sc_next_flag (w_sched w)\<rparr>"
  have new: "ticking w' ?a r ?t"
    using en sched r(2) by (auto simp: ticking_def enrolled_def LATENESS_def)
  have old: "ticking w' b q u" if q: "w_rooms w b = Some q" and u: "ticking w b q u" for b q u
  proof -
    have "rm_id q \<noteq> ?i" using well_room(1) [OF s q] unused(1) by auto
    then have "map_of (w_storage w') (room_key (rm_id q)) = map_of (w_storage w) (room_key (rm_id q))"
      using en lobby_stored [OF w q] by (simp add: enrolled_def)
    with u sched show ?thesis by (simp add: ticking_def)
  qed
  have all: "\<exists>u. ticking w' b q u" if q: "w_rooms w' b = Some q" for b q
  proof (cases "b = ?a")
    case True
    with new r q show ?thesis by auto
  next
    case False
    then have "w_rooms w b = Some q" using q other by simp
    moreover from this obtain u where "ticking w b q u" using t by (auto simp: timed_ok_def)
    ultimately show ?thesis using old by blast
  qed
  with sched(1) show t': "timed_ok w'" by (simp add: timed_ok_def)
  show "timed_of w' = with_rooms (lobby_of w') (timed_of w)"
  proof (rule timed_eqI [OF s'])
    fix b q assume q: "w_rooms w' b = Some q"
    show "room_due w' b = tl_due (with_rooms (lobby_of w') (timed_of w)) (rm_id q)"
    proof (cases "b = ?a")
      case True
      with q r have "q = r" by simp
      with True lobby_room [OF s' q] r(2) unused(2) ticking_due [OF s' t' r(1) new] show ?thesis by (simp add: with_rooms_def)
    next
      case False
      then have q0: "w_rooms w b = Some q" using q other by simp
      then obtain u where u: "ticking w b q u" using t by (auto simp: timed_ok_def)
      have "room_due w' b = room_due w b"
        using ticking_due [OF s' t' q old [OF q0 u]] ticking_due [OF s t q0 u] by simp
      then show ?thesis using lobby_room [OF s' q] lobby_room [OF s q0] timed_due [OF s q0] by (simp add: with_rooms_def)
    qed
  qed (simp_all add: with_rooms_def now)
qed

lemma timed_request:
  assumes E: "quiet_env E" and w: "lobby_ok E w" and t: "timed_ok w" and n: "4 \<le> n" "2 \<le> d" and ev: "event_ok E ev"
  shows "\<exists>w'. serve_event E n d ev w = (Normal, w') \<and> lobby_ok E w' \<and> timed_ok w' \<and>
    timed_next (fst ` set (w_registered w)) (Request ev) (timed_of w) (timed_of w') \<and> w_registered w' = w_registered w"
proof -
  obtain w' where w': "serve_event E n d ev w = (Normal, w')" "lobby_ok E w'"
      "lobby_of w' = lobby_next (fst ` set (w_registered w)) (e_rid E (w_ids w)) ev (lobby_of w)" "w_registered w' = w_registered w"
    and how: "steady w w' \<or> (\<exists>name c. created E (w_next_room w) (e_rid E (w_ids w)) name c w w')"
    using lobby_event [OF E w n ev] by blast
  have s: "well E w" and s': "well E w'" using w w'(2) by (simp_all add: lobby_ok_def)
  from how have "timed_ok w' \<and> timed_of w' = with_rooms (lobby_of w') (timed_of w)"
  proof
    assume "steady w w'"
    with steady_timed [OF s s'] t show ?thesis by (simp add: steady_def)
  qed (use created_timed [OF E w t s'] in blast)
  moreover have "timed_next (fst ` set (w_registered w)) (Request ev) (timed_of w) (timed_of w')"
    if "timed_of w' = with_rooms (lobby_of w') (timed_of w)"
    using that w'(3) next_id_unused(2) [OF E w] by auto
  ultimately show ?thesis using w' by blast
qed

subsection \<open>Time passes\<close>

lemma in_time_iff: "in_time w \<longleftrightarrow> (\<forall>i d. tl_due (timed_of w) i = Some d \<longrightarrow> w_now w \<le> d + LATENESS)"
proof -
  have "i \<in> set (map fst (w_managing w))" if "tl_due (timed_of w) i \<noteq> None" for i
    using that by (auto simp: timed_of_def split: option.splits) (metis dom_map_of_conv_image_fst domI)
  then show ?thesis by (force simp: in_time_def list_all_iff split: option.splits)
qed

lemma timed_elapse:
  assumes w: "lobby_ok E w" and t: "timed_ok w" and w': "w' = w\<lparr>w_now := w_now w + int ms, w_wall_ms := x\<rparr>" and late: "in_time w'"
  shows "lobby_ok E w'" "timed_ok w'" "timed_of w' = (timed_of w)\<lparr>tl_now := w_now w + int ms\<rparr>"
proof -
  have s: "well E w" and at: "attached E w" and ph: "in_phase w" using w by (simp_all add: lobby_ok_def)
  have due: "room_due w' a = room_due w a" for a by (simp add: w' room_due_def)
  have le: "w_now w \<le> w_now w + int ms" by simp
  have gone: "not_stored i w'" if "not_stored i w" for i
    using that expired_mono [OF le] by (auto simp: not_stored_def mem_get_def w' split: option.splits if_splits)
  have found: "mem_get (w_now w') (w_storage w') (room_key i) = mem_get (w_now w) (w_storage w) (room_key i)"
    if a: "map_of (w_managing w) i = Some a" for i a
  proof -
    obtain r where r: "w_rooms w a = Some r" "rm_id r = i" using well_managed(1) [OF s a] by blast
    then obtain u where u: "ticking w a r u" using t by (auto simp: timed_ok_def)
    have "tl_due (timed_of w') i = Some (tk_due u)" using a due ticking_due [OF s t r(1) u] by (simp add: timed_of_def w')
    with late have "w_now w' \<le> tk_due u + LATENESS" unfolding in_time_iff by blast
    moreover obtain e where e: "map_of (w_storage w) (room_key i) = Some e" "ent_expires_at e = Some (tk_due u + LATENESS)"
      using u r(2) by (auto simp: ticking_def)
    moreover have "\<not> expired (w_now w) e" using lobby_stored [OF w r(1)] e r(2) by (auto simp: mem_get_def split: if_splits)
    ultimately show ?thesis by (simp add: mem_get_def w' expired_def)
  qed
  have "attached E w'"
    unfolding attached_def
  proof (intro conjI allI)
    fix i
    have old: "if map_of (w_managing w) i = None then not_stored i w
        else \<exists>snap. find_room_by_id (sops w) (e_json E) (w_storage w) i = Inr snap"
      using at unfolding attached_def by blast
    show "if map_of (w_managing w') i = None then not_stored i w'
        else \<exists>snap. find_room_by_id (sops w') (e_json E) (w_storage w') i = Inr snap"
    proof (cases "map_of (w_managing w) i")
      case None
      with old gone show ?thesis by (simp add: w')
    next
      case (Some a)
      with old find_room_cong [OF found [OF Some], of "e_json E"] show ?thesis by (simp add: w')
    qed
  qed (use at in \<open>simp_all add: w' attached_def\<close>)
  moreover have "in_phase w'" using ph by (simp add: w' in_phase_def hooks_called_def phase_of_def)
  ultimately show "lobby_ok E w'" using s by (simp add: lobby_ok_def w')
  show "timed_ok w'" using t by (simp add: w' timed_ok_def ticking_def)
  show "timed_of w' = (timed_of w)\<lparr>tl_now := w_now w + int ms\<rparr>"
    by (simp add: timed_of_def w' room_due_def lobby_of_def fun_eq_iff cong: option.case_cong)
qed

subsection \<open>The timer thread\<close>

lemma hook_run_leaves: "hook_run Open (replicate k OnLeave @ hs) = hook_run Open hs"
  by (induction k) simp_all

lemma lobby_dispose:
  assumes E: "quiet_env E" and w: "lobby_ok E w" and r: "w_rooms w a = Some ra" and n: "3 \<le> n"
  shows "\<exists>w'. dispose E n a w = (Normal, w') \<and> lobby_ok E w' \<and> w_rooms w' a = None \<and>
    (\<forall>c. c \<noteq> a \<longrightarrow> w_rooms w' c = w_rooms w c) \<and> w_registered w' = w_registered w \<and> w_now w' = w_now w \<and> spares_time a ra w w'"
proof -
  obtain m where m: "n = Suc (Suc (Suc m))" using sucs(1) [OF n] by blast
  note tame = quiet_envD(1) [OF E]
  have s: "well E w" and at: "attached E w" using w by (simp_all add: lobby_ok_def)
  have wired: "wired a ra w" by (rule sound_wired [OF s r]) simp
  have open_room: "\<not> rm_disposing ra" using at r unfolding attached_def by blast
  have depth: "(if rm_clients ra = [] then 1 else 2) < n" using n by simp
  obtain w' where w': "dispose E n a w = (Normal, w')"
      "w_log w' = w_log w @ replicate (length (rm_clients ra)) (a, OnLeave) @ [(a, BeforeDispose), (a, OnDispose)]"
    using dispose_runs [OF r open_room quiet_envD(2) [OF E] depth] by blast
  have g: "gone a (rm_id ra) w'" by (rule dispose_leads_gone [OF r open_room wired w'(1)])
  have same: "w_rooms w' c = w_rooms w c" if "c \<noteq> a" for c by (rule dispose_others [OF r wired w'(1) that])
  have "sound E {} {} {a} w" using s r by (simp add: sound_def)
  from endsD(2) [OF dispose_safe [OF tame, of a "{}" "{}" m] this] have s': "well E w'" using w'(1) m by simp
  have keep: "keeps P (dispose E n a)" if "closed (room_step (mute E) a) P" for P
    using room_ops_keep(4) [OF that] mute_ops [of E, OF quiet_envD(2) [OF E]] by simp
  have "spares a ra w w" using at r wired by (simp add: spares_def fewer_def spared_def attached_def wired_def)
  from keepsD [OF keep [OF spares_closed] this] have sp: "spares a ra w w'" using w'(1) by simp
  have "spares_time a ra w w" using r wired by (simp add: spares_time_def wired_def)
  from keepsD [OF keep [OF spares_time_closed] this] have st: "spares_time a ra w w'" using w'(1) by simp
  have none: "w_rooms w' a = None" using g by (simp add: gone_def)
  have "lobby_ok E w'"
    by (rule lobby_shrink [OF tame w r s' sp same _ _, of "replicate (length (rm_clients ra)) OnLeave @ [BeforeDispose, OnDispose]"])
      (use none g w'(2) in \<open>simp_all add: hook_run_leaves map_replicate_const\<close>)
  with w'(1) none same sp st show ?thesis by (auto simp: spares_def)
qed

text \<open>How many tasks are due.\<close>

definition overdue :: "world \<Rightarrow> nat" where
  "overdue w = length (filter (\<lambda>t. tk_due t \<le> w_now w) (sc_tasks (w_sched w)))"

lemma lobby_ok_sched: "lobby_ok E w \<Longrightarrow> well E (w\<lparr>w_sched := s\<rparr>) \<Longrightarrow> lobby_ok E (w\<lparr>w_sched := s\<rparr>)"
  by (simp add: lobby_ok_def attached_def not_stored_def in_phase_def hooks_called_def phase_of_def cong: if_cong)

lemma timed_none:
  assumes "well E w" "lobby_of w i = None" shows "tl_due (timed_of w) i = None"
proof (cases "map_of (w_managing w) i")
  case (Some b)
  with well_managed(1) [OF assms(1) Some] assms(2) show ?thesis by (auto simp: lobby_of_def)
qed (simp add: timed_of_def)

text \<open>The state after the worker has taken the task \<open>t\<close> off the list.\<close>

lemma taken_task:
  assumes w: "lobby_ok E w" and ok: "sched_ok (w_sched w)" and t: "t \<in> set (sc_tasks (w_sched w))" "tk_due t \<le> w_now w"
    and v: "v = w\<lparr>w_sched := (w_sched w)\<lparr>sc_tasks := remove1 t (sc_tasks (w_sched w))\<rparr>\<rparr>"
  shows "lobby_ok E v" "sched_ok (w_sched v)" "u \<noteq> t \<Longrightarrow> ticking w a r u \<Longrightarrow> ticking v a r u" "overdue v = overdue w - 1"
proof -
  have "well E w" using w by (simp add: lobby_ok_def)
  then have "well E v" unfolding v by (rule fewer_tasks_sound) (simp_all add: set_remove1_subset)
  then show "lobby_ok E v" unfolding v by (rule lobby_ok_sched [OF w])
  have d: "distinct (map tk_flag (sc_tasks (w_sched w)))" using ok by (simp add: sched_ok_def)
  then have "distinct (map tk_flag (remove1 t (sc_tasks (w_sched w))))"
    by (auto simp: distinct_map distinct_remove1 intro: inj_on_diff)
  then show "sched_ok (w_sched v)"
    using ok set_remove1_subset [of t "sc_tasks (w_sched w)"] by (auto simp: v sched_ok_def)
  show "u \<noteq> t \<Longrightarrow> ticking w a r u \<Longrightarrow> ticking v a r u" by (simp add: v ticking_def)
  show "overdue v = overdue w - 1" using t by (simp add: v overdue_def filter_remove1 length_remove1)
qed

text \<open>The disposal of the room whose time is over, seen from outside.\<close>

lemma timed_end:
  assumes E: "quiet_env E" and w: "lobby_ok E w" and t: "timed_ok w"
    and t0: "t0 \<in> set (sc_tasks (w_sched w))" "tk_due t0 \<le> w_now w" "\<forall>x \<in> set (sc_tasks (w_sched w)). tk_due t0 \<le> tk_due x"
    and a: "tk_callback t0 = AutoDispose a" "w_rooms w a = Some ra"
    and v: "v = w\<lparr>w_sched := (w_sched w)\<lparr>sc_tasks := remove1 t0 (sc_tasks (w_sched w))\<rparr>\<rparr>"
    and v': "sched_ok (w_sched v)" "\<And>b r x. x \<noteq> t0 \<Longrightarrow> ticking w b r x \<Longrightarrow> ticking v b r x"
    and w': "lobby_ok E w'" "w_rooms w' a = None" "\<forall>c. c \<noteq> a \<longrightarrow> w_rooms w' c = w_rooms v c" "w_now w' = w_now v"
      "spares_time a ra v w'"
  shows "timed_ok w' \<and> ends_first (rm_id ra) (timed_of w) \<and> timed_of w' = end_room (rm_id ra) (timed_of w)"
proof -
  have s: "well E w" and s': "well E w'" using w w'(1) by (simp_all add: lobby_ok_def)
  have ok: "sched_ok (w_sched w)" using t by (simp add: timed_ok_def)
  have flag: "rm_auto_dispose_timer ra = Some (tk_flag t0)" by (rule ticking_timer [OF s a(2) t0(1) a(1)])
  have own: "own_timer a ra v"
    using timed_own_timer [OF s t a(2)] set_remove1_subset [of t0 "sc_tasks (w_sched w)"] by (auto simp: own_timer_def v)
  note keep = spares_time_ticking [OF w'(5) v'(1) own]
  have before: "w_rooms w b = Some r" "b \<noteq> a" if "w_rooms w' b = Some r" for b r
    using that w'(2,3) by (cases "b = a", simp_all add: v)+
  have old: "ticking w' b r x" if b: "w_rooms w b = Some r" "b \<noteq> a" and x: "ticking w b r x" for b r x
  proof -
    have "x \<noteq> t0" using x b(2) a(1) by (auto simp: ticking_def)
    moreover have "rm_id r \<noteq> rm_id ra" using well_room(1) [OF s b(1)] well_room(1) [OF s a(2)] b(2) by auto
    ultimately show ?thesis using keep(2) v'(2) b(2) x by blast
  qed
  have tw: "timed_ok w'"
    unfolding timed_ok_def using keep(1) t old before by (metis timed_ok_def)
  obtain x where x: "ticking w a ra x" using t a(2) by (auto simp: timed_ok_def)
  have in_x: "x \<in> set (sc_tasks (w_sched w))" "tk_callback x = AutoDispose a" using x by (simp_all add: ticking_def)
  have "tk_flag x = tk_flag t0" using ticking_timer [OF s a(2) in_x] flag by simp
  then have "x = t0" by (rule same_flag [OF ok in_x(1) t0(1)])
  with ticking_due [OF s t a(2) x] have due: "tl_due (timed_of w) (rm_id ra) = Some (tk_due t0)"
    using timed_due [OF s a(2)] by simp
  have "tk_due t0 \<le> e" if "tl_due (timed_of w) j = Some e" for j e
    using that t0(3) by (auto simp: timed_of_def room_due_def find_Some_iff split: option.splits)
  with due t0(2) have first: "ends_first (rm_id ra) (timed_of w)" by (auto simp: ends_first_def)
  have "lobby_of w' = (lobby_of w)(rm_id ra := None)"
  proof (rule lobby_eqI [OF s'])
    fix b r assume r: "w_rooms w' b = Some r"
    have "rm_id r \<noteq> rm_id ra" using well_room(1) [OF s before(1) [OF r]] well_room(1) [OF s a(2)] before(2) [OF r] by auto
    then show "((lobby_of w)(rm_id ra := None)) (rm_id r) = Some (rm_type r, rm_clients r)"
      using lobby_room [OF s before(1) [OF r]] by simp
  next
    fix i y assume y: "((lobby_of w)(rm_id ra := None)) i = Some y"
    then have "i \<noteq> rm_id ra" "lobby_of w i = Some y" by (auto split: if_splits)
    then obtain b r where r: "w_rooms w b = Some r" "rm_id r = i" "b \<noteq> a"
      using lobby_entry [OF s] a(2) by (metis option.inject)
    have "w_rooms w' b = Some r" using w'(3) r(1,3) by (simp add: v)
    with r(2) show "\<exists>b r. w_rooms w' b = Some r \<and> rm_id r = i" by blast
  qed
  moreover have "room_due w' b = tl_due (end_room (rm_id ra) (timed_of w)) (rm_id r)" if r: "w_rooms w' b = Some r" for b r
  proof -
    note r0 = before [OF r]
    obtain x where x: "ticking w b r x" using t r0(1) by (auto simp: timed_ok_def)
    have "rm_id r \<noteq> rm_id ra" using well_room(1) [OF s r0(1)] well_room(1) [OF s a(2)] r0(2) by auto
    then show ?thesis
      using ticking_due [OF s' tw r old [OF r0 x]] ticking_due [OF s t r0(1) x] timed_due [OF s r0(1)] by (simp add: end_room_def)
  qed
  ultimately have "timed_of w' = end_room (rm_id ra) (timed_of w)"
    using w'(4) timed_none [OF s] by (intro timed_eqI [OF s']) (auto simp: end_room_def v)
  with tw first show ?thesis by blast
qed

lemma timed_turn:
  assumes E: "quiet_env E" and w: "lobby_ok E w" and t: "timed_ok w" and n: "3 \<le> n"
  shows "\<exists>w'. timer_turn E n w = (Normal, w') \<and> lobby_ok E w' \<and> timed_ok w' \<and>
    timed_next types Turn (timed_of w) (timed_of w') \<and> w_registered w' = w_registered w \<and> w_now w' = w_now w \<and>
    overdue w' = overdue w - 1"
proof -
  have s: "well E w" using w by (simp add: lobby_ok_def)
  have ok: "sched_ok (w_sched w)" using t by (simp add: timed_ok_def)
  obtain tu sc where turn: "sched_turn (w_now w) (w_sched w) = (tu, sc)" by fastforce
  from turn show ?thesis
  proof (cases rule: turn_cases)
    case stop
    with ok show ?thesis by (simp add: sched_ok_def)
  next
    case wait
    with turn w t show ?thesis by (simp add: timer_turn_def reading_def effect_def overdue_def)
  next
    case (until u us)
    have "w_now w < tk_due x" if "x \<in> set (sc_tasks (w_sched w))" for x
      using min_task_least [of u us] until(2,3) that by fastforce
    then have "overdue w = 0" by (simp add: overdue_def filter_empty_conv not_le)
    with until turn w t show ?thesis by (simp add: timer_turn_def reading_def effect_def)
  next
    case (drop u us)
    let ?t = "min_task u us"
    have t0: "?t \<in> set (sc_tasks (w_sched w))" using min_task_in drop(2) by metis
    define v where v: "v = w\<lparr>w_sched := (w_sched w)\<lparr>sc_tasks := remove1 ?t (sc_tasks (w_sched w))\<rparr>\<rparr>"
    note v' = taken_task [OF w ok t0 drop(3) v]
    have run: "timer_turn E n w = (Normal, v)"
      using drop turn by (simp add: timer_turn_def reading_def effect_def v)
    have old: "ticking v a r x" if "ticking w a r x" for a r x
      using v'(3) [OF _ that] that drop(4) by (auto simp: ticking_def)
    have tv: "timed_ok v"
      unfolding timed_ok_def
    proof (intro conjI allI impI)
      fix a r assume "w_rooms v a = Some r"
      then obtain x where "ticking w a r x" using t by (auto simp: timed_ok_def v)
      then show "\<exists>x. ticking v a r x" using old by blast
    qed (rule v'(2))
    have sv: "well E v" using v'(1) by (simp add: lobby_ok_def)
    have rooms: "lobby_of v = lobby_of w" by (rule ext) (simp add: lobby_of_def v split: option.split)
    have "timed_of v = timed_of w"
    proof (rule timed_eqI [OF sv])
      fix a r assume r: "w_rooms v a = Some r"
      then have r0: "w_rooms w a = Some r" by (simp add: v)
      then obtain x where "ticking w a r x" using t by (auto simp: timed_ok_def)
      with old ticking_due [OF s t r0] ticking_due [OF sv tv r] timed_due [OF s r0]
      show "room_due v a = tl_due (timed_of w) (rm_id r)" by metis
    qed (use timed_none [OF s] rooms in \<open>simp_all add: v\<close>)
    then show ?thesis using run v' tv by (simp add: v)
  next
    case (run u us)
    let ?t = "min_task u us"
    have t0: "?t \<in> set (sc_tasks (w_sched w))" using min_task_in run(2) by metis
    define v where v: "v = w\<lparr>w_sched := (w_sched w)\<lparr>sc_tasks := remove1 ?t (sc_tasks (w_sched w))\<rparr>\<rparr>"
    note v' = taken_task [OF w ok t0 run(3) v]
    obtain a ra where a: "tk_callback ?t = AutoDispose a" "w_rooms w a = Some ra"
      using due_room [OF s t0 run(4)] by blast
    obtain w' where w': "dispose E n a v = (Normal, w')" "lobby_ok E w'" "w_rooms w' a = None"
        "\<forall>c. c \<noteq> a \<longrightarrow> w_rooms w' c = w_rooms v c" "w_registered w' = w_registered v" "w_now w' = w_now v" "spares_time a ra v w'"
      using lobby_dispose [OF E v'(1) _ n, of a ra] a(2) by (auto simp: v)
    have "timer_turn E n w = (Normal, w')"
      using run turn a(1) w'(1) by (simp add: timer_turn_def reading_def v)
    moreover have "overdue w' = overdue w - 1"
      using v'(4) w'(6,7) by (simp add: overdue_def spares_time_def)
    moreover have "timed_ok w' \<and> ends_first (rm_id ra) (timed_of w) \<and> timed_of w' = end_room (rm_id ra) (timed_of w)"
      by (rule timed_end [OF E w t t0 run(3) _ a v v'(2,3) w'(2-4,6,7)]) (use min_task_least [of u us] run(2) in simp)
    ultimately show ?thesis using w' by (auto simp: v)
  qed
qed

subsection \<open>Sequences\<close>

lemma timed_start:
  "timed_ok (empty_world\<lparr>w_registered := types\<rparr>)"
  "timed_of (empty_world\<lparr>w_registered := types\<rparr>) = \<lparr>tl_now = 0, tl_rooms = (\<lambda>i. None), tl_due = (\<lambda>i. None)\<rparr>"
  by (simp_all add: timed_ok_def timed_of_def lobby_of_def [abs_def] sched_ok_def empty_world_def sched_init_def)

lemma timed_event:
  assumes E: "quiet_env E" and w: "lobby_ok E w" and t: "timed_ok w" and ev: "timed_event_ok E ev" and n: "4 \<le> n" "2 \<le> d"
    and late: "on_time E n d (ev # evs) w"
  shows "\<exists>w'. serve_timed E n d ev w = (Normal, w') \<and> lobby_ok E w' \<and> timed_ok w' \<and>
    timed_next (fst ` set (w_registered w)) ev (timed_of w) (timed_of w') \<and> w_registered w' = w_registered w \<and> on_time E n d evs w'"
proof (cases ev)
  case (Request ev')
  obtain w' where w': "serve_event E n d ev' w = (Normal, w')" "lobby_ok E w'" "timed_ok w'"
      "timed_next (fst ` set (w_registered w)) (Request ev') (timed_of w) (timed_of w')" "w_registered w' = w_registered w"
    using timed_request [OF E w t n, of ev'] ev Request by auto
  moreover have "on_time E n d evs w'" using late Request w'(1) by simp
  ultimately show ?thesis unfolding Request serve_timed.simps by blast
next
  case (Elapse ms)
  define w' where w': "w' = w\<lparr>w_now := w_now w + int ms, w_wall_ms := w_wall_ms w + of_nat ms\<rparr>"
  have run: "serve_timed E n d ev w = (Normal, w')" by (simp add: Elapse w' effect_def)
  have late': "in_time w'" "on_time E n d evs w'" using late run by (simp_all add: Elapse)
  note timed_elapse [OF w t w' late'(1)]
  moreover have "w_registered w' = w_registered w" by (simp add: w')
  ultimately show ?thesis using run late'(2) Elapse by simp
next
  case Turn
  have "3 \<le> n" using n by simp
  from timed_turn [OF E w t this] obtain w' where w': "timer_turn E n w = (Normal, w')" "lobby_ok E w'" "timed_ok w'"
      "timed_next (fst ` set (w_registered w)) Turn (timed_of w) (timed_of w')" "w_registered w' = w_registered w"
    by blast
  moreover have "on_time E n d evs w'" using late Turn w'(1) by simp
  ultimately show ?thesis unfolding Turn serve_timed.simps by blast
qed

lemma timed_run:
  assumes E: "quiet_env E" and n: "4 \<le> n" "2 \<le> d"
  shows "lobby_ok E w \<Longrightarrow> timed_ok w \<Longrightarrow> list_all (timed_event_ok E) evs \<Longrightarrow> on_time E n d evs w \<Longrightarrow>
    \<exists>w'. seqs (serve_timed E n d) evs w = (Normal, w') \<and> lobby_ok E w' \<and> timed_ok w' \<and>
    timed_path (fst ` set (w_registered w)) evs (timed_of w) (timed_of w')"
proof (induction evs arbitrary: w)
  case Nil
  then show ?case by (simp add: skip_def)
next
  case (Cons ev evs)
  obtain u where u: "serve_timed E n d ev w = (Normal, u)" "lobby_ok E u" "timed_ok u"
      "timed_next (fst ` set (w_registered w)) ev (timed_of w) (timed_of u)" "w_registered u = w_registered w" "on_time E n d evs u"
    using timed_event [OF E Cons.prems(1,2) _ n Cons.prems(4)] Cons.prems(3) by auto
  obtain w' where w': "seqs (serve_timed E n d) evs u = (Normal, w')" "lobby_ok E w'" "timed_ok w'"
      "timed_path (fst ` set (w_registered u)) evs (timed_of u) (timed_of w')"
    using Cons.IH [OF u(2,3) _ u(6)] Cons.prems(3) by auto
  have "seqs (serve_timed E n d) (ev # evs) w = (Normal, w')" using u(1) w'(1) by simp
  moreover have "timed_path (fst ` set (w_registered w)) (ev # evs) (timed_of w) (timed_of w')"
    unfolding timed_path.simps using u(4,5) w'(4) by auto
  ultimately show ?case using w'(2,3) by blast
qed

text \<open>What a turn does to the rooms that are not due, and to those that are.\<close>

definition past_due :: "timed_lobby \<Rightarrow> string \<Rightarrow> bool" where
  "past_due T i \<longleftrightarrow> (\<exists>d. tl_due T i = Some d \<and> d \<le> tl_now T)"

lemma turn_rooms:
  assumes "timed_next types Turn T T'"
  shows "tl_now T' = tl_now T" "\<not> past_due T i \<Longrightarrow> tl_rooms T' i = tl_rooms T i \<and> tl_due T' i = tl_due T i"
    "tl_due T' i = tl_due T i \<and> tl_rooms T' i = tl_rooms T i \<or> tl_due T' i = None \<and> tl_rooms T' i = None"
  using assms by (auto simp: end_room_def ends_first_def past_due_def split: if_splits)

text \<open>The rooms that are left when every due room has ended.\<close>

definition outlasting :: "timed_lobby \<Rightarrow> lobby" where
  "outlasting T i = (if past_due T i then None else tl_rooms T i)"

lemma timed_turns:
  assumes E: "quiet_env E" and n: "4 \<le> n"
  shows "lobby_ok E w \<Longrightarrow> timed_ok w \<Longrightarrow> overdue w \<le> k \<Longrightarrow>
    \<exists>w'. seqs (serve_timed E n d) (replicate k Turn) w = (Normal, w') \<and> lobby_ok E w' \<and> timed_ok w' \<and>
    lobby_of w' = outlasting (timed_of w)"
proof (induction k arbitrary: w)
  case 0
  have "\<not> past_due (timed_of w) i" for i
    using 0(3) by (auto simp: past_due_def timed_of_def room_due_def overdue_def filter_empty_conv find_Some_iff split: option.splits)
  with 0 show ?case by (simp add: skip_def outlasting_def)
next
  case (Suc k)
  have "3 \<le> n" using n by simp
  from timed_turn [OF E Suc.prems(1,2) this] obtain u where u: "timer_turn E n w = (Normal, u)" "lobby_ok E u" "timed_ok u"
      "timed_next {} Turn (timed_of w) (timed_of u)" "overdue u = overdue w - 1" by blast
  have "overdue u \<le> k" using u(5) Suc.prems(3) by simp
  from Suc.IH [OF u(2,3) this] obtain w' where w': "seqs (serve_timed E n d) (replicate k Turn) u = (Normal, w')"
      "lobby_ok E w'" "timed_ok w'" "lobby_of w' = outlasting (timed_of u)" by blast
  note turn = turn_rooms [OF u(4)]
  have "outlasting (timed_of u) i = outlasting (timed_of w) i" for i
  proof (cases "past_due (timed_of w) i")
    case True
    with turn(1) turn(3) [of i] show ?thesis unfolding outlasting_def past_due_def by force
  next
    case False
    with turn(1) turn(2) [OF False] show ?thesis by (auto simp: outlasting_def past_due_def)
  qed
  then have "lobby_of w' = outlasting (timed_of w)" using w'(4) by auto
  moreover have "seqs (serve_timed E n d) (replicate (Suc k) Turn) w = (Normal, w')" using u(1) w'(1) by simp
  ultimately show ?case using w'(2,3) by blast
qed



text \<open>A room is made, and nobody comes; the timer thread is ten minutes late.\<close>

definition late_night :: "timed_event list" where
  "late_night = [Request (Make (demo_client ''ann'') ''q1'' ''Chat'' JNull), Elapse 9600000]"

lemma late_night_ok: "list_all (timed_event_ok plain_env) late_night"
  by (simp add: late_night_def client_ok_def writable_def plain_env_def unary_json_def)

lemma fresh_timed: "timed_ok fresh_server" "timed_of fresh_server = \<lparr>tl_now = 0, tl_rooms = (\<lambda>i. None), tl_due = (\<lambda>i. None)\<rparr>"
  by (simp_all only: fresh_server_def timed_start)

lemma one_room_timed: "timed_ok one_room" "w_now one_room = 0"
  "tl_due (timed_of one_room) i = Some e \<Longrightarrow> e = AUTO_DISPOSE_AFTER" "tl_due (timed_of one_room) ''r'' = Some AUTO_DISPOSE_AFTER"
proof -
  let ?ev = "Make (demo_client ''ann'') ''q1'' ''Chat'' JNull"
  have ev: "event_ok plain_env ?ev" by (simp add: client_ok_def writable_def plain_env_def unary_json_def)
  obtain w where w: "serve_event plain_env 4 2 ?ev fresh_server = (Normal, w)" "timed_ok w"
      "timed_next (fst ` set (w_registered fresh_server)) (Request ?ev) (timed_of fresh_server) (timed_of w)"
    using timed_request [OF plain_quiet fresh_lobby(1) fresh_timed(1) _ _ ev, of 4 2] by auto
  then have one: "one_room = w" by (simp add: one_room_def)
  with w(2) show "timed_ok one_room" by simp
  obtain j L where T: "timed_of w = with_rooms L (timed_of fresh_server)"
    using w(3) by auto
  from arg_cong [OF T, of tl_now] show "w_now one_room = 0" by (simp add: one with_rooms_def fresh_timed(2))
  have L: "L = lobby_of w" using arg_cong [OF T, of tl_rooms] by (simp add: with_rooms_def)
  have due: "tl_due (timed_of w) i = (if lobby_of w i = None then None else Some AUTO_DISPOSE_AFTER)" for i
    using arg_cong [OF T, of "\<lambda>T. tl_due T i"] by (simp add: with_rooms_def fresh_timed(2) L)
  then show "tl_due (timed_of one_room) i = Some e \<Longrightarrow> e = AUTO_DISPOSE_AFTER" by (simp add: one split: if_splits)
  show "tl_due (timed_of one_room) ''r'' = Some AUTO_DISPOSE_AFTER"
    using due one_room_lobby(2) by (simp add: one)
qed

definition late_world :: world where
  "late_world = one_room\<lparr>w_now := w_now one_room + int 9600000, w_wall_ms := w_wall_ms one_room + of_nat 9600000\<rparr>"

lemma late_run: "seqs (serve_timed plain_env 4 2) late_night fresh_server = (Normal, late_world)"
proof -
  obtain w where w: "serve_event plain_env 4 2 (Make (demo_client ''ann'') ''q1'' ''Chat'' JNull) fresh_server = (Normal, w)"
    using timed_request [OF plain_quiet fresh_lobby(1) fresh_timed(1), of 4 2 "Make (demo_client ''ann'') ''q1'' ''Chat'' JNull"]
    by (auto simp: client_ok_def writable_def plain_env_def unary_json_def)
  then have "one_room = w" by (simp add: one_room_def)
  with w show ?thesis by (simp add: late_night_def late_world_def effect_def skip_def)
qed

lemma late_table: "tl_due (timed_of late_world) = tl_due (timed_of one_room)" "lobby_of late_world = lobby_of one_room"
  "w_now late_world = 9600000"
  using one_room_timed(2) by (simp_all add: late_world_def timed_of_def room_due_def lobby_of_def fun_eq_iff cong: option.case_cong)

lemma late_night_on_time: "on_time plain_env 4 2 late_night fresh_server"
proof -
  have "in_time late_world"
    unfolding in_time_iff late_table by (auto dest!: one_room_timed(3) simp: LATENESS_def THREE_HOURS_def)
  moreover have "serve_event plain_env 4 2 (Make (demo_client ''ann'') ''q1'' ''Chat'' JNull) fresh_server = (Normal, one_room)"
    using late_run by (auto simp: late_night_def one_room_def seq_eq_Normal)
  ultimately show ?thesis by (simp add: late_night_def late_world_def effect_def)
qed



end
