(* ===== verification/Room_Failure.thy ===== *)
theory Room_Failure imports Room_Props
begin

text \<open>
  What a disposal leaves behind when a hook throws: the room has been marked, so that no later disposal does
  anything, but it has not been handed back to the server.
\<close>

subsection \<open>A room that is marked and managed\<close>

definition half_disposed :: "nat \<Rightarrow> string \<Rightarrow> world \<Rightarrow> bool" where
  "half_disposed a i w \<longleftrightarrow>
     (\<exists>r. w_rooms w a = Some r \<and> rm_disposing r \<and> rm_id r = i) \<and> map_of (w_managing w) i = Some a"

lemma half_disposedE:
  assumes "half_disposed a i w"
  obtains r where "w_rooms w a = Some r" "rm_disposing r" "rm_id r = i" "map_of (w_managing w) i = Some a"
  using assms by (auto simp: half_disposed_def)

lemma half_disposed_marked: "half_disposed a i w \<Longrightarrow> w_rooms w a = Some r \<Longrightarrow> rm_disposing r"
  by (auto elim: half_disposedE)

lemma closed_half_disposed: "closed (calm_step E a) (half_disposed a i)"
  unfolding closed_def
proof (intro allI impI)
  fix w w' assume c: "half_disposed a i w" and s: "calm_step E a w w'"
  from c obtain r where r: "w_rooms w a = Some r" "rm_disposing r" "rm_id r = i" "map_of (w_managing w) i = Some a"
    by (rule half_disposedE)
  from s show "half_disposed a i w'"
  proof cases
    case (change r0 r')
    with r have "mild r r'" by simp
    with r change show ?thesis by (auto simp: half_disposed_def mild_fields)
  qed (use r in \<open>simp_all add: half_disposed_def\<close>)
qed

lemma half_disposed_ops:
  "keeps (half_disposed a i) (run_prog E n a p)" "keeps (half_disposed a i) (remove_client E n a sid b)"
  by (rule calm_ops_keep [OF closed_half_disposed], erule (1) half_disposed_marked)+

lemma half_disposed_tail:
  "keeps (half_disposed a i) (clear_auto_dispose a)" "keeps (half_disposed a i) (forget_room a)"
  "keeps (half_disposed a i) (unsubscribe_game_message a)" "keeps (half_disposed a i) (unsubscribe_player_left a)"
  by (auto intro!: keepsI elim!: half_disposedE simp: half_disposed_def clear_auto_dispose_def forget_room_def
      unsubscribe_game_message_def unsubscribe_player_left_def seq_def effect_def)

text \<open>An exception of a step that keeps the predicate leaves it true; the last step of a disposal throws none.\<close>

definition raises_in :: "(world \<Rightarrow> bool) \<Rightarrow> wstep \<Rightarrow> bool" where
  "raises_in P f \<longleftrightarrow> (\<forall>w e w'. P w \<longrightarrow> f w = (Raised e, w') \<longrightarrow> P w')"

lemma raises_in_seq: "keeps P f \<Longrightarrow> raises_in P g \<Longrightarrow> raises_in P (seq f g)"
  by (fastforce simp: raises_in_def keeps_def seq_def split: prod.splits outcome.splits)

lemma raises_in_last: "raises_in (half_disposed a i) (with_room a (\<lambda>r. on_room_disposed (rm_id r)))"
  by (auto simp: raises_in_def on_room_disposed_def reading_def effect_def skip_def elim!: half_disposedE split: option.splits)

lemma raises_in_dispose_body: "raises_in (half_disposed a i) (dispose_body E m a r)"
  by (intro raises_in_seq raises_in_last keeps_seqs half_disposed_ops half_disposed_tail
      keeps_log_hook [OF closed_half_disposed])

subsection \<open>Property\<close>

text \<open>C23: An exception in a disposal leaves the room for good.  When a hook throws while a managed room is
  disposed of, the room stays alive, marked and in \<open>managing_rooms_\<close>; every later disposal, be it of the
  timer, the last departure or the shutdown, returns at once without doing anything, and neither a
  departure nor any hook of the room takes it out of that state.\<close>

theorem failed_disposal_sticks:
  assumes "w_rooms w a = Some r" "\<not> rm_disposing r" "map_of (w_managing w) (rm_id r) = Some a"
    and "dispose E n a w = (Raised e, w')"
  shows "half_disposed a (rm_id r) w' \<and> dispose E (Suc m) a w' = (Normal, w') \<and>
    half_disposed a (rm_id r) (snd (remove_client E m a sid b w')) \<and>
    half_disposed a (rm_id r) (snd (run_prog E m a p w'))"
proof -
  let ?w = "w\<lparr>w_rooms := (w_rooms w)(a \<mapsto> r\<lparr>rm_disposing := True\<rparr>)\<rparr>"
  obtain k where "dispose_body E k a r ?w = (Raised e, w')"
    using assms by (cases n) (simp_all add: nofuel_def dispose.simps)
  moreover have "half_disposed a (rm_id r) ?w" using assms(3) by (simp add: half_disposed_def)
  ultimately have h: "half_disposed a (rm_id r) w'"
    using raises_in_dispose_body unfolding raises_in_def by blast
  then have "dispose E (Suc m) a w' = (Normal, w')"
    by (auto elim!: half_disposedE simp: dispose.simps skip_def)
  with h show ?thesis by (simp add: keepsD [OF half_disposed_ops(1)] keepsD [OF half_disposed_ops(2)])
qed

text \<open>A room without members whose \<open>before_dispose\<close> throws.\<close>

definition throwing_env :: env where
  "throwing_env = demo_env\<lparr>e_hooks := (\<lambda>_. demo_hooks\<lparr>hk_before_dispose := [\<lambda>r. ThrowExn (UserError ''hook'')]\<rparr>)\<rparr>"

definition vacant_world :: world where
  "vacant_world = demo_world\<lparr>w_rooms := (\<lambda>_. None)(0 \<mapsto> demo_room\<lparr>rm_clients := []\<rparr>)\<rparr>"

lemma vacant_dispose:
  "\<exists>w'. dispose throwing_env 4 0 vacant_world = (Raised (UserError ''hook''), w')"
  by (simp add: eval_nat_numeral dispose.simps vacant_world_def throwing_env_def seq_def effect_def throw_def skip_def log_hook_def)

theorem failed_disposal_sticks_witness:
  "half_disposed 0 ''lobby'' (snd (dispose throwing_env 4 0 vacant_world)) \<and>
   dispose throwing_env 4 0 (snd (dispose throwing_env 4 0 vacant_world)) = (Normal, snd (dispose throwing_env 4 0 vacant_world))"
proof -
  let ?r = "demo_room\<lparr>rm_clients := []\<rparr>"
  obtain w' where d: "dispose throwing_env 4 0 vacant_world = (Raised (UserError ''hook''), w')"
    using vacant_dispose by blast
  have r: "w_rooms vacant_world 0 = Some ?r" "\<not> rm_disposing ?r" "map_of (w_managing vacant_world) (rm_id ?r) = Some 0"
    by (simp_all add: vacant_world_def demo_world_def)
  show ?thesis using failed_disposal_sticks [OF r d, of 3] d by (simp add: eval_nat_numeral)
qed

end
