(* ===== verification/Timer_Thread.thy ===== *)
theory Timer_Thread imports Scheduler "HOL-Library.Multiset"
begin

text \<open>
  The threads around the scheduler (common/src/scheduler.cpp): the worker, which runs \<open>Impl::run\<close>, and any
  number of callers of \<open>set_timeout\<close>, \<open>TimerHandle::clear\<close> and the destructor, as a step relation.  The worker
  releases the mutex only by waiting on the condition variable or to call a callback; the critical sections
  of the callers do not block, so each is one step, which the mutex delays while the worker has it.
\<close>

subsection \<open>Threads that wait on a condition variable\<close>

text \<open>
  The discipline that makes a condition variable safe: a thread falls asleep only when what it waits for has
  not happened, and whoever makes it happen still has to notify.
\<close>

locale monitor =
  fixes start :: "'s \<Rightarrow> bool" and move :: "'s \<Rightarrow> 's \<Rightarrow> bool"
    and asleep calm notifying :: "'s \<Rightarrow> bool"
  assumes starts_awake: "start s \<Longrightarrow> \<not> asleep s"
    and falls_asleep: "move s s' \<Longrightarrow> \<not> asleep s \<Longrightarrow> asleep s' \<Longrightarrow> calm s'"
    and disturbed: "move s s' \<Longrightarrow> asleep s \<Longrightarrow> asleep s' \<Longrightarrow> calm s \<Longrightarrow> \<not> calm s' \<Longrightarrow> notifying s'"
    and not_forgotten: "move s s' \<Longrightarrow> asleep s \<Longrightarrow> asleep s' \<Longrightarrow> notifying s \<Longrightarrow> notifying s'"
begin

lemma watched_at_start: "start s \<Longrightarrow> asleep s \<Longrightarrow> calm s \<or> notifying s"
  using starts_awake by blast

lemma stays_watched: "(asleep s \<Longrightarrow> calm s \<or> notifying s) \<Longrightarrow> move s s' \<Longrightarrow> asleep s' \<Longrightarrow> calm s' \<or> notifying s'"
  using falls_asleep [of s s'] disturbed [of s s'] not_forgotten [of s s'] by blast

end

subsection \<open>The threads\<close>

text \<open>
  The worker is about to lock the mutex, has it and is at the test of the loop, waits (until a time, or without
  one), runs a callback without the mutex, or has left the loop.  A caller has pushed a task or set
  \<open>stopping\<close> and still has to notify, or is in the \<open>join\<close> of the destructor.
\<close>

datatype 'c worker_pc = Locking | Looping | Sleeping "int option" | Calling "'c task" | Exited

datatype caller_pc = Idle | Notifying | StopNotifying | Joining | Joined

record 'c timer_threads =
  tt_sched :: "'c sched"
  tt_now :: int
  tt_worker :: "'c worker_pc"
  tt_callers :: "nat \<Rightarrow> caller_pc"
  tt_ran :: "'c task list"

definition timer_start :: "'c timer_threads \<Rightarrow> bool" where
  "timer_start s \<longleftrightarrow> tt_sched s = sched_init \<and> tt_worker s = Locking \<and> tt_callers s = (\<lambda>_. Idle) \<and> tt_ran s = []"

definition wakes :: "'c worker_pc \<Rightarrow> 'c worker_pc" where
  "wakes p = (case p of Sleeping d \<Rightarrow> Locking | _ \<Rightarrow> p)"

text \<open>What the worker does next; it is blocked where there is nothing.\<close>

definition worker_step :: "'c timer_threads \<Rightarrow> 'c timer_threads option" where
  "worker_step s = (case tt_worker s of
       Locking \<Rightarrow> Some (s\<lparr>tt_worker := Looping\<rparr>)
     | Looping \<Rightarrow> Some (case sched_turn (tt_now s) (tt_sched s) of
           (Stop, q) \<Rightarrow> s\<lparr>tt_worker := Exited\<rparr>
         | (Wait, q) \<Rightarrow> s\<lparr>tt_worker := Sleeping None\<rparr>
         | (WaitUntil d, q) \<Rightarrow> s\<lparr>tt_worker := Sleeping (Some d)\<rparr>
         | (Dropped t, q) \<Rightarrow> s\<lparr>tt_sched := q\<rparr>
         | (Run t, q) \<Rightarrow> s\<lparr>tt_sched := q, tt_worker := Calling t\<rparr>)
     | Sleeping (Some d) \<Rightarrow> if d \<le> tt_now s then Some (s\<lparr>tt_worker := Locking\<rparr>) else None
     | Sleeping None \<Rightarrow> None
     | Calling t \<Rightarrow> Some (s\<lparr>tt_worker := Locking, tt_ran := tt_ran s @ [t]\<rparr>)
     | Exited \<Rightarrow> None)"

text \<open>The critical section of \<open>set_timeout\<close>, and that of the destructor.\<close>

definition push_task :: "nat \<Rightarrow> int \<Rightarrow> 'c \<Rightarrow> 'c timer_threads \<Rightarrow> 'c timer_threads option" where
  "push_task c delay f s =
     (if tt_callers s c = Idle \<and> tt_worker s \<noteq> Looping
      then Some (s\<lparr>tt_sched := snd (set_timeout (tt_now s) delay f (tt_sched s)), tt_callers := (tt_callers s)(c := Notifying)\<rparr>)
      else None)"

definition begin_stop :: "nat \<Rightarrow> 'c timer_threads \<Rightarrow> 'c timer_threads option" where
  "begin_stop c s =
     (if tt_callers s c = Idle \<and> tt_worker s \<noteq> Looping
      then Some (s\<lparr>tt_sched := request_stop (tt_sched s), tt_callers := (tt_callers s)(c := StopNotifying)\<rparr>) else None)"

text \<open>\<open>cv.notify_all()\<close>, after the critical section.\<close>

definition notify :: "nat \<Rightarrow> 'c timer_threads \<Rightarrow> 'c timer_threads option" where
  "notify c s = (case tt_callers s c of
       Notifying \<Rightarrow> Some (s\<lparr>tt_worker := wakes (tt_worker s), tt_callers := (tt_callers s)(c := Idle)\<rparr>)
     | StopNotifying \<Rightarrow> Some (s\<lparr>tt_worker := wakes (tt_worker s), tt_callers := (tt_callers s)(c := Joining)\<rparr>)
     | _ \<Rightarrow> None)"

definition join_worker :: "nat \<Rightarrow> 'c timer_threads \<Rightarrow> 'c timer_threads option" where
  "join_worker c s =
     (if tt_callers s c = Joining \<and> tt_worker s = Exited then Some (s\<lparr>tt_callers := (tt_callers s)(c := Joined)\<rparr>) else None)"

inductive timer_step :: "'c timer_threads \<Rightarrow> 'c timer_threads \<Rightarrow> bool" where
  work: "worker_step s = Some s' \<Longrightarrow> timer_step s s'"
| spurious: "tt_worker s = Sleeping d \<Longrightarrow> timer_step s (s\<lparr>tt_worker := Locking\<rparr>)"
| push: "push_task c delay f s = Some s' \<Longrightarrow> timer_step s s'"
| stop: "begin_stop c s = Some s' \<Longrightarrow> timer_step s s'"
| notify: "notify c s = Some s' \<Longrightarrow> timer_step s s'"
| join: "join_worker c s = Some s' \<Longrightarrow> timer_step s s'"
| clear: "timer_step s (s\<lparr>tt_sched := timer_clear h (tt_sched s)\<rparr>)"
| tick: "timer_step s (s\<lparr>tt_now := tt_now s + int n\<rparr>)"

inductive_cases timer_stepE: "timer_step s s'"

subsection \<open>The discipline holds\<close>

definition timer_asleep :: "'c timer_threads \<Rightarrow> bool" where
  "timer_asleep s \<longleftrightarrow> (\<exists>d. tt_worker s = Sleeping d)"

text \<open>Nothing has happened that the worker has to see before the time it sleeps until.\<close>

definition timer_calm :: "'c timer_threads \<Rightarrow> bool" where
  "timer_calm s \<longleftrightarrow> \<not> sc_stopping (tt_sched s) \<and> (case tt_worker s of
     Sleeping None \<Rightarrow> sc_tasks (tt_sched s) = []
   | Sleeping (Some d) \<Rightarrow> \<forall>t \<in> set (sc_tasks (tt_sched s)). d \<le> tk_due t
   | _ \<Rightarrow> True)"

definition timer_notifying :: "'c timer_threads \<Rightarrow> bool" where
  "timer_notifying s \<longleftrightarrow> (\<exists>c. tt_callers s c = Notifying \<or> tt_callers s c = StopNotifying)"

lemma turn_sleeps:
  assumes "sched_turn now q = (tu, q')"
  shows "tu = Wait \<Longrightarrow> \<not> sc_stopping q \<and> sc_tasks q = []"
    "tu = WaitUntil d \<Longrightarrow> \<not> sc_stopping q \<and> (\<forall>t \<in> set (sc_tasks q). d \<le> tk_due t)"
  using assms by (cases rule: turn_cases; use min_task_least in fastforce)+

lemma worker_falls_asleep:
  assumes "worker_step s = Some s'" "timer_asleep s'"
  shows "timer_calm s'"
proof -
  obtain tu q where t: "sched_turn (tt_now s) (tt_sched s) = (tu, q)" by fastforce
  show ?thesis
    using assms turn_sleeps [OF t]
    by (auto simp: worker_step_def timer_asleep_def timer_calm_def t split: worker_pc.splits turn.splits option.splits if_splits)
qed

lemma notify_wakes: "notify c s = Some s' \<Longrightarrow> \<not> timer_asleep s'"
  by (auto simp: notify_def timer_asleep_def wakes_def split: caller_pc.splits worker_pc.splits)

lemma worker_wakes: "worker_step s = Some s' \<Longrightarrow> timer_asleep s \<Longrightarrow> \<not> timer_asleep s'"
  by (auto simp: worker_step_def timer_asleep_def split: option.splits if_splits)

lemma timer_clear_calm: "sc_tasks (timer_clear h q) = sc_tasks q" "sc_stopping (timer_clear h q) = sc_stopping q"
  "sc_next_flag (timer_clear h q) = sc_next_flag q"
  by (cases h; simp)+

text \<open>A step that leaves the worker asleep is the step of a caller, or time passes.\<close>

lemma sleeping_step:
  assumes "timer_step s s'" "timer_asleep s" "timer_asleep s'"
  obtains (push) c delay f where "push_task c delay f s = Some s'"
    | (stop) c where "begin_stop c s = Some s'"
    | (clear) h where "s' = s\<lparr>tt_sched := timer_clear h (tt_sched s)\<rparr>"
    | (tick) n where "s' = s\<lparr>tt_now := tt_now s + int n\<rparr>"
  using assms(1)
proof (cases rule: timer_step.cases)
  case work
  with assms(2,3) show thesis using worker_wakes by blast
next
  case (notify c)
  with assms(3) show thesis using notify_wakes by blast
next
  case (join c)
  with assms(2) show thesis by (auto simp: timer_asleep_def join_worker_def split: if_splits)
next
  case (spurious d)
  with assms(3) show thesis by (simp add: timer_asleep_def)
qed (use that in blast)+

lemma timer_calm_same:
  "tt_worker s' = tt_worker s \<Longrightarrow> sc_tasks (tt_sched s') = sc_tasks (tt_sched s) \<Longrightarrow>
   sc_stopping (tt_sched s') = sc_stopping (tt_sched s) \<Longrightarrow> timer_calm s' \<longleftrightarrow> timer_calm s"
  by (simp add: timer_calm_def split: worker_pc.split option.split)

interpretation timer: monitor timer_start timer_step timer_asleep timer_calm timer_notifying
proof
  fix s s' :: "'c timer_threads"
  show "timer_start s \<Longrightarrow> \<not> timer_asleep s"
    by (simp add: timer_start_def timer_asleep_def)
  show "timer_step s s' \<Longrightarrow> \<not> timer_asleep s \<Longrightarrow> timer_asleep s' \<Longrightarrow> timer_calm s'"
    by (erule timer_stepE)
      (auto simp: push_task_def begin_stop_def join_worker_def timer_asleep_def split: if_splits
        dest: worker_falls_asleep [unfolded timer_asleep_def, simplified] notify_wakes [unfolded timer_asleep_def, simplified])
next
  fix s s' :: "'c timer_threads"
  assume s: "timer_step s s'" "timer_asleep s" "timer_asleep s'"
  from s show "timer_calm s \<Longrightarrow> \<not> timer_calm s' \<Longrightarrow> timer_notifying s'"
  proof (cases rule: sleeping_step)
    case (clear h)
    then show "timer_calm s \<Longrightarrow> \<not> timer_calm s' \<Longrightarrow> timer_notifying s'"
      using timer_calm_same [of s' s] by (simp add: timer_clear_calm)
  next
    case (tick n)
    then show "timer_calm s \<Longrightarrow> \<not> timer_calm s' \<Longrightarrow> timer_notifying s'"
      using timer_calm_same [of s' s] by simp
  qed (auto simp: push_task_def begin_stop_def timer_notifying_def split: if_splits)
  from s show "timer_notifying s \<Longrightarrow> timer_notifying s'"
    by (cases rule: sleeping_step) (auto simp: push_task_def begin_stop_def timer_notifying_def split: if_splits)
qed

inductive timer_run :: "'c timer_threads \<Rightarrow> bool" where
  start: "timer_start s \<Longrightarrow> timer_run s"
| step: "timer_run s \<Longrightarrow> timer_step s s' \<Longrightarrow> timer_run s'"

lemma sleeps_calmly: "timer_run s \<Longrightarrow> timer_asleep s \<Longrightarrow> timer_calm s \<or> timer_notifying s"
proof (induction rule: timer_run.induct)
  case (start s)
  then show ?case by (rule timer.watched_at_start)
next
  case (step s s')
  show ?case by (rule timer.stays_watched [OF step.IH step.hyps(2) step.prems])
qed

text \<open>A destructor that has notified finds the worker awake, and \<open>stopping\<close> set for good.\<close>

definition stop_ok :: "'c timer_threads \<Rightarrow> bool" where
  "stop_ok s \<longleftrightarrow> (\<forall>c. (tt_callers s c = StopNotifying \<longrightarrow> sc_stopping (tt_sched s)) \<and>
     (tt_callers s c = Joining \<or> tt_callers s c = Joined \<longrightarrow> sc_stopping (tt_sched s) \<and> \<not> timer_asleep s))"

lemma turn_keeps_stopping: "sched_turn now q = (tu, q') \<Longrightarrow> sc_stopping q' = sc_stopping q"
  by (erule turn_cases) simp_all

lemma worker_step_stopping:
  assumes "worker_step s = Some s'"
  shows "sc_stopping (tt_sched s') = sc_stopping (tt_sched s)" "tt_callers s' = tt_callers s" "tt_now s' = tt_now s"
    "sc_stopping (tt_sched s) \<Longrightarrow> \<not> timer_asleep s'"
proof -
  obtain tu q where t: "sched_turn (tt_now s) (tt_sched s) = (tu, q)" by fastforce
  show "sc_stopping (tt_sched s') = sc_stopping (tt_sched s)" "tt_callers s' = tt_callers s" "tt_now s' = tt_now s"
    using assms turn_keeps_stopping [OF t]
    by (auto simp: worker_step_def t split: worker_pc.splits turn.splits option.splits if_splits)
  show "sc_stopping (tt_sched s) \<Longrightarrow> \<not> timer_asleep s'"
    using assms worker_falls_asleep [of s s'] \<open>sc_stopping (tt_sched s') = sc_stopping (tt_sched s)\<close>
    by (auto simp: timer_calm_def)
qed

lemma stop_ok_step:
  assumes "timer_step s s'" "stop_ok s"
  shows "stop_ok s'"
  using assms(1)
proof (cases rule: timer_step.cases)
  case work
  then show ?thesis using assms(2) worker_step_stopping [of s s'] by (auto simp: stop_ok_def)
next
  case (notify c)
  then show ?thesis using assms(2) notify_wakes [of c s s'] by (auto simp: stop_ok_def notify_def split: caller_pc.splits if_splits)
next
  case (push c delay f)
  then show ?thesis using assms(2)
    by (auto simp: stop_ok_def push_task_def set_timeout_def timer_asleep_def Let_def split: if_splits)
next
  case (stop c)
  then show ?thesis using assms(2)
    by (auto simp: stop_ok_def begin_stop_def request_stop_def timer_asleep_def split: if_splits)
next
  case (join c)
  then show ?thesis using assms(2) by (auto simp: stop_ok_def join_worker_def timer_asleep_def split: if_splits)
qed (use assms(2) in \<open>auto simp: stop_ok_def timer_asleep_def timer_clear_calm\<close>)

lemma stop_ok_run: "timer_run s \<Longrightarrow> stop_ok s"
  by (induction rule: timer_run.induct) (simp add: timer_start_def stop_ok_def, blast intro: stop_ok_step)

subsection \<open>Callbacks\<close>

text \<open>The tasks that were pushed: those that wait, the one that runs and those that have run.\<close>

definition calling :: "'c timer_threads \<Rightarrow> 'c task list" where
  "calling s = (case tt_worker s of Calling t \<Rightarrow> [t] | _ \<Rightarrow> [])"

definition calls_ok :: "'c timer_threads \<Rightarrow> bool" where
  "calls_ok s \<longleftrightarrow> distinct (map tk_flag (tt_ran s @ calling s @ sc_tasks (tt_sched s))) \<and>
     (\<forall>t \<in> set (tt_ran s @ calling s @ sc_tasks (tt_sched s)). tk_flag t < sc_next_flag (tt_sched s)) \<and>
     (\<forall>t \<in> set (tt_ran s @ calling s). tk_due t \<le> tt_now s)"

lemma distinct_submset: "mset xs \<subseteq># mset ys \<Longrightarrow> distinct ys \<Longrightarrow> distinct xs"
  by (metis distinct_append mset_append mset_eq_imp_distinct_iff ex_mset subset_mset.add_diff_inverse)

lemma calls_ok_same:
  assumes "calls_ok s" "mset (tt_ran s' @ calling s' @ sc_tasks (tt_sched s')) \<subseteq># mset (tt_ran s @ calling s @ sc_tasks (tt_sched s))"
    and "sc_next_flag (tt_sched s) \<le> sc_next_flag (tt_sched s')"
    and "\<And>t. t \<in> set (tt_ran s' @ calling s') \<Longrightarrow> t \<in> set (tt_ran s @ calling s) \<or> tk_due t \<le> tt_now s'" "tt_now s \<le> tt_now s'"
  shows "calls_ok s'"
proof -
  let ?ts = "tt_ran s @ calling s @ sc_tasks (tt_sched s)" and ?us = "tt_ran s' @ calling s' @ sc_tasks (tt_sched s')"
  have "mset (map tk_flag ?us) \<subseteq># mset (map tk_flag ?ts)"
    using image_mset_subseteq_mono [OF assms(2), of tk_flag] by simp
  then have "distinct (map tk_flag ?us)"
    using assms(1) distinct_submset unfolding calls_ok_def by blast
  moreover have "set ?us \<subseteq> set ?ts"
    using set_mset_mono [OF assms(2)] by simp
  ultimately show ?thesis
    using assms(1,3-5) unfolding calls_ok_def by (meson dual_order.trans order_less_le_trans subsetD)
qed

lemma calls_ok_work:
  assumes "worker_step s = Some s'" "calls_ok s"
  shows "calls_ok s'"
proof (cases "tt_worker s = Looping")
  case True
  obtain tu q where t: "sched_turn (tt_now s) (tt_sched s) = (tu, q)" by fastforce
  have c: "calling s = []" using True by (simp add: calling_def)
  from t show ?thesis
  proof (cases rule: turn_cases)
    case (drop t ts)
    then show ?thesis
      using assms True t c by (intro calls_ok_same [OF assms(2)]) (auto simp: worker_step_def calling_def)
  next
    case (run t ts)
    have "mset (t # ts) = {#min_task t ts#} + mset (remove1 (min_task t ts) (t # ts))"
      using insert_DiffM [of "min_task t ts" "mset (t # ts)"] min_task_in [of t ts] by (simp only: mset_remove1 set_mset_mset add_mset_add_single [symmetric] union_mset_add_mset_left add_0 add.commute)
    with run show ?thesis
      using assms True t c by (intro calls_ok_same [OF assms(2)]) (auto simp: worker_step_def calling_def simp del: remove1.simps)
  qed (rule calls_ok_same [OF assms(2)]; use assms(1) True t c in \<open>auto simp: worker_step_def calling_def\<close>)+
next
  case False
  then have "tt_ran s' @ calling s' = tt_ran s @ calling s" "tt_sched s' = tt_sched s" "tt_now s' = tt_now s"
    using assms(1) by (auto simp: worker_step_def calling_def split: worker_pc.splits option.splits if_splits)
  then show ?thesis
    using assms(2) unfolding calls_ok_def append_assoc [symmetric] by simp
qed

lemma calls_ok_step:
  assumes "timer_step s s'" "calls_ok s"
  shows "calls_ok s'"
  using assms(1)
proof (cases rule: timer_step.cases)
  case work
  then show ?thesis using assms(2) by (rule calls_ok_work)
next
  case (push c delay f)
  let ?t = "\<lparr>tk_due = tt_now s + delay, tk_callback = f, tk_flag = sc_next_flag (tt_sched s)\<rparr>"
  have "calling s' = calling s" "tt_ran s' = tt_ran s" "tt_now s' = tt_now s" "sc_next_flag (tt_sched s') = Suc (sc_next_flag (tt_sched s))"
    "sc_tasks (tt_sched s') = sc_tasks (tt_sched s) @ [?t]"
    using push by (auto simp: push_task_def set_timeout_def calling_def Let_def split: if_splits)
  then show ?thesis
    using assms(2) by (auto simp: calls_ok_def less_Suc_eq)
next
  case (tick n)
  then show ?thesis using assms(2) by (auto simp: calls_ok_def calling_def intro: order_trans split: worker_pc.splits)
qed (rule calls_ok_same [OF assms(2)]; auto simp: calling_def notify_def wakes_def begin_stop_def request_stop_def
  join_worker_def timer_clear_calm split: worker_pc.splits caller_pc.splits if_splits)+

lemma calls_ok_run: "timer_run s \<Longrightarrow> calls_ok s"
  by (induction rule: timer_run.induct) (simp add: timer_start_def calls_ok_def calling_def sched_init_def, blast intro: calls_ok_step)

subsection \<open>Properties\<close>

text \<open>C16: The timer thread misses nothing.  In every reachable state in which the worker sleeps and no
  notification is under way, the scheduler is not being stopped, and no task is due before the time the
  worker sleeps until (and there is none at all when it sleeps without one).  No callback is run before
  it is due, and none is run twice.\<close>

theorem timer_thread_punctual:
  assumes "timer_run s"
  shows "(tt_worker s = Sleeping d \<and> (\<forall>c. tt_callers s c \<noteq> Notifying \<and> tt_callers s c \<noteq> StopNotifying) \<longrightarrow>
      \<not> sc_stopping (tt_sched s) \<and>
      (case d of None \<Rightarrow> sc_tasks (tt_sched s) = [] | Some u \<Rightarrow> \<forall>t \<in> set (sc_tasks (tt_sched s)). u \<le> tk_due t)) \<and>
    (\<forall>t \<in> set (tt_ran s). tk_due t \<le> tt_now s) \<and> distinct (map tk_flag (tt_ran s))"
  using sleeps_calmly [OF assms] calls_ok_run [OF assms]
  by (auto simp: timer_asleep_def timer_calm_def timer_notifying_def calls_ok_def split: option.splits)

text \<open>One task, due in five milliseconds, and the worker asleep until then.\<close>

definition one_task :: "nat task" where
  "one_task = \<lparr>tk_due = 5, tk_callback = 7, tk_flag = 0\<rparr>"

definition timer_fresh :: "nat timer_threads" where
  "timer_fresh = \<lparr>tt_sched = sched_init, tt_now = 0, tt_worker = Locking, tt_callers = (\<lambda>_. Idle), tt_ran = []\<rparr>"

definition timer_waiting :: "nat timer_threads" where
  "timer_waiting = timer_fresh\<lparr>tt_sched := snd (set_timeout 0 5 7 sched_init), tt_worker := Sleeping (Some 5)\<rparr>"

lemma timer_waiting_run: "timer_run timer_waiting"
proof -
  let ?q = "snd (set_timeout 0 5 7 sched_init) :: nat sched"
  have "timer_run timer_fresh" by (intro timer_run.start) (simp add: timer_start_def timer_fresh_def)
  moreover have "push_task 0 5 7 timer_fresh = Some (timer_fresh\<lparr>tt_sched := ?q, tt_callers := (\<lambda>_. Idle)(0 := Notifying)\<rparr>)"
    by (simp add: push_task_def timer_fresh_def)
  ultimately have "timer_run (timer_fresh\<lparr>tt_sched := ?q, tt_callers := (\<lambda>_. Idle)(0 := Notifying)\<rparr>)"
    by (rule timer_run.step [OF _ timer_step.push])
  moreover have "notify 0 (timer_fresh\<lparr>tt_sched := ?q, tt_callers := (\<lambda>_. Idle)(0 := Notifying)\<rparr>) = Some (timer_fresh\<lparr>tt_sched := ?q\<rparr>)"
    by (simp add: notify_def timer_fresh_def wakes_def fun_eq_iff)
  ultimately have "timer_run (timer_fresh\<lparr>tt_sched := ?q\<rparr>)"
    by (rule timer_run.step [OF _ timer_step.notify])
  moreover have "worker_step (timer_fresh\<lparr>tt_sched := ?q\<rparr>) = Some (timer_fresh\<lparr>tt_sched := ?q, tt_worker := Looping\<rparr>)"
    by (simp add: worker_step_def timer_fresh_def)
  ultimately have "timer_run (timer_fresh\<lparr>tt_sched := ?q, tt_worker := Looping\<rparr>)"
    by (rule timer_run.step [OF _ timer_step.work])
  moreover have "worker_step (timer_fresh\<lparr>tt_sched := ?q, tt_worker := Looping\<rparr>) = Some timer_waiting"
    by (simp add: worker_step_def timer_fresh_def timer_waiting_def sched_turn_def set_timeout_def sched_init_def Let_def)
  ultimately show ?thesis by (rule timer_run.step [OF _ timer_step.work])
qed

theorem timer_thread_punctual_witness:
  "tt_worker timer_waiting = Sleeping (Some 5) \<and> sc_tasks (tt_sched timer_waiting) = [one_task] \<and>
    5 \<le> tk_due one_task \<and> \<not> sc_stopping (tt_sched timer_waiting)"
proof -
  have "tt_worker timer_waiting = Sleeping (Some 5)" "\<forall>c. tt_callers timer_waiting c = Idle"
    "sc_tasks (tt_sched timer_waiting) = [one_task]"
    by (simp_all add: timer_waiting_def timer_fresh_def set_timeout_def sched_init_def one_task_def)
  then show ?thesis using timer_thread_punctual [OF timer_waiting_run, of "Some 5"] by simp
qed

text \<open>How many steps of its own the worker is away from its end, once it has to stop.\<close>

definition worker_rank :: "'c timer_threads \<Rightarrow> nat" where
  "worker_rank s = (case tt_worker s of Exited \<Rightarrow> 0 | Looping \<Rightarrow> 1 | Locking \<Rightarrow> 2 | Calling t \<Rightarrow> 3 | Sleeping d \<Rightarrow> 4)"

text \<open>C19: The destructor of the scheduler returns.  When it is in \<open>join\<close>, either the worker has left its loop
  and the join returns, or the worker has a step that brings it closer to the end, and no step of any
  thread takes it further away: it ends after the callback it is in, if any, and two more steps.\<close>

theorem scheduler_joins:
  assumes "timer_run s" "tt_callers s c = Joining"
  shows "worker_rank s \<le> 3 \<and>
    (if worker_rank s = 0 then join_worker c s \<noteq> None else \<exists>s'. worker_step s = Some s' \<and> worker_rank s' < worker_rank s) \<and>
    (\<forall>s'. timer_step s s' \<longrightarrow> worker_rank s' \<le> worker_rank s)"
proof -
  have ok: "sc_stopping (tt_sched s)" "\<not> timer_asleep s"
    using stop_ok_run [OF assms(1)] assms(2) by (auto simp: stop_ok_def)
  have turn: "sched_turn now (tt_sched s) = (Stop, tt_sched s)" for now
    using ok(1) by (simp add: sched_turn_def)
  have work: "worker_rank s' < worker_rank s" if "worker_step s = Some s'" for s'
    using that ok(2) by (auto simp: worker_step_def worker_rank_def turn timer_asleep_def split: worker_pc.splits option.splits)
  have le: "worker_rank s' \<le> worker_rank s" if "timer_step s s'" for s'
    using that
  proof (cases rule: timer_step.cases)
    case (notify c)
    then show ?thesis using ok(2)
      by (auto simp: notify_def wakes_def worker_rank_def timer_asleep_def split: worker_pc.splits caller_pc.splits)
  qed (use work ok(2) in \<open>auto simp: push_task_def begin_stop_def join_worker_def worker_rank_def timer_asleep_def less_imp_le split: if_splits\<close>)
  show ?thesis
    using ok(2) assms(2) work le
    by (cases "tt_worker s") (auto simp: worker_rank_def worker_step_def join_worker_def timer_asleep_def)
qed

text \<open>The scheduler is destroyed while the callback of the task runs.\<close>

definition timer_leaving :: "nat timer_threads" where
  "timer_leaving = timer_waiting\<lparr>tt_sched := (tt_sched timer_waiting)\<lparr>sc_tasks := [], sc_stopping := True\<rparr>,
     tt_now := 5, tt_worker := Calling one_task, tt_callers := (\<lambda>_. Idle)(1 := Joining)\<rparr>"

lemma timer_leaving_run: "timer_run timer_leaving"
proof -
  let ?w = "timer_waiting\<lparr>tt_now := 5\<rparr>" and ?q = "(tt_sched timer_waiting)\<lparr>sc_tasks := []\<rparr>"
  let ?c = "timer_waiting\<lparr>tt_sched := ?q, tt_now := 5, tt_worker := Calling one_task\<rparr>"
  let ?s = "?c\<lparr>tt_sched := request_stop ?q, tt_callers := (\<lambda>_. Idle)(1 := StopNotifying)\<rparr>"
  note defs = timer_waiting_def timer_fresh_def set_timeout_def sched_init_def one_task_def
  have "timer_run (timer_waiting\<lparr>tt_now := tt_now timer_waiting + int 5\<rparr>)"
    by (rule timer_run.step [OF timer_waiting_run timer_step.tick])
  then have "timer_run ?w" by (simp add: defs)
  moreover have "worker_step ?w = Some (?w\<lparr>tt_worker := Locking\<rparr>)" by (simp add: worker_step_def defs)
  ultimately have "timer_run (?w\<lparr>tt_worker := Locking\<rparr>)" by (rule timer_run.step [OF _ timer_step.work])
  moreover have "worker_step (?w\<lparr>tt_worker := Locking\<rparr>) = Some (?w\<lparr>tt_worker := Looping\<rparr>)" by (simp add: worker_step_def)
  ultimately have "timer_run (?w\<lparr>tt_worker := Looping\<rparr>)" by (rule timer_run.step [OF _ timer_step.work])
  moreover have "worker_step (?w\<lparr>tt_worker := Looping\<rparr>) = Some ?c"
    by (simp add: worker_step_def sched_turn_def Let_def defs)
  ultimately have "timer_run ?c" by (rule timer_run.step [OF _ timer_step.work])
  moreover have "begin_stop 1 ?c = Some ?s" by (simp add: begin_stop_def defs)
  ultimately have "timer_run ?s" by (rule timer_run.step [OF _ timer_step.stop])
  moreover have "notify 1 ?s = Some timer_leaving"
    by (simp add: notify_def wakes_def timer_leaving_def request_stop_def)
  ultimately show ?thesis by (rule timer_run.step [OF _ timer_step.notify])
qed

theorem scheduler_joins_witness:
  "worker_rank timer_leaving = 3 \<and> (\<exists>s'. worker_step timer_leaving = Some s' \<and> worker_rank s' < 3)"
proof -
  have "tt_callers timer_leaving 1 = Joining" "worker_rank timer_leaving = 3"
    by (simp_all add: timer_leaving_def worker_rank_def)
  then show ?thesis using scheduler_joins [OF timer_leaving_run, of 1] by simp
qed

end
