(* ===== verification/Main_Thread.thy ===== *)
theory Main_Thread imports Main
begin

text \<open>
  The threads of a \<open>Server\<close> (server/src/server.cpp) that end it: the one in \<open>run_forever\<close>, the accept thread and
  the one that calls \<open>shutdown\<close>, with the flag \<open>shutting_down_\<close>, the listening socket and the condition
  variable they share.  \<open>own_step\<close> is what the threads do by themselves; \<open>outside_step\<close> is what depends on
  others: a client that connects, a client that goes on with its handshake, a spurious wake-up.
\<close>

datatype main_pc = MLocking | MTesting | MDeciding | MAsleep | MReturned
datatype accept_pc = ATesting | AAccepting | AShaking | AExited
datatype shut_pc = SIdle | SStored | SClosed | SJoined | SDone

record main_threads =
  mt_flag :: bool
  mt_open :: bool
  mt_main :: main_pc
  mt_accept :: accept_pc
  mt_shut :: shut_pc

text \<open>After \<open>listen\<close>, when \<open>run_forever\<close> is called.\<close>

definition main_start :: main_threads where
  "main_start = \<lparr>mt_flag = False, mt_open = True, mt_main = MLocking, mt_accept = ATesting, mt_shut = SIdle\<rparr>"

text \<open>
  \<open>cv.wait(lock, pred)\<close> is \<open>while (!pred()) wait(lock)\<close>.  Nobody else locks the mutex, so locking it
  succeeds; the predicate is tested before the thread sleeps.
\<close>

definition main_step :: "main_threads \<Rightarrow> main_threads option" where
  "main_step s = (case mt_main s of
       MLocking \<Rightarrow> Some (s\<lparr>mt_main := MTesting\<rparr>)
     | MTesting \<Rightarrow> Some (s\<lparr>mt_main := (if mt_flag s then MReturned else MDeciding)\<rparr>)
     | MDeciding \<Rightarrow> Some (s\<lparr>mt_main := MAsleep\<rparr>)
     | MAsleep \<Rightarrow> None
     | MReturned \<Rightarrow> None)"

text \<open>The accept thread: \<open>accept\<close> fails at once when the socket has been shut down.\<close>

definition accept_step :: "main_threads \<Rightarrow> main_threads option" where
  "accept_step s = (case mt_accept s of
       ATesting \<Rightarrow> Some (s\<lparr>mt_accept := (if mt_flag s then AExited else AAccepting)\<rparr>)
     | AAccepting \<Rightarrow> if mt_open s then None else Some (s\<lparr>mt_accept := ATesting\<rparr>)
     | AShaking \<Rightarrow> None
     | AExited \<Rightarrow> None)"

text \<open>\<open>shutdown\<close>: it stores the flag, closes the listening socket, joins the accept thread, disposes of the
  rooms, and notifies, without the mutex.\<close>

definition shutdown_step :: "main_threads \<Rightarrow> main_threads option" where
  "shutdown_step s = (case mt_shut s of
       SIdle \<Rightarrow> Some (s\<lparr>mt_flag := True, mt_shut := SStored\<rparr>)
     | SStored \<Rightarrow> Some (s\<lparr>mt_open := False, mt_shut := SClosed\<rparr>)
     | SClosed \<Rightarrow> if mt_accept s = AExited then Some (s\<lparr>mt_shut := SJoined\<rparr>) else None
     | SJoined \<Rightarrow> Some (s\<lparr>mt_main := (if mt_main s = MAsleep then MLocking else mt_main s), mt_shut := SDone\<rparr>)
     | SDone \<Rightarrow> None)"

inductive own_step :: "main_threads \<Rightarrow> main_threads \<Rightarrow> bool" where
  main: "main_step s = Some s' \<Longrightarrow> own_step s s'"
| accept: "accept_step s = Some s' \<Longrightarrow> own_step s s'"
| shut: "shutdown_step s = Some s' \<Longrightarrow> own_step s s'"

text \<open>With TLS the accept thread does the handshake of a client that has connected.\<close>

inductive outside_step :: "bool \<Rightarrow> main_threads \<Rightarrow> main_threads \<Rightarrow> bool" for tls :: bool where
  connects: "mt_accept s = AAccepting \<Longrightarrow> mt_open s \<Longrightarrow>
    outside_step tls s (s\<lparr>mt_accept := (if tls then AShaking else ATesting)\<rparr>)"
| shakes: "mt_accept s = AShaking \<Longrightarrow> outside_step tls s (s\<lparr>mt_accept := ATesting\<rparr>)"
| spurious: "mt_main s = MAsleep \<Longrightarrow> outside_step tls s (s\<lparr>mt_main := MLocking\<rparr>)"

inductive main_run :: "bool \<Rightarrow> main_threads \<Rightarrow> bool" for tls :: bool where
  start: "main_run tls main_start"
| own: "main_run tls s \<Longrightarrow> own_step s s' \<Longrightarrow> main_run tls s'"
| outside: "main_run tls s \<Longrightarrow> outside_step tls s s' \<Longrightarrow> main_run tls s'"

inductive_simps own_step_iff: "own_step s s'"
inductive_cases outside_stepE: "outside_step tls s s'"

lemmas main_defs = main_step_def accept_step_def shutdown_step_def

subsection \<open>Reachable states\<close>

definition main_ok :: "bool \<Rightarrow> main_threads \<Rightarrow> bool" where
  "main_ok tls s \<longleftrightarrow> (mt_flag s \<longleftrightarrow> mt_shut s \<noteq> SIdle) \<and> (mt_open s \<longleftrightarrow> mt_shut s = SIdle \<or> mt_shut s = SStored) \<and>
     (mt_main s = MReturned \<longrightarrow> mt_flag s) \<and> (mt_accept s = AShaking \<longrightarrow> tls)"

text \<open>What a step of each thread can be.\<close>

lemma main_step_cases:
  assumes "main_step s = Some s'"
  obtains (test) "mt_main s = MTesting" "s' = s\<lparr>mt_main := (if mt_flag s then MReturned else MDeciding)\<rparr>"
    | (other) p where "mt_main s \<noteq> MTesting" "p \<noteq> MReturned" "s' = s\<lparr>mt_main := p\<rparr>"
  using assms by (cases "mt_main s") (auto simp: main_step_def)

lemma accept_step_cases:
  assumes "accept_step s = Some s'"
  obtains (test) "mt_accept s = ATesting" "s' = s\<lparr>mt_accept := (if mt_flag s then AExited else AAccepting)\<rparr>"
    | (failed) "mt_accept s = AAccepting" "\<not> mt_open s" "s' = s\<lparr>mt_accept := ATesting\<rparr>"
  using assms by (cases "mt_accept s") (auto simp: accept_step_def split: if_splits)

lemma shutdown_step_cases:
  assumes "shutdown_step s = Some s'"
  obtains (store) "mt_shut s = SIdle" "s' = s\<lparr>mt_flag := True, mt_shut := SStored\<rparr>"
    | (closed) "mt_shut s = SStored" "s' = s\<lparr>mt_open := False, mt_shut := SClosed\<rparr>"
    | (joined) "mt_shut s = SClosed" "mt_accept s = AExited" "s' = s\<lparr>mt_shut := SJoined\<rparr>"
    | (notified) "mt_shut s = SJoined"
        "s' = s\<lparr>mt_main := (if mt_main s = MAsleep then MLocking else mt_main s), mt_shut := SDone\<rparr>"
  using assms by (cases "mt_shut s") (simp_all add: shutdown_step_def split: if_splits)

lemma main_ok_own:
  assumes "own_step s s'" "main_ok tls s"
  shows "main_ok tls s'"
  using assms(1)
proof (cases rule: own_step.cases)
  case main
  then show ?thesis using assms(2) by (elim main_step_cases) (auto simp: main_ok_def split: if_splits)
next
  case accept
  then show ?thesis using assms(2) by (elim accept_step_cases) (auto simp: main_ok_def split: if_splits)
next
  case shut
  then show ?thesis using assms(2) by (elim shutdown_step_cases) (auto simp: main_ok_def split: if_splits)
qed

lemma main_ok_outside: "outside_step tls s s' \<Longrightarrow> main_ok tls s \<Longrightarrow> main_ok tls s'"
  by (erule outside_stepE) (auto simp: main_ok_def)

lemma main_ok_run: "main_run tls s \<Longrightarrow> main_ok tls s"
  by (induction rule: main_run.induct)
    (simp add: main_ok_def main_start_def, blast intro: main_ok_own, blast intro: main_ok_outside)

text \<open>How far a shutdown is from its end: its own steps, and those of the accept thread.\<close>

definition shutdown_rank :: "main_threads \<Rightarrow> nat" where
  "shutdown_rank s =
     (case mt_shut s of SIdle \<Rightarrow> 4 | SStored \<Rightarrow> 3 | SClosed \<Rightarrow> 2 | SJoined \<Rightarrow> 1 | SDone \<Rightarrow> 0) +
     (case mt_accept s of AShaking \<Rightarrow> 3 | AAccepting \<Rightarrow> 2 | ATesting \<Rightarrow> 1 | AExited \<Rightarrow> 0)"

subsection \<open>Properties\<close>


text \<open>A server that \<open>run_forever\<close> waits in and that is shut down in time.\<close>

definition main_closing :: main_threads where
  "main_closing = \<lparr>mt_flag = True, mt_open = False, mt_main = MLocking, mt_accept = AAccepting, mt_shut = SClosed\<rparr>"

lemma main_closing_run: "main_run tls main_closing"
proof -
  let ?a = "main_start\<lparr>mt_accept := AAccepting\<rparr>" and ?b = "main_start\<lparr>mt_accept := AAccepting, mt_flag := True, mt_shut := SStored\<rparr>"
  have "main_run tls ?a"
    by (rule main_run.own [OF main_run.start own_step.accept]) (simp add: accept_step_def main_start_def)
  then have "main_run tls ?b"
    by (rule main_run.own [OF _ own_step.shut]) (simp add: shutdown_step_def main_start_def)
  then show ?thesis
    by (rule main_run.own [OF _ own_step.shut]) (simp add: shutdown_step_def main_start_def main_closing_def)
qed


text \<open>C38: The notification of a shutdown can be lost.  There is a course of events after which \<open>shutdown\<close> has
  returned and \<open>run_forever\<close> sleeps, and no thread of the process can take a step: the flag is an atomic
  variable that \<open>shutdown\<close> sets and notifies of without \<open>run_forever_mutex_\<close>, between the test of the
  predicate and the wait.\<close>

theorem run_forever_misses_shutdown:
  "\<exists>s. main_run tls s \<and> mt_shut s = SDone \<and> mt_main s = MAsleep \<and> (\<forall>s'. \<not> own_step s s')"
proof -
  let ?m = "\<lambda>p. main_start\<lparr>mt_main := p\<rparr>"
  let ?f = "(?m MDeciding)\<lparr>mt_flag := True, mt_shut := SStored\<rparr>"
  let ?s = "\<lambda>p q. ?f\<lparr>mt_open := False, mt_accept := AExited, mt_main := p, mt_shut := q\<rparr>"
  have "main_run tls (?m MLocking)" using main_run.start by (simp add: main_start_def)
  then have "main_run tls (?m MTesting)"
    by (rule main_run.own [OF _ own_step.main]) (simp add: main_defs main_start_def)
  then have "main_run tls (?m MDeciding)"
    by (rule main_run.own [OF _ own_step.main]) (simp add: main_defs main_start_def)
  then have "main_run tls (?f)"
    by (rule main_run.own [OF _ own_step.shut]) (simp add: main_defs main_start_def)
  then have "main_run tls (?f\<lparr>mt_accept := AExited\<rparr>)"
    by (rule main_run.own [OF _ own_step.accept]) (simp add: main_defs main_start_def)
  then have "main_run tls (?s MDeciding SClosed)"
    by (rule main_run.own [OF _ own_step.shut]) (simp add: main_defs main_start_def)
  then have "main_run tls (?s MDeciding SJoined)"
    by (rule main_run.own [OF _ own_step.shut]) (simp add: main_defs main_start_def)
  then have "main_run tls (?s MDeciding SDone)"
    by (rule main_run.own [OF _ own_step.shut]) (simp add: main_defs main_start_def)
  then have "main_run tls (?s MAsleep SDone)"
    by (rule main_run.own [OF _ own_step.main]) (simp add: main_defs main_start_def)
  moreover have "\<not> own_step (?s MAsleep SDone) s'" for s' by (simp add: own_step_iff main_defs)
  ultimately show ?thesis by (intro exI [of _ "?s MAsleep SDone"]) simp
qed

text \<open>With TLS one client is enough to keep \<open>shutdown\<close> from returning: it connects and sends nothing, so the
  accept thread is in the handshake and the join waits for it.\<close>

theorem idle_handshake_blocks_shutdown:
  "\<exists>s. main_run True s \<and> mt_shut s = SClosed \<and> mt_accept s = AShaking \<and> (\<forall>s'. own_step s s' \<longrightarrow> mt_shut s' = SClosed \<and> mt_accept s' = AShaking)"
proof -
  let ?a = "main_start\<lparr>mt_accept := AAccepting\<rparr>" and ?h = "main_start\<lparr>mt_accept := AShaking\<rparr>"
  let ?f = "?h\<lparr>mt_flag := True, mt_shut := SStored\<rparr>" and ?c = "?h\<lparr>mt_flag := True, mt_open := False, mt_shut := SClosed\<rparr>"
  have "main_run True ?a"
    by (rule main_run.own [OF main_run.start own_step.accept]) (simp add: main_defs main_start_def)
  then have "main_run True ?h"
    using main_run.outside [OF _ outside_step.connects, of True ?a] by (simp add: main_start_def)
  then have "main_run True ?f"
    by (rule main_run.own [OF _ own_step.shut]) (simp add: main_defs main_start_def)
  then have "main_run True ?c"
    by (rule main_run.own [OF _ own_step.shut]) (simp add: main_defs main_start_def)
  moreover have "own_step ?c s' \<longrightarrow> mt_shut s' = SClosed \<and> mt_accept s' = AShaking" for s'
    by (auto simp: own_step_iff main_defs main_start_def)
  ultimately show ?thesis by (intro exI [of _ ?c]) simp
qed

end
