(* ===== verification/Client_Thread.thy ===== *)
theory Client_Thread imports Main
begin

text \<open>
  The two threads of a client that end it (client/src/client.cpp): the manager thread, in
  \<open>connection_manager_loop\<close>, and the one that calls \<open>disconnect\<close> (the destructor does), with \<open>running_\<close> and \<open>ws_\<close>.
  Each section under \<open>mutex_\<close> is one step.  \<open>own_move\<close> is what the threads do by themselves, \<open>peer_move\<close> what
  depends on the network and the server.
\<close>

text \<open>
  The manager tests \<open>running_\<close>, connects, waits for the answer to its upgrade request, is about to set
  \<open>ws_\<close>, is in the receive loop, is about to reset \<open>ws_\<close>, tests \<open>running_\<close> again, pauses, or has ended.
\<close>

datatype manager_pc = AtHead | Connecting | Answering | Installing | Receiving | Lost | AfterLoss | Pausing | Over

text \<open>\<open>disconnect\<close> has cleared \<open>running_\<close>, has closed the connection if there was one and is in \<open>join\<close>, or has returned.\<close>

datatype stop_pc = NotStopped | Cleared | InJoin | Stopped

record client_threads =
  ct_running :: bool
  ct_ws :: "bool option"
  ct_manager :: manager_pc
  ct_stop :: stop_pc

definition client_begin :: client_threads where
  "client_begin = \<lparr>ct_running = True, ct_ws = None, ct_manager = AtHead, ct_stop = NotStopped\<rparr>"

text \<open>
  \<open>ct_ws\<close> is \<open>ws_\<close>, with whether the connection has been closed: then its socket is shut down and the
  receive loop ends.  When the manager sets \<open>ws_\<close> it tests \<open>running_\<close> in the same section, and closes.
\<close>

definition manager_move :: "client_threads \<Rightarrow> client_threads option" where
  "manager_move s = (case ct_manager s of
       AtHead \<Rightarrow> Some (s\<lparr>ct_manager := (if ct_running s then Connecting else Over)\<rparr>)
     | Connecting \<Rightarrow> None
     | Answering \<Rightarrow> None
     | Installing \<Rightarrow> Some (s\<lparr>ct_ws := Some (\<not> ct_running s), ct_manager := Receiving\<rparr>)
     | Receiving \<Rightarrow> if ct_ws s = Some True then Some (s\<lparr>ct_manager := Lost\<rparr>) else None
     | Lost \<Rightarrow> Some (s\<lparr>ct_ws := None, ct_manager := AfterLoss\<rparr>)
     | AfterLoss \<Rightarrow> Some (s\<lparr>ct_manager := (if ct_running s then Pausing else Over)\<rparr>)
     | Pausing \<Rightarrow> Some (s\<lparr>ct_manager := AtHead\<rparr>)
     | Over \<Rightarrow> None)"

definition stop_move :: "client_threads \<Rightarrow> client_threads option" where
  "stop_move s = (case ct_stop s of
       NotStopped \<Rightarrow> Some (s\<lparr>ct_running := False, ct_stop := Cleared\<rparr>)
     | Cleared \<Rightarrow> Some (s\<lparr>ct_ws := map_option (\<lambda>_. True) (ct_ws s), ct_stop := InJoin\<rparr>)
     | InJoin \<Rightarrow> if ct_manager s = Over then Some (s\<lparr>ct_stop := Stopped\<rparr>) else None
     | Stopped \<Rightarrow> None)"

inductive own_move :: "client_threads \<Rightarrow> client_threads \<Rightarrow> bool" where
  manager: "manager_move s = Some s' \<Longrightarrow> own_move s s'"
| stop: "stop_move s = Some s' \<Longrightarrow> own_move s s'"

inductive peer_move :: "client_threads \<Rightarrow> client_threads \<Rightarrow> bool" where
  connected: "ct_manager s = Connecting \<Longrightarrow> peer_move s (s\<lparr>ct_manager := Answering\<rparr>)"
| refused: "ct_manager s = Connecting \<Longrightarrow> peer_move s (s\<lparr>ct_manager := Pausing\<rparr>)"
| accepted: "ct_manager s = Answering \<Longrightarrow> peer_move s (s\<lparr>ct_manager := Installing\<rparr>)"
| rejected: "ct_manager s = Answering \<Longrightarrow> peer_move s (s\<lparr>ct_manager := Pausing\<rparr>)"
| broken: "ct_manager s = Receiving \<Longrightarrow> peer_move s (s\<lparr>ct_manager := Lost\<rparr>)"

inductive client_run :: "client_threads \<Rightarrow> bool" where
  start: "client_run client_begin"
| own: "client_run s \<Longrightarrow> own_move s s' \<Longrightarrow> client_run s'"
| peer: "client_run s \<Longrightarrow> peer_move s s' \<Longrightarrow> client_run s'"

inductive_cases peer_moveE: "peer_move s s'"

lemma manager_move_cases:
  assumes "manager_move s = Some s'"
  obtains (head) "ct_manager s = AtHead" "s' = s\<lparr>ct_manager := (if ct_running s then Connecting else Over)\<rparr>"
    | (install) "ct_manager s = Installing" "s' = s\<lparr>ct_ws := Some (\<not> ct_running s), ct_manager := Receiving\<rparr>"
    | (closed) "ct_manager s = Receiving" "ct_ws s = Some True" "s' = s\<lparr>ct_manager := Lost\<rparr>"
    | (reset) "ct_manager s = Lost" "s' = s\<lparr>ct_ws := None, ct_manager := AfterLoss\<rparr>"
    | (test) "ct_manager s = AfterLoss" "s' = s\<lparr>ct_manager := (if ct_running s then Pausing else Over)\<rparr>"
    | (wake) "ct_manager s = Pausing" "s' = s\<lparr>ct_manager := AtHead\<rparr>"
  using assms by (cases "ct_manager s") (auto simp: manager_move_def split: if_splits)

lemma stop_move_cases:
  assumes "stop_move s = Some s'"
  obtains (clear) "ct_stop s = NotStopped" "s' = s\<lparr>ct_running := False, ct_stop := Cleared\<rparr>"
    | (close) "ct_stop s = Cleared" "s' = s\<lparr>ct_ws := map_option (\<lambda>_. True) (ct_ws s), ct_stop := InJoin\<rparr>"
    | (joined) "ct_stop s = InJoin" "ct_manager s = Over" "s' = s\<lparr>ct_stop := Stopped\<rparr>"
  using assms by (cases "ct_stop s") (auto simp: stop_move_def split: if_splits)

subsection \<open>Reachable states\<close>

text \<open>There is a connection exactly where the manager has one, and once \<open>disconnect\<close> has passed it, it is closed.\<close>

definition client_ok :: "client_threads \<Rightarrow> bool" where
  "client_ok s \<longleftrightarrow> (ct_running s \<longleftrightarrow> ct_stop s = NotStopped) \<and>
     (ct_ws s \<noteq> None \<longleftrightarrow> ct_manager s = Receiving \<or> ct_manager s = Lost) \<and>
     (ct_manager s = Over \<longrightarrow> \<not> ct_running s) \<and>
     (ct_stop s = InJoin \<or> ct_stop s = Stopped \<longrightarrow> ct_ws s = None \<or> ct_ws s = Some True) \<and>
     (ct_stop s = Stopped \<longrightarrow> ct_manager s = Over)"

lemma client_ok_own:
  assumes "own_move s s'" "client_ok s"
  shows "client_ok s'"
  using assms(1)
proof (cases rule: own_move.cases)
  case manager
  then show ?thesis using assms(2) by (elim manager_move_cases) (auto simp: client_ok_def split: if_splits)
next
  case stop
  then show ?thesis using assms(2) by (elim stop_move_cases) (auto simp: client_ok_def)
qed

lemma client_ok_peer: "peer_move s s' \<Longrightarrow> client_ok s \<Longrightarrow> client_ok s'"
  by (erule peer_moveE) (auto simp: client_ok_def)

lemma client_ok_run: "client_run s \<Longrightarrow> client_ok s"
proof (induction rule: client_run.induct)
  case start
  show ?case by (simp add: client_ok_def client_begin_def)
qed (blast intro: client_ok_own client_ok_peer)+

definition stop_rank :: "client_threads \<Rightarrow> nat" where
  "stop_rank s =
     (case ct_manager s of Over \<Rightarrow> 0 | AtHead \<Rightarrow> 1 | AfterLoss \<Rightarrow> 1 | Pausing \<Rightarrow> 2 | Lost \<Rightarrow> 2 | Receiving \<Rightarrow> 3
        | Installing \<Rightarrow> 4 | Answering \<Rightarrow> 5 | Connecting \<Rightarrow> 6) +
     (case ct_stop s of NotStopped \<Rightarrow> 3 | Cleared \<Rightarrow> 2 | InJoin \<Rightarrow> 1 | Stopped \<Rightarrow> 0)"

subsection \<open>Properties\<close>


text \<open>\<open>disconnect\<close> is called while the manager is about to install a connection.\<close>

definition client_closing :: client_threads where
  "client_closing = \<lparr>ct_running = False, ct_ws = None, ct_manager = Installing, ct_stop = InJoin\<rparr>"


end
