(* ===== verification/Client_Link.thy ===== *)
theory Client_Link imports Client_Props Ws_Props Net_Props
begin

text \<open>
  The manager thread of the client library in full (client/src/client.cpp, \<open>generate_client_key\<close> of
  common/src/ws_handshake.cpp): one turn of \<open>connection_manager_loop\<close> over the system calls of \<open>Net\<close>, the socket
  and \<open>WsConnection\<close>, with the handlers the code installs, which send what the client has to send.
\<close>

subsection \<open>The thread while it is connected\<close>

text \<open>What is outside: the libraries, the name resolution, random draws, the clock, and the other threads.\<close>

record thread_state =
  th_out :: "json outcome"
  th_client :: client
  th_last_ping :: int
  th_reads :: nat

type_synonym 'c conn = "('c, sock, thread_state) ws_conn"

record 'c link_env =
  le_json :: json_lib
  le_msgpack :: msgpack_lib
  le_wslay :: "('c, sock, thread_state) wslay_on"
  le_resolve :: "string \<Rightarrow> string \<Rightarrow> (family \<times> string) list option"
  le_encode_block :: "string \<Rightarrow> string"
  le_rd :: "nat \<Rightarrow> nat"
  le_backoff :: "nat \<Rightarrow> int"
  le_clock :: "nat \<Rightarrow> int"
  le_others :: cstep

text \<open>\<open>generate_client_key\<close>: sixteen random bytes; \<open>i\<close> draws were made before.\<close>

definition generate_client_key :: "'c link_env \<Rightarrow> nat \<Rightarrow> string" where
  "generate_client_key N i = le_encode_block N (map (\<lambda>j. char_of (le_rd N j mod 256)) [i ..< i + 16])"

definition on_client :: "cstep \<Rightarrow> thread_state \<Rightarrow> thread_state" where
  "on_client f t =
     (if th_out t = Normal then (case f (th_client t) of (r, c) \<Rightarrow> t\<lparr>th_out := r, th_client := c\<rparr>) else t)"

text \<open>The message handler, the idle callback with its variable \<open>last_ping\<close>, and the other threads.\<close>

definition ping_turn :: "'c link_env \<Rightarrow> thread_state \<Rightarrow> thread_state" where
  "ping_turn N t =
     (if th_out t = Normal then
        (let now = le_clock N (th_reads t); due = sint (cl_ping_interval_ms (th_client t)) \<le> now - th_last_ping t in
         (on_client (ping_when_due now (th_last_ping t) (\<lambda>_. skip)) t)
           \<lparr>th_last_ping := (if due then now else th_last_ping t), th_reads := Suc (th_reads t)\<rparr>)
      else t)"

fun happen_client :: "'c link_env \<Rightarrow> happening \<Rightarrow> thread_state \<Rightarrow> thread_state" where
  "happen_client N (Heard b m) t = on_client (client_ws_payload (le_json N) (le_msgpack N) b m) t"
| "happen_client N Idled t = ping_turn N t"
| "happen_client N Other t = on_client (le_others N) t"

text \<open>What a handler has sent goes through the connection, and a \<open>disconnect\<close> of another thread closes it.\<close>

fun send_events :: "'c link_env \<Rightarrow> (string \<times> json) list \<Rightarrow> 'c conn \<Rightarrow> 'c conn" where
  "send_events N [] k = k"
| "send_events N ((ev, data) # fs) k =
     send_events N fs (snd (ws_send_binary plain_ops (le_wslay N) (le_rd N) (build_event_frame (le_msgpack N) ev data) k))"

fun send_pings :: "'c link_env \<Rightarrow> string list \<Rightarrow> 'c conn \<Rightarrow> 'c conn" where
  "send_pings N [] k = k"
| "send_pings N (s # ss) k = send_pings N ss (snd (ws_send_text plain_ops (le_wslay N) (le_rd N) s k))"

definition close_if_stopped :: "'c link_env \<Rightarrow> bool \<Rightarrow> 'c conn \<Rightarrow> 'c conn" where
  "close_if_stopped N stopped k = (if stopped then ws_close plain_ops (le_wslay N) (le_rd N) 1000 k else k)"

definition act_on :: "'c link_env \<Rightarrow> happening \<Rightarrow> 'c conn \<Rightarrow> 'c conn" where
  "act_on N x k =
     (let t = cn_app k; t' = happen_client N x t in
      close_if_stopped N (cl_running (th_client t) \<and> \<not> cl_running (th_client t'))
        (send_pings N (drop (length (cl_texts (th_client t))) (cl_texts (th_client t')))
          (send_events N (drop (length (cl_sent (th_client t))) (cl_sent (th_client t'))) (k\<lparr>cn_app := t'\<rparr>))))"

definition client_handlers :: "'c link_env \<Rightarrow> ('c, sock, thread_state) ws_env" where
  "client_handlers N =
     \<lparr>we_rd = le_rd N, we_on_message = Some (\<lambda>b m. act_on N (Heard b m)), we_on_close = Some (\<lambda>k. k),
      we_on_idle = Some (act_on N Idled), we_elsewhere = act_on N Other\<rparr>"

subsection \<open>A turn of the loop\<close>

text \<open>
  The state of the thread between two turns: what the system has done, the client, what will arrive over the
  connections to come, the draws made for keys, and the pauses made.
\<close>

record link =
  lk_os :: os
  lk_client :: client
  lk_net :: "sock list"
  lk_drawn :: nat
  lk_pauses :: "int list"

definition silent_peer :: sock where
  "silent_peer = \<lparr>sk_in = [], sk_out = [], sk_accept = [], sk_shut = False\<rparr>"

text \<open>\<open>std::this_thread::sleep_for(backoff_delay(attempt))\<close>: the number of the attempt is not used.\<close>

definition backoff_delay :: "'c link_env \<Rightarrow> nat \<Rightarrow> int \<Rightarrow> int" where
  "backoff_delay N i attempt = le_backoff N i"

definition pause :: "'c link_env \<Rightarrow> int \<Rightarrow> link \<Rightarrow> link" where
  "pause N attempt s = s\<lparr>lk_pauses := lk_pauses s @ [backoff_delay N (length (lk_pauses s)) attempt]\<rparr>"

text \<open>How a turn ends: with the outcome of the thread, and the attempt counter if the loop goes on.\<close>

type_synonym turn_end = "json outcome \<times> int option \<times> link"

definition turn_failed :: "'c link_env \<Rightarrow> int \<Rightarrow> string \<Rightarrow> link \<Rightarrow> turn_end" where
  "turn_failed N attempt message s =
     (case failed_attempt attempt message (\<lambda>_. skip) (lk_client s) of
        (r, c) \<Rightarrow> (r, Some (attempt + 1), pause N (attempt + 1) (s\<lparr>lk_client := c\<rparr>)))"

definition drop_fd :: "int \<Rightarrow> link \<Rightarrow> link" where
  "drop_fd fd s = s\<lparr>lk_os := snd (run_state (destroy_socket (PlainFd fd)) (lk_os s))\<rparr>"

definition first_thread :: "'c link_env \<Rightarrow> int \<Rightarrow> client \<Rightarrow> thread_state" where
  "first_thread N attempt c =
     (case seq (le_others N) (connection_established attempt) c of
        (r, c') \<Rightarrow> \<lparr>th_out = r, th_client = c', th_last_ping = le_clock N 0, th_reads = 1\<rparr>)"

text \<open>From the accepted upgrade to the end of the connection.\<close>

definition serve_connection :: "'c link_env \<Rightarrow> int \<Rightarrow> int \<Rightarrow> sock \<Rightarrow> link \<Rightarrow> turn_end option" where
  "serve_connection N attempt fd sock s =
     (let t = first_thread N attempt (lk_client s);
          k = close_if_stopped N (\<not> cl_running (th_client t)) (new_ws_conn (le_wslay N) True sock t) in
      map_option (\<lambda>k. let t = cn_app k; s' = drop_fd fd (s\<lparr>lk_client := th_client t\<rparr>) in
          if th_out t \<noteq> Normal then (th_out t, None, s')
          else (case connection_lost (\<lambda>_. skip) (th_client t) of (r, c) \<Rightarrow>
            if cl_running (th_client t) then (r, Some 1, pause N 1 (s'\<lparr>lk_client := c\<rparr>))
            else (r, None, s'\<lparr>lk_client := c\<rparr>)))
        (run_recv_loop plain_ops (le_wslay N) (client_handlers N) k))"

text \<open>The answer to the upgrade request over the next connection, \<open>None\<close> when it cannot be sent.\<close>

definition peer_answer :: "'c link_env \<Rightarrow> string \<Rightarrow> link \<Rightarrow> (string \<times> sock) option" where
  "peer_answer N host s =
     (let key = generate_client_key N (lk_drawn s); peer = (case lk_net s of [] \<Rightarrow> silent_peer | q # _ \<Rightarrow> q) in
      case plain_write (handshake_request host key (cl_id (lk_client s))) peer of
        (None, sock) \<Rightarrow> None
      | (Some n, sock) \<Rightarrow> Some (read_response_headers plain_ops sock))"

definition link_turn :: "'c link_env \<Rightarrow> string \<Rightarrow> nat \<Rightarrow> int \<Rightarrow> link \<Rightarrow> turn_end option" where
  "link_turn N host port attempt s =
     (if \<not> cl_running (lk_client s) then Some (Normal, None, s)
      else (case run_state (connect_to (le_resolve N) host (int port)) (lk_os s) of (fd, os) \<Rightarrow>
        let s = s\<lparr>lk_os := os\<rparr> in
        if fd < 0 then Some (turn_failed N attempt (''failed to connect to '' @ host @ '':'' @ dec port) s)
        else
          let s' = s\<lparr>lk_drawn := lk_drawn s + 16, lk_net := tl (lk_net s)\<rparr> in
          (case peer_answer N host s of
             None \<Rightarrow> Some (turn_failed N attempt ''failed to send handshake'' (drop_fd fd s'))
           | Some (headers, sock) \<Rightarrow>
               if \<not> upgrade_accepted headers
               then Some (turn_failed N attempt ''server rejected the WebSocket upgrade'' (drop_fd fd s'))
               else serve_connection N attempt fd sock s')))"

text \<open>Several turns: as many as the number says, unless the loop is left before.\<close>

fun link_turns :: "'c link_env \<Rightarrow> string \<Rightarrow> nat \<Rightarrow> nat \<Rightarrow> int \<Rightarrow> link \<Rightarrow> (json outcome \<times> link) option" where
  "link_turns N host port 0 attempt s = Some (Normal, s)"
| "link_turns N host port (Suc n) attempt s =
     (case link_turn N host port attempt s of
        None \<Rightarrow> None
      | Some (r, next, s') \<Rightarrow>
          (case next of Some a \<Rightarrow> if r = Normal then link_turns N host port n a s' else Some (r, s')
           | None \<Rightarrow> Some (r, s')))"

end
