(* ===== verification/Client_Link_Props.thy ===== *)
theory Client_Link_Props imports Client_Link
begin

text \<open>
  The manager thread in full does what the model of its turns says, whatever arrives, and leaves no
  descriptor open.
\<close>

subsection \<open>The handlers\<close>

text \<open>Queueing a message or the closing of the connection does not change what is being decoded.\<close>

definition queues :: "('c, 's, 'a) wslay_on \<Rightarrow> ('c \<Rightarrow> 'v) \<Rightarrow> bool" where
  "queues L view \<longleftrightarrow>
     (\<forall>opcode m ctx. view (snd (wl_queue_msg L opcode m ctx)) = view ctx \<and>
        wl_read_enabled L (snd (wl_queue_msg L opcode m ctx)) = wl_read_enabled L ctx) \<and>
     (\<forall>code ctx. view (wl_queue_close L code ctx) = view ctx \<and>
        wl_read_enabled L (wl_queue_close L code ctx) = wl_read_enabled L ctx)"

text \<open>Two states of a connection between which something was sent.\<close>

definition only_sent :: "('c, sock, 'a) wslay_on \<Rightarrow> ('c \<Rightarrow> 'v) \<Rightarrow> ('c, sock, 'a) ws_conn \<Rightarrow> ('c, sock, 'a) ws_conn \<Rightarrow> bool" where
  "only_sent L view k q \<longleftrightarrow> sk_in (cn_socket q) = sk_in (cn_socket k) \<and> view (cn_ctx q) = view (cn_ctx k) \<and>
     wl_read_enabled L (cn_ctx q) = wl_read_enabled L (cn_ctx k) \<and> cn_closed q = cn_closed k \<and>
     cn_pending_recv q = cn_pending_recv k \<and> cn_pending_messages q = cn_pending_messages k \<and> cn_app q = cn_app k"

lemma only_sent_refl [simp]: "only_sent L view k k"
  by (simp add: only_sent_def)

lemma only_sent_trans [trans]: "only_sent L view k q \<Longrightarrow> only_sent L view q p \<Longrightarrow> only_sent L view k p"
  by (simp add: only_sent_def)

lemma event_send_only_sent:
  fixes L :: "('c, sock, 'a) wslay_on"
  assumes "uses_callbacks L" "decodes L view step"
  shows "only_sent L view k (event_send plain_ops L rd k)"
proof -
  have "(\<lambda>q. sk_in (cn_socket q) = sk_in (cn_socket k) \<and> cn_closed q = cn_closed k \<and> cn_pending_recv q = cn_pending_recv k \<and>
      cn_pending_messages q = cn_pending_messages k \<and> cn_app q = cn_app k)
      (snd (wl_send L (send_cb plain_ops) (genmask_cb rd) (cn_ctx k) k))"
  proof (rule send_invariant [OF assms(1)])
    fix q :: "('c, sock, 'a) ws_conn" and d :: string
    assume q: "sk_in (cn_socket q) = sk_in (cn_socket k) \<and> cn_closed q = cn_closed k \<and> cn_pending_recv q = cn_pending_recv k \<and>
      cn_pending_messages q = cn_pending_messages k \<and> cn_app q = cn_app k"
    obtain n s where "plain_write d (cn_socket q) = (n, s)" by fastforce
    with q plain_write_keeps_input [of d "cn_socket q"]
    show "sk_in (cn_socket (snd (send_cb plain_ops q d))) = sk_in (cn_socket k) \<and>
      cn_closed (snd (send_cb plain_ops q d)) = cn_closed k \<and> cn_pending_recv (snd (send_cb plain_ops q d)) = cn_pending_recv k \<and>
      cn_pending_messages (snd (send_cb plain_ops q d)) = cn_pending_messages k \<and> cn_app (snd (send_cb plain_ops q d)) = cn_app k"
      by (auto simp: send_cb_def split: option.split nat.split)
  qed (simp_all add: genmask_drawn)
  then show ?thesis
    using conjunct2 [OF assms(2) [unfolded decodes_def], rule_format, of "send_cb plain_ops" "genmask_cb rd" "cn_ctx k" k]
    by (simp add: only_sent_def event_send_def split_beta)
qed

lemma ctx_only_sent:
  "view ctx = view (cn_ctx k) \<Longrightarrow> wl_read_enabled L ctx = wl_read_enabled L (cn_ctx k) \<Longrightarrow> only_sent L view k (k\<lparr>cn_ctx := ctx\<rparr>)"
  by (simp add: only_sent_def)

lemma send_frame_only_sent:
  assumes "uses_callbacks L" "decodes L view step" "queues L view"
  shows "only_sent L view k (snd (ws_send_frame plain_ops L rd opcode m k))"
proof -
  obtain rv ctx where c: "wl_queue_msg L opcode m (cn_ctx k) = (rv, ctx)" by fastforce
  have q: "only_sent L view k (k\<lparr>cn_ctx := ctx\<rparr>)"
    using conjunct1 [OF assms(3) [unfolded queues_def], rule_format, of opcode m "cn_ctx k"] c by (intro ctx_only_sent) simp_all
  then show ?thesis
    using only_sent_trans [OF q event_send_only_sent [OF assms(1,2)]] by (simp add: ws_send_frame_def c)
qed

lemma close_only_sent:
  assumes "uses_callbacks L" "decodes L view step" "queues L view"
  shows "only_sent L view k (ws_close plain_ops L rd code k)"
proof -
  have q: "only_sent L view k (k\<lparr>cn_ctx := wl_queue_close L code (cn_ctx k)\<rparr>)"
    using conjunct2 [OF assms(3) [unfolded queues_def], rule_format, of code "cn_ctx k"] by (intro ctx_only_sent) simp_all
  have "only_sent L view k (if cn_closed k then k
      else event_send plain_ops L rd (k\<lparr>cn_ctx := wl_queue_close L code (cn_ctx k)\<rparr>))"
    using only_sent_trans [OF q event_send_only_sent [OF assms(1,2)]] by simp
  then show ?thesis by (simp add: ws_close_def Let_def only_sent_def plain_shutdown_def)
qed

definition sound_link :: "'c link_env \<Rightarrow> ('c \<Rightarrow> 'v) \<Rightarrow> ('v \<Rightarrow> char \<Rightarrow> 'v \<times> (nat \<times> string) list \<times> bool) \<Rightarrow> bool" where
  "sound_link N view step \<longleftrightarrow> uses_callbacks (le_wslay N) \<and> decodes (le_wslay N) view step \<and> queues (le_wslay N) view \<and>
     wl_read_enabled (le_wslay N) (wl_init (le_wslay N) True)"

lemma send_events_only_sent: "sound_link N view step \<Longrightarrow> only_sent (le_wslay N) view k (send_events N fs k)"
proof (induction fs arbitrary: k)
  case (Cons f fs)
  then show ?case
    using only_sent_trans [OF send_frame_only_sent Cons.IH]
    by (cases f) (auto simp: sound_link_def ws_send_binary_def)
qed simp

lemma send_pings_only_sent: "sound_link N view step \<Longrightarrow> only_sent (le_wslay N) view k (send_pings N ss k)"
proof (induction ss arbitrary: k)
  case (Cons s ss)
  then show ?case
    using only_sent_trans [OF send_frame_only_sent Cons.IH] by (auto simp: sound_link_def ws_send_text_def)
qed simp

lemma close_if_only_sent: "sound_link N view step \<Longrightarrow> only_sent (le_wslay N) view k (close_if_stopped N b k)"
  using close_only_sent by (auto simp: sound_link_def close_if_stopped_def)

lemma act_on_only_sent:
  assumes "sound_link N view step"
  shows "only_sent (le_wslay N) view (k\<lparr>cn_app := happen_client N x (cn_app k)\<rparr>) (act_on N x k)"
  unfolding act_on_def Let_def
  by (rule only_sent_trans [OF send_events_only_sent [OF assms] only_sent_trans [OF send_pings_only_sent [OF assms] close_if_only_sent [OF assms]]])

lemma client_handlers_steady:
  assumes "sound_link N view step"
  shows "steady_handlers sk_in (\<lambda>c. (view c, wl_read_enabled (le_wslay N) c)) (happen_client N) (client_handlers N)"
proof -
  have "changes sk_in (\<lambda>c. (view c, wl_read_enabled (le_wslay N) c)) (happen_client N x) (act_on N x)" for x
    using act_on_only_sent [OF assms, where x = x] by (simp add: changes_def only_sent_def)
  then show ?thesis by (simp add: steady_handlers_def client_handlers_def)
qed

subsection \<open>The steps of the client while it is connected\<close>

fun step_of :: "'c link_env \<Rightarrow> thread_state \<Rightarrow> happening \<Rightarrow> cstep" where
  "step_of N t (Heard b m) = client_ws_payload (le_json N) (le_msgpack N) b m"
| "step_of N t Idled = ping_when_due (le_clock N (th_reads t)) (th_last_ping t) (\<lambda>_. skip)"
| "step_of N t Other = le_others N"

fun client_steps :: "'c link_env \<Rightarrow> thread_state \<Rightarrow> happening list \<Rightarrow> cstep list" where
  "client_steps N t [] = []"
| "client_steps N t (x # xs) = step_of N t x # client_steps N (happen_client N x t) xs"

lemma happen_one:
  "th_out t = Normal \<Longrightarrow> (th_out (happen_client N x t), th_client (happen_client N x t)) = step_of N t x (th_client t)"
  by (cases x) (simp_all add: on_client_def ping_turn_def Let_def split_beta)

lemma happen_stuck: "th_out t \<noteq> Normal \<Longrightarrow> happen (happen_client N) xs t = t"
proof (induction xs)
  case (Cons x xs)
  then show ?case by (cases x) (simp_all add: on_client_def ping_turn_def)
qed simp

lemma happen_steps:
  "th_out t = Normal \<Longrightarrow>
   seqs (\<lambda>f. f) (client_steps N t xs) (th_client t) =
     (th_out (happen (happen_client N) xs t), th_client (happen (happen_client N) xs t))"
proof (induction xs arbitrary: t)
  case (Cons x xs)
  let ?t = "happen_client N x t"
  have one: "step_of N t x (th_client t) = (th_out ?t, th_client ?t)" using happen_one [OF Cons.prems, of N x] by simp
  show ?case
  proof (cases "th_out ?t = Normal")
    case True
    with one Cons.IH [of ?t] show ?thesis by simp
  next
    case False
    with one happen_stuck [OF False, of N xs] seq_stop [of "step_of N t x" "th_client t"] show ?thesis by simp
  qed
qed (simp add: skip_def)

subsection \<open>A turn\<close>

text \<open>How a turn of the model goes on, from how the turn of the thread ended.\<close>

definition goes_on :: "json outcome \<Rightarrow> int option \<Rightarrow> (int \<Rightarrow> cstep) \<Rightarrow> client \<Rightarrow> json outcome \<times> client" where
  "goes_on r nx k c = (case nx of None \<Rightarrow> (r, c) | Some n \<Rightarrow> k n c)"

lemma failed_attempt_run:
  "failed_attempt attempt message k c =
   k (attempt + 1) (c\<lparr>cl_log := cl_log c @ [ConnectError (jobj [(''message'', JString message)]), ReconnectAttempt (attempt + 1)]\<rparr>)"
  by (simp add: failed_attempt_def note_event_def seq_def effect_def)

lemma turn_failed_run:
  "turn_failed N attempt message s = (r, nx, s') \<Longrightarrow>
   r = Normal \<and> failed_attempt attempt message k (lk_client s) = goes_on r nx k (lk_client s') \<and>
   lk_os s' = lk_os s \<and> lk_net s' = lk_net s \<and> nx \<noteq> None"
  by (auto simp: turn_failed_def failed_attempt_run goes_on_def pause_def skip_def)

lemma drop_fd_opened: "opened (lk_os (drop_fd fd s)) = opened (lk_os s) - {#Fd fd#}"
  by (simp add: drop_fd_def)

lemma drop_fd_client [simp]: "lk_client (drop_fd fd s) = lk_client s"
  by (simp add: drop_fd_def)

lemma loop_of_connection:
  assumes "sound_link N view step"
  obtains q xs where
    "run_recv_loop plain_ops (le_wslay N) (client_handlers N) (close_if_stopped N b (new_ws_conn (le_wslay N) True sock t)) = Some q"
    "cn_app q = happen (happen_client N) xs t"
    "heard xs = dispatchable (fst (snd (decode step (view (wl_init (le_wslay N) True)) (until_end True (sk_in sock)))))"
proof -
  let ?k = "close_if_stopped N b (new_ws_conn (le_wslay N) True sock t)"
  have L: "uses_callbacks (le_wslay N)" "decodes (le_wslay N) view step"
    and on: "wl_read_enabled (le_wslay N) (wl_init (le_wslay N) True)"
    using assms by (simp_all add: sound_link_def)
  have k: "only_sent (le_wslay N) view (new_ws_conn (le_wslay N) True sock t) ?k" by (rule close_if_only_sent [OF assms])
  have "\<not> cn_closed ?k" "cn_pending_recv ?k = []" "cn_pending_messages ?k = []" "wl_read_enabled (le_wslay N) (cn_ctx ?k)"
    using k on by (simp_all add: only_sent_def new_ws_conn_def)
  then obtain q xs where q: "recv_loop plain_ops (le_wslay N) (client_handlers N) ?k = Some q" "cn_app q = happen (happen_client N) xs (cn_app ?k)"
      "heard xs = dispatchable (fst (snd (decode step (view (cn_ctx ?k)) (plain_coming True (cn_socket ?k)))))"
    using plain_loop.loop_decodes [OF L client_handlers_steady [OF assms], of True ?k]
    by (auto simp: plain_todo_def plain_coming_def client_handlers_def)
  show thesis
    by (rule that [of "finish (client_handlers N) q" xs])
      (use q k in \<open>simp_all add: run_recv_loop_def finish_def client_handlers_def only_sent_def new_ws_conn_def plain_coming_def\<close>)
qed

lemma serve_connection_run:
  assumes "sound_link N view step" "upgrade_accepted headers" "cl_running (lk_client s)"
  obtains r nx s' xs where "serve_connection N attempt fd sock s = Some (r, nx, s')"
    "\<And>k. manager_turn host port attempt
        (Answered headers (le_others N) (client_steps N (first_thread N attempt (lk_client s)) xs)) k (lk_client s) = goes_on r nx k (lk_client s')"
    "heard xs = dispatchable (fst (snd (decode step (view (wl_init (le_wslay N) True)) (until_end True (sk_in sock)))))"
    "opened (lk_os s') = opened (lk_os s) - {#Fd fd#}" "nx \<noteq> None \<Longrightarrow> r = Normal"
proof -
  let ?first = "first_thread N attempt (lk_client s)"
  obtain q xs where q: "run_recv_loop plain_ops (le_wslay N) (client_handlers N)
      (close_if_stopped N (\<not> cl_running (th_client ?first)) (new_ws_conn (le_wslay N) True sock ?first)) = Some q"
      "cn_app q = happen (happen_client N) xs ?first"
      "heard xs = dispatchable (fst (snd (decode step (view (wl_init (le_wslay N) True)) (until_end True (sk_in sock)))))"
    using loop_of_connection [OF assms(1)] by blast
  let ?t = "cn_app q" and ?d = "drop_fd fd (s\<lparr>lk_client := th_client (cn_app q)\<rparr>)"
  have est: "seq (le_others N) (connection_established attempt) (lk_client s) = (th_out ?first, th_client ?first)"
    by (simp add: first_thread_def split: prod.split)
  let ?steps = "seqs (\<lambda>f. f) (client_steps N ?first xs)"
  have "manager_turn host port attempt (Answered headers (le_others N) (client_steps N ?first xs)) k (lk_client s) =
      seq (seq (le_others N) (connection_established attempt)) (seq ?steps (connection_lost k)) (lk_client s)" for k
    using assms(2,3) by (simp add: manager_turn_def reading_def seq_assoc)
  then have turn: "manager_turn host port attempt (Answered headers (le_others N) (client_steps N ?first xs)) k (lk_client s) =
      (if th_out ?t = Normal then connection_lost k (th_client ?t) else (th_out ?t, th_client ?t))" for k
    using est happen_steps [of ?first N xs] happen_stuck [of ?first N xs] q(2)
    by (cases "th_out ?first = Normal") (auto simp: seq_def split: outcome.split)
  show thesis
  proof (cases "th_out ?t = Normal")
    case True
    obtain r c where lost: "connection_lost (\<lambda>_. skip) (th_client ?t) = (r, c)" by fastforce
    show thesis
    proof (cases "cl_running (th_client ?t)")
      case run: True
      then have "r = Normal" "\<And>k. connection_lost k (th_client ?t) = k 1 c"
        using lost by (auto simp: connection_lost_run skip_def)
      then show thesis
        using True run lost q turn
        by (intro that [of r "Some 1" "pause N 1 (?d\<lparr>lk_client := c\<rparr>)" xs])
          (simp_all add: serve_connection_def Let_def goes_on_def pause_def drop_fd_opened)
    next
      case run: False
      then have "\<And>k. connection_lost k (th_client ?t) = (r, c)"
        using lost by (simp add: connection_lost_def reading_def)
      then show thesis
        using True run lost q turn
        by (intro that [of r None "?d\<lparr>lk_client := c\<rparr>" xs])
          (simp_all add: serve_connection_def Let_def goes_on_def drop_fd_opened)
    qed
  next
    case False
    then show thesis
      using q turn by (intro that [of "th_out ?t" None ?d xs])
        (simp_all add: serve_connection_def Let_def goes_on_def drop_fd_opened)
  qed
qed

text \<open>The result of an attempt, from what the system and the peer do.\<close>

definition result_of ::
  "'c link_env \<Rightarrow> ('c \<Rightarrow> 'v) \<Rightarrow> ('v \<Rightarrow> char \<Rightarrow> 'v \<times> (nat \<times> string) list \<times> bool) \<Rightarrow> string \<Rightarrow> nat \<Rightarrow> int \<Rightarrow> link \<Rightarrow>
   attempt_result \<Rightarrow> bool" where
  "result_of N view step host port attempt s res \<longleftrightarrow>
     (let fd = fst (run_state (connect_to (le_resolve N) host (int port)) (lk_os s)) in
      case res of
        ConnectFailed \<Rightarrow> fd < 0
      | SendFailed \<Rightarrow> 0 \<le> fd \<and> peer_answer N host s = None
      | Answered headers meanwhile served \<Rightarrow> 0 \<le> fd \<and>
          (\<exists>sock. peer_answer N host s = Some (headers, sock) \<and>
            (upgrade_accepted headers \<longrightarrow> meanwhile = le_others N \<and>
              (\<exists>xs. served = client_steps N (first_thread N attempt (lk_client s)) xs \<and>
                heard xs = dispatchable (fst (snd (decode step (view (wl_init (le_wslay N) True)) (until_end True (sk_in sock)))))))))"

lemma link_turn_run:
  assumes N: "sound_link N view step" and run: "cl_running (lk_client s)"
  obtains r nx s' res where "link_turn N host port attempt s = Some (r, nx, s')" "result_of N view step host port attempt s res"
    "\<And>k. manager_turn host port attempt res k (lk_client s) = goes_on r nx k (lk_client s')"
    "opened (lk_os s') = opened (lk_os s)" "nx \<noteq> None \<Longrightarrow> r = Normal"
proof -
  obtain fd os where fd: "run_state (connect_to (le_resolve N) host (int port)) (lk_os s) = (fd, os)" by fastforce
  have os: "opened os = opened (lk_os s) + (if fd < 0 then {#} else {#Fd fd#})"
    using connect_opened [of "le_resolve N" host "int port" "lk_os s"] fd by simp
  let ?s = "s\<lparr>lk_os := os\<rparr>"
  let ?t = "?s\<lparr>lk_drawn := lk_drawn s + 16, lk_net := tl (lk_net s)\<rparr>"
  have peer: "peer_answer N host ?s = peer_answer N host s" by (simp add: peer_answer_def)
  note found = that
  have failed: thesis if f: "lk_client u = lk_client s" "opened (lk_os u) = opened (lk_os s)"
      "link_turn N host port attempt s = Some (turn_failed N attempt message u)" "result_of N view step host port attempt s res"
      "\<And>k. manager_turn host port attempt res k (lk_client s) = failed_attempt attempt message k (lk_client s)" for message u res
  proof -
    obtain r nx s' where t: "turn_failed N attempt message u = (r, nx, s')" by (metis surj_pair)
    then show thesis
      by (intro found [of r nx s' res]) (use f turn_failed_run [OF t] in simp_all)
  qed
  show thesis
  proof (cases "fd < 0")
    case True
    show thesis
      by (rule failed [of ?s "''failed to connect to '' @ host @ '':'' @ dec port" ConnectFailed])
        (use True fd os run in \<open>simp_all add: link_turn_def result_of_def manager_turn_def reading_def\<close>)
  next
    case False
    have o: "opened (lk_os (drop_fd fd ?t)) = opened (lk_os s)" using os False by (simp add: drop_fd_opened)
    show thesis
    proof (cases "peer_answer N host s")
      case None
      show thesis
        by (rule failed [of "drop_fd fd ?t" "''failed to send handshake''" SendFailed])
          (use False None fd o run peer in \<open>simp_all add: link_turn_def result_of_def manager_turn_def reading_def Let_def\<close>)
    next
      case (Some answer)
      obtain headers sock where a: "answer = (headers, sock)" by fastforce
      show thesis
      proof (cases "upgrade_accepted headers")
        case True
        define t where "t = ?t"
        have t: "lk_client t = lk_client s" "lk_os t = os" by (simp_all add: t_def)
        have link: "link_turn N host port attempt s = serve_connection N attempt fd sock t"
          using False Some a True fd run peer by (simp add: link_turn_def Let_def t_def)
        obtain r nx s' xs where q: "serve_connection N attempt fd sock t = Some (r, nx, s')"
            "\<And>k. manager_turn host port attempt (Answered headers (le_others N) (client_steps N (first_thread N attempt (lk_client t)) xs)) k (lk_client t) = goes_on r nx k (lk_client s')"
            "heard xs = dispatchable (fst (snd (decode step (view (wl_init (le_wslay N) True)) (until_end True (sk_in sock)))))"
            "opened (lk_os s') = opened (lk_os t) - {#Fd fd#}" "nx \<noteq> None \<Longrightarrow> r = Normal"
          by (rule serve_connection_run [OF N True, of t attempt fd sock host port]) (use run t in simp, blast)
        show thesis
          by (rule found [OF _ _ q(2) [unfolded t]]) (use link q(1,3,4,5) os False Some a fd t in \<open>auto simp: result_of_def\<close>)
      next
        case rejected: False
        show thesis
          by (rule failed [of "drop_fd fd ?t" "''server rejected the WebSocket upgrade''" "Answered headers skip []"])
            (use False Some a rejected fd o run peer in \<open>simp_all add: link_turn_def result_of_def manager_turn_def reading_def Let_def\<close>)
      qed
    qed
  qed
qed

subsection \<open>The loop\<close>

text \<open>The results of the attempts of the first turns.\<close>

fun results_of ::
  "'c link_env \<Rightarrow> ('c \<Rightarrow> 'v) \<Rightarrow> ('v \<Rightarrow> char \<Rightarrow> 'v \<times> (nat \<times> string) list \<times> bool) \<Rightarrow> string \<Rightarrow> nat \<Rightarrow> nat \<Rightarrow> int \<Rightarrow> link \<Rightarrow>
   attempt_result list \<Rightarrow> bool" where
  "results_of N view step host port 0 attempt s ress \<longleftrightarrow> ress = []"
| "results_of N view step host port (Suc n) attempt s ress \<longleftrightarrow>
     (if \<not> cl_running (lk_client s) then ress = []
      else (case ress of
          [] \<Rightarrow> False
        | res # later \<Rightarrow> result_of N view step host port attempt s res \<and>
            (case link_turn N host port attempt s of
               Some (r, Some a, s') \<Rightarrow> results_of N view step host port n a s' later
             | _ \<Rightarrow> later = [])))"

text \<open>C14: The manager thread of the client does what the model of its loop says.  For any number of turns, from the
  system calls and the bytes of the peer on, the thread gets through them, its client is what
  \<open>connection_manager_loop\<close> makes of the results of the attempts, where the steps of a connection are those of
  the messages decoded from its byte stream, of the pings and of the other threads; and every descriptor
  that was opened has been closed again, on every path.\<close>

theorem client_loop_refines:
  assumes "sound_link N view step"
  shows "\<exists>r s' ress. link_turns N host port n attempt s = Some (r, s') \<and>
    results_of N view step host port n attempt s ress \<and>
    connection_manager_loop host port ress attempt (lk_client s) = (r, lk_client s') \<and>
    opened (lk_os s') = opened (lk_os s)"
proof (induction n arbitrary: attempt s)
  case 0
  show ?case by (simp add: skip_def)
next
  case (Suc n)
  show ?case
  proof (cases "cl_running (lk_client s)")
    case False
    then show ?thesis by (simp add: link_turn_def skip_def)
  next
    case True
    obtain r nx s' res where t: "link_turn N host port attempt s = Some (r, nx, s')" "result_of N view step host port attempt s res"
        "\<And>k. manager_turn host port attempt res k (lk_client s) = goes_on r nx k (lk_client s')"
        "opened (lk_os s') = opened (lk_os s)" "nx \<noteq> None \<Longrightarrow> r = Normal"
      by (rule link_turn_run [OF assms True]) blast
    show ?thesis
    proof (cases nx)
      case None
      with t True show ?thesis
        by (intro exI [of _ r] exI [of _ s'] exI [of _ "[res]"]) (simp add: goes_on_def)
    next
      case (Some a)
      obtain r' u ress where "link_turns N host port n a s' = Some (r', u)" "results_of N view step host port n a s' ress"
          "connection_manager_loop host port ress a (lk_client s') = (r', lk_client u)" "opened (lk_os u) = opened (lk_os s')"
        using Suc.IH by blast
      with t True Some show ?thesis
        by (intro exI [of _ r'] exI [of _ u] exI [of _ "res # ress"]) (simp add: goes_on_def)
    qed
  qed
qed

text \<open>A server that accepts the connection, sends two text frames and closes, then cannot be reached.\<close>

definition demo_net :: "pair_ctx link_env" where
  "demo_net = \<lparr>le_json = frames_json, le_msgpack = demo_msgpack JNull, le_wslay = pair_wslay,
     le_resolve = (\<lambda>host port. Some [(AF_INET, ''127.0.0.1'')]), le_encode_block = (\<lambda>s. ''x3JJHMbDL1EzLkh9GBhXDw==''),
     le_rd = (\<lambda>i. i), le_backoff = (\<lambda>i. 750), le_clock = (\<lambda>i. 1000 * int i), le_others = skip\<rparr>"

definition demo_link :: link where
  "demo_link = \<lparr>lk_os = \<lparr>os_answers = [5, 0, 0, -1], os_open = [], os_calls = []\<rparr>, lk_client = new_client ''ann'',
     lk_net = [\<lparr>sk_in = [Piece (''HTTP/1.1 101'' @ crlf @ crlf @ ''t4''), Silence, Piece ''t1''], sk_out = [], sk_accept = [], sk_shut = False\<rparr>],
     lk_drawn = 0, lk_pauses = []\<rparr>"

lemma demo_net_sound: "sound_link demo_net fst pair_step"
  using pair_uses_callbacks pair_decodes
  by (simp add: sound_link_def demo_net_def) (simp add: queues_def pair_wslay_def)

theorem client_loop_refines_witness:
  "fst (run_state (connect_to (le_resolve demo_net) ''localhost'' 8080) (lk_os demo_link)) = 5 \<and>
   (\<exists>r s' ress. link_turns demo_net ''localhost'' 8080 2 0 demo_link = Some (r, s') \<and>
     connection_manager_loop ''localhost'' 8080 ress 0 (new_client ''ann'') = (r, lk_client s') \<and> opened (lk_os s') = {#})"
proof
  show "fst (run_state (connect_to (le_resolve demo_net) ''localhost'' 8080) (lk_os demo_link)) = 5"
    by (simp add: demo_net_def demo_link_def connect_to_def acquire_def sys_def)
  show "\<exists>r s' ress. link_turns demo_net ''localhost'' 8080 2 0 demo_link = Some (r, s') \<and>
     connection_manager_loop ''localhost'' 8080 ress 0 (new_client ''ann'') = (r, lk_client s') \<and> opened (lk_os s') = {#}"
    using client_loop_refines [OF demo_net_sound, where host = "''localhost''" and port = 8080 and n = 2 and attempt = 0 and s = demo_link]
    by (auto simp: demo_link_def)
qed

end
