(* ===== verification/Lifecycle.thy ===== *)
theory Lifecycle imports Server Net
begin

text \<open>
  The life of a \<open>Server\<close> object (server/src/server.cpp): construction, \<open>listen\<close>, \<open>run_forever\<close>,
  \<open>shutdown\<close> and destruction, over the world of the rooms and the operating system's side.
\<close>

record server =
  sv_tls_ctx :: "int option"
  sv_listen_fd :: int
  sv_accepting :: bool
  sv_shutting_down :: bool
  sv_os :: os
  sv_world :: world

text \<open>The constructor: with TLS options it creates the context, whose failure leaves it by an exception.\<close>

definition new_server :: "(string \<times> string) option \<Rightarrow> os \<Rightarrow> world \<Rightarrow> (string + server) \<times> os" where
  "new_server tls s w =
     (let server = (\<lambda>ctx s. \<lparr>sv_tls_ctx = ctx, sv_listen_fd = -1, sv_accepting = False, sv_shutting_down = False,
                               sv_os = s, sv_world = w\<rparr>)
      in case tls of
           None \<Rightarrow> (Inr (server None s), s)
         | Some (cert_file, key_file) \<Rightarrow>
             (case run_state (create_server cert_file key_file) s of
                (Inl e, s') \<Rightarrow> (Inl e, s')
              | (Inr ctx, s') \<Rightarrow> (Inr (server (Some ctx) s'), s')))"

text \<open>\<open>listen\<close>: assigning to a thread that is still joinable terminates the process.\<close>

definition server_listen :: "int \<Rightarrow> server \<Rightarrow> json outcome \<times> server" where
  "server_listen port v =
     (case run_state (listen_on port 128) (sv_os v) of
        (fd, s) \<Rightarrow>
          let v' = v\<lparr>sv_os := s, sv_listen_fd := fd\<rparr> in
          if fd < 0 then (Raised (RuntimeError (''blueboat: failed to bind port '' @ int_text port)), v')
          else if sv_accepting v then (Undefined, v')
          else (Normal, v'\<lparr>sv_accepting := True\<rparr>))"

text \<open>The accept thread: it takes the context and the descriptor from the server each turn.\<close>

definition server_accept :: "bool list \<Rightarrow> server \<Rightarrow> (owned list \<times> bool) \<times> server" where
  "server_accept loads v =
     (case run_state (accept_loop (sv_tls_ctx v) (sv_listen_fd v) loads) (sv_os v) of
        (r, s) \<Rightarrow> (r, v\<lparr>sv_os := s\<rparr>))"

text \<open>\<open>run_forever\<close> returns once \<open>shutting_down_\<close> is set; \<open>None\<close> is a thread that waits.\<close>

definition run_forever :: "server \<Rightarrow> server option" where
  "run_forever v = (if sv_shutting_down v then Some v else None)"

definition close_listener :: "int \<Rightarrow> (os, unit) state" where
  "close_listener fd =
     (if fd < 0 then State_Monad.return ()
      else do { _ \<leftarrow> sys (SysShutdown fd); close_fd fd })"

text \<open>
  \<open>shutdown\<close>: the accept thread, which sees \<open>shutting_down_\<close> at its next turn, is joined; then the rooms
  are disposed of under the lock, and \<open>on_dispose_\<close>, if there is one, is called.
\<close>

definition server_shutdown :: "env \<Rightarrow> nat \<Rightarrow> wstep option \<Rightarrow> server \<Rightarrow> json outcome \<times> server" where
  "server_shutdown E n disposed v =
     (let s = snd (run_state (close_listener (sv_listen_fd v)) (sv_os v));
          v1 = v\<lparr>sv_shutting_down := True, sv_os := s, sv_listen_fd := (if sv_listen_fd v < 0 then sv_listen_fd v else -1),
                 sv_accepting := False\<rparr>;
          (r, w) = seq (shutdown_rooms E n) (case disposed of None \<Rightarrow> skip | Some f \<Rightarrow> f) (sv_world v)
      in (r, v1\<lparr>sv_world := w\<rparr>))"

text \<open>
  The destructor: an exception that leaves it terminates the process, and so does an accept thread that is
  still joinable when its member is destroyed; then the context is released.  (The connection threads are
  detached, and nothing waits for them.)
\<close>

definition free_context :: "int option \<Rightarrow> (os, unit) state" where
  "free_context ctx = (case ctx of None \<Rightarrow> State_Monad.return () | Some c \<Rightarrow> ctx_free c)"

definition destroy_server :: "env \<Rightarrow> nat \<Rightarrow> wstep option \<Rightarrow> server \<Rightarrow> json outcome \<times> server" where
  "destroy_server E n disposed v =
     (case (if sv_shutting_down v then (Normal, v) else server_shutdown E n disposed v) of
        (Normal, v') \<Rightarrow>
          if sv_accepting v' then (Undefined, v')
          else (Normal, v'\<lparr>sv_os := snd (run_state (free_context (sv_tls_ctx v')) (sv_os v')), sv_tls_ctx := None\<rparr>)
      | (Raised e, v') \<Rightarrow> (Undefined, v')
      | rv \<Rightarrow> rv)"

end
