(* ===== verification/Lifecycle_Props.thy ===== *)
theory Lifecycle_Props imports Lifecycle Net_Props Run_Props
begin

text \<open>
  What the life of a server leaves behind: the rooms are disposed of and the descriptors closed, except
  when a second \<open>listen\<close> fails.
\<close>

subsection \<open>The shutdown disposes of every room\<close>

definition dispose_managed :: "env \<Rightarrow> nat \<Rightarrow> string \<Rightarrow> wstep" where
  "dispose_managed E n i = reading (\<lambda>w. case map_of (w_managing w) i of None \<Rightarrow> skip | Some a \<Rightarrow> dispose E n a)"

text \<open>Rooms whose disposal is not interrupted by a hook.\<close>

definition disposable :: "env \<Rightarrow> nat \<Rightarrow> world \<Rightarrow> bool" where
  "disposable E n w \<longleftrightarrow> (\<forall>a r. w_rooms w a = Some r \<longrightarrow>
     \<not> rm_disposing r \<and> quiet_leave (e_hooks E (rm_type r)) \<and> length (rm_clients r) + 1 < n)"

definition dead_among :: "string set \<Rightarrow> world \<Rightarrow> world \<Rightarrow> bool" where
  "dead_among ids w w' \<longleftrightarrow> (\<forall>b. w_rooms w' b =
     (case w_rooms w b of None \<Rightarrow> None | Some r \<Rightarrow> if rm_id r \<in> ids then None else Some r))"

lemma managed_room:
  assumes "well E w"
  shows "w_rooms w a = Some r \<Longrightarrow> map_of (w_managing w) (rm_id r) = Some a"
    "map_of (w_managing w) i = Some a \<Longrightarrow> \<exists>r. w_rooms w a = Some r \<and> rm_id r = i"
  using assms unfolding sound_def server_ok_def rooms_ok_def managing_ok_def by auto

lemma dispose_keeps_closed: "keeps (\<lambda>w. w_ws_closed w = x) (dispose E n a)"
proof (rule room_ops_keep(4))
  have "calm_step E a w w' \<Longrightarrow> w_ws_closed w' = w_ws_closed w" "tail_step a w w' \<Longrightarrow> w_ws_closed w' = w_ws_closed w" for w w'
    by (auto elim: calm_stepE tail_stepE)
  then show "closed (room_step E a) (\<lambda>w. w_ws_closed w = x)" by (auto simp: closed_def room_step_def)
qed

lemma dispose_managed_runs:
  assumes E: "tame_env E" and n: "3 \<le> n" and s: "well E w" "disposable E n w"
  shows "\<exists>w'. dispose_managed E n i w = (Normal, w') \<and> well E w' \<and> dead_among {i} w w' \<and> w_ws_closed w' = w_ws_closed w"
proof (cases "map_of (w_managing w) i")
  case None
  then have "w_rooms w b = Some r \<Longrightarrow> rm_id r \<noteq> i" for b r using managed_room(1) [OF s(1)] by force
  then have "dead_among {i} w w" by (auto simp: dead_among_def split: option.split)
  with None s show ?thesis by (simp add: dispose_managed_def reading_def skip_def)
next
  case (Some a)
  then obtain r where r: "w_rooms w a = Some r" "rm_id r = i" using managed_room(2) [OF s(1)] by blast
  then have q: "\<not> rm_disposing r" "quiet_leave (e_hooks E (rm_type r))" "length (rm_clients r) + 1 < n"
    using s(2) by (auto simp: disposable_def)
  obtain m where m: "n = Suc (Suc (Suc m))" using sucs(1) [OF n] by blast
  obtain w' where w': "dispose E n a w = (Normal, w')" using dispose_quiet [OF r(1) q] by blast
  have wired: "wired a r w" by (rule sound_wired [OF s(1) r(1)]) simp
  have "sound E {} {} {a} w" using s(1) r(1) by (simp add: sound_def)
  then have "well E w'"
    using endsD(2) [OF dispose_safe [OF E, where a = a and X = "{}" and K = "{}" and m = m]] w' m by fastforce
  moreover have "dead_among {i} w w'"
    unfolding dead_among_def
  proof
    fix b
    show "w_rooms w' b = (case w_rooms w b of None \<Rightarrow> None | Some r \<Rightarrow> if rm_id r \<in> {i} then None else Some r)"
    proof (cases "b = a")
      case True
      with r show ?thesis using dispose_leads_gone [OF r(1) q(1) wired w'] by (simp add: gone_def)
    next
      case False
      have "w_rooms w b = Some q \<Longrightarrow> rm_id q \<noteq> i" for q
        using managed_room(1) [OF s(1), of b q] Some False by auto
      with dispose_others [OF r(1) wired w' False] show ?thesis by (simp split: option.split)
    qed
  qed
  moreover have "w_ws_closed w' = w_ws_closed w"
    using keepsD [OF dispose_keeps_closed [of "w_ws_closed w" E n a], of w] w' by simp
  ultimately show ?thesis using Some w' by (simp add: dispose_managed_def reading_def)
qed

lemma dead_amongD: "dead_among I w u \<Longrightarrow> w_rooms u b = Some r \<Longrightarrow> w_rooms w b = Some r"
  by (auto simp: dead_among_def split: option.splits if_splits)

lemma dead_among_trans:
  assumes "dead_among I w u" "dead_among J u v"
  shows "dead_among (I \<union> J) w v"
  unfolding dead_among_def
proof
  fix b
  show "w_rooms v b = (case w_rooms w b of None \<Rightarrow> None | Some r \<Rightarrow> if rm_id r \<in> I \<union> J then None else Some r)"
    using assms [unfolded dead_among_def, THEN spec, of b] by (simp split: option.splits if_splits)
qed

lemma disposable_dead: "disposable E n w \<Longrightarrow> dead_among I w u \<Longrightarrow> disposable E n u"
  unfolding disposable_def using dead_amongD by blast

lemma dispose_all_runs:
  assumes E: "tame_env E" and n: "3 \<le> n"
  shows "well E w \<Longrightarrow> disposable E n w \<Longrightarrow>
    \<exists>w'. seqs (dispose_managed E n) is w = (Normal, w') \<and> well E w' \<and> dead_among (set is) w w' \<and> w_ws_closed w' = w_ws_closed w"
proof (induction "is" arbitrary: w)
  case Nil
  then show ?case by (simp add: skip_def dead_among_def split: option.split)
next
  case (Cons i "is")
  obtain u where u: "dispose_managed E n i w = (Normal, u)" "well E u" "dead_among {i} w u" "w_ws_closed u = w_ws_closed w"
    using dispose_managed_runs [OF E n Cons.prems] by blast
  obtain v where v: "seqs (dispose_managed E n) is u = (Normal, v)" "well E v" "dead_among (set is) u v" "w_ws_closed v = w_ws_closed u"
    using Cons.IH [OF u(2) disposable_dead [OF Cons.prems(2) u(3)]] by blast
  show ?case using u v dead_among_trans [OF u(3) v(3)] by simp
qed


lemma club_disposable: "disposable club_env 3 club_open"
proof -
  have "map_option (\<lambda>r. (rm_disposing r, rm_clients r)) (w_rooms club_open 0) = Some (False, [])"
    unfolding club_open_def by code_simp
  then have r: "w_rooms club_open 0 = Some r \<Longrightarrow> \<not> rm_disposing r \<and> rm_clients r = []" for r by simp
  have "a = 0" if "w_rooms club_open a = Some q" for a q
    using managed_room(1) [OF run_well [OF club_tame club_run] that] by (simp add: club_rooms split: if_splits)
  moreover have "quiet_leave (e_hooks club_env t)" for t
    by (simp add: quiet_leave_def club_env_def chat_hooks_def chat_leave_def)
  ultimately show ?thesis using r unfolding disposable_def by fastforce
qed


subsection \<open>Descriptors\<close>

lemma free_context_opened:
  "opened (snd (run_state (free_context ctx) s)) = opened s - (case ctx of None \<Rightarrow> {#} | Some c \<Rightarrow> {#SslCtx c#})"
  by (simp add: free_context_def split: option.split)

lemma close_listener_opened:
  "opened (snd (run_state (close_listener fd) s)) = opened s - (if fd < 0 then {#} else {#Fd fd#})"
  by (simp add: close_listener_def split_beta)

text \<open>C35: A server returns what it took.  Whatever the system answers and whatever connections are accepted
  in between, when a server has been made, has listened and has been destroyed, the listening socket and
  the TLS context are released; open are, beside what was open before, the sockets handed to connection
  threads that have not ended.\<close>

theorem server_releases:
  assumes "new_server tls s w = (Inr v, s')" "server_listen port v = (Normal, v1)"
    and "server_accept loads v1 = ((handed, ended), v2)" "destroy_server E n disposed v2 = (Normal, v3)"
  shows "opened (sv_os v3) = opened s + (\<Sum>q \<leftarrow> handed. owned_resources q)"
proof -
  have new: "opened (sv_os v) = opened s + (case sv_tls_ctx v of None \<Rightarrow> {#} | Some c \<Rightarrow> {#SslCtx c#})"
      "\<not> sv_accepting v" "\<not> sv_shutting_down v"
    using assms(1) create_server_opened [of "fst (the tls)" "snd (the tls)" s]
    by (auto simp: new_server_def Let_def split: option.splits prod.splits sum.splits)
  have listen: "opened (sv_os v1) = opened (sv_os v) + {#Fd (sv_listen_fd v1)#}" "0 \<le> sv_listen_fd v1"
      "sv_tls_ctx v1 = sv_tls_ctx v" "\<not> sv_shutting_down v1"
    using assms(2) new(2,3) listen_opened [of port 128 "sv_os v"]
    by (auto simp: server_listen_def Let_def split: prod.splits if_splits)
  have accept: "opened (sv_os v2) = opened (sv_os v1) + (\<Sum>q \<leftarrow> handed. owned_resources q)"
      "sv_listen_fd v2 = sv_listen_fd v1" "sv_tls_ctx v2 = sv_tls_ctx v1" "\<not> sv_shutting_down v2"
    using assms(3) listen(4) loop_opened [of "sv_tls_ctx v1" "sv_listen_fd v1" loads "sv_os v1"]
    by (auto simp: server_accept_def split: prod.splits)
  have "opened (sv_os v3) = opened (sv_os v2) - {#Fd (sv_listen_fd v2)#} -
      (case sv_tls_ctx v2 of None \<Rightarrow> {#} | Some c \<Rightarrow> {#SslCtx c#})"
    using assms(4) accept(4) listen(2) accept(2)
    by (auto simp: destroy_server_def server_shutdown_def Let_def free_context_opened close_listener_opened
        split: prod.splits outcome.splits if_splits)
  then show ?thesis
    using new listen accept by (cases "sv_tls_ctx v") (simp_all add: union_commute)
qed

text \<open>A TLS server on a system whose first descriptor is 3: one connection is accepted.\<close>

definition demo_os :: os where
  "demo_os = \<lparr>os_answers = [9, 1, 1, 1, 3, 0, 0, 0, 0, 5, 0, 20, 1, 0], os_open = [], os_calls = []\<rparr>"

lemmas os_steps = acquire_def release_def close_fd_def sys_def Let_def

theorem server_releases_witness:
  "\<exists>v s' v1 v2 v3.
     new_server (Some (''cert.pem'', ''key.pem'')) demo_os empty_world = (Inr v, s') \<and>
     server_listen 4000 v = (Normal, v1) \<and>
     server_accept [False, True] v1 = (([TlsFd 5 20], True), v2) \<and>
     destroy_server club_env 3 None v2 = (Normal, v3) \<and> opened (sv_os v3) = {#Fd 5, Ssl 20#}"
proof -
  obtain v s' where v: "new_server (Some (''cert.pem'', ''key.pem'')) demo_os empty_world = (Inr v, s')"
      "sv_world v = empty_world" "sv_os v = \<lparr>os_answers = [3, 0, 0, 0, 0, 5, 0, 20, 1, 0], os_open = [SslCtx 9], os_calls = os_calls (sv_os v)\<rparr>"
      "sv_tls_ctx v = Some 9" "\<not> sv_accepting v" "\<not> sv_shutting_down v"
    by (simp add: new_server_def create_server_def demo_os_def os_steps)
  obtain v1 where v1: "server_listen 4000 v = (Normal, v1)" "sv_world v1 = empty_world" "sv_tls_ctx v1 = Some 9"
      "sv_os v1 = \<lparr>os_answers = [5, 0, 20, 1, 0], os_open = [Fd 3, SslCtx 9], os_calls = os_calls (sv_os v1)\<rparr>"
      "sv_listen_fd v1 = 3" "\<not> sv_shutting_down v1"
    using v by (cases "sv_os v") (simp add: server_listen_def listen_on_def os_steps)
  obtain v2 where v2: "server_accept [False, True] v1 = (([TlsFd 5 20], True), v2)" "sv_world v2 = empty_world"
      "\<not> sv_shutting_down v2"
    using v1 by (cases "sv_os v1") (simp add: server_accept_def accept_turn_def accept_connection_def new_tls_socket_def os_steps)
  have "shutdown_rooms club_env 3 empty_world = (Normal, empty_world)"
    by (simp add: shutdown_rooms_def reading_def empty_world_def skip_def)
  then have "\<exists>v3. destroy_server club_env 3 None v2 = (Normal, v3)"
    using v2(2,3) by (simp add: destroy_server_def server_shutdown_def Let_def)
  then obtain v3 where "destroy_server club_env 3 None v2 = (Normal, v3)" by blast
  with server_releases [OF v(1) v1(1) v2(1) this] v v1(1) v2(1) show ?thesis
    by (auto simp: demo_os_def)
qed

text \<open>A second \<open>listen\<close> that fails loses the listening socket: its descriptor is overwritten before
  the result is tested, so that the accept thread, which is running, calls \<open>accept\<close> on \<open>-1\<close> from then on,
  and not even the destructor closes the socket.\<close>

theorem failed_relisten_loses_socket:
  assumes "sv_accepting v" "run_state (listen_on port 128) (sv_os v) = (fd, s')" "fd < 0"
  shows "\<exists>e v'. server_listen port v = (Raised e, v') \<and> sv_accepting v' \<and> sv_listen_fd v' < 0 \<and>
    opened (sv_os v') = opened (sv_os v) \<and>
    (\<forall>E n v3. \<not> sv_shutting_down v \<longrightarrow> destroy_server E n None v' = (Normal, v3) \<longrightarrow>
       opened (sv_os v3) = opened (sv_os v) - (case sv_tls_ctx v of None \<Rightarrow> {#} | Some c \<Rightarrow> {#SslCtx c#}))"
proof -
  let ?v = "v\<lparr>sv_os := s', sv_listen_fd := fd\<rparr>"
  have o: "opened s' = opened (sv_os v)" using listen_opened [of port 128 "sv_os v"] assms(2,3) by simp
  have "opened (sv_os v3) = opened s' - (case sv_tls_ctx v of None \<Rightarrow> {#} | Some c \<Rightarrow> {#SslCtx c#})"
    if "\<not> sv_shutting_down v" "destroy_server E n None ?v = (Normal, v3)" for E n v3
    using that assms(3)
    by (auto simp: destroy_server_def server_shutdown_def Let_def free_context_opened close_listener_opened
        split: prod.splits outcome.splits if_splits)
  with assms o show ?thesis by (simp add: server_listen_def)
qed

theorem failed_relisten_loses_socket_witness:
  "\<exists>e v v'. opened (sv_os v) = {#Fd 3#} \<and> server_listen 80 v = (Raised e, v') \<and> sv_listen_fd v' < 0 \<and>
     opened (sv_os v') = {#Fd 3#}"
proof -
  let ?v = "\<lparr>sv_tls_ctx = None, sv_listen_fd = 3, sv_accepting = True, sv_shutting_down = False,
     sv_os = \<lparr>os_answers = [4, 0, 0, -1], os_open = [Fd 3], os_calls = []\<rparr>, sv_world = empty_world\<rparr>"
  obtain s' where "run_state (listen_on 80 128) (sv_os ?v) = (-1, s')" by (simp add: listen_on_def os_steps)
  from failed_relisten_loses_socket [OF _ this] obtain e v' where
    "server_listen 80 ?v = (Raised e, v')" "sv_listen_fd v' < 0" "opened (sv_os v') = opened (sv_os ?v)" by auto
  then show ?thesis by (intro exI [of _ e] exI [of _ ?v] exI [of _ v']) simp
qed

end
