(* ===== verification/Chat_Props.thy ===== *)
theory Chat_Props imports Chat_Room Server
begin

text \<open>
  The example room at work: its state always holds the whole conversation, in order, and who joins is
  sent all of it.
\<close>

text \<open>The state of a chat room in which \<open>ms\<close> has been said.\<close>

definition conversation :: "json list \<Rightarrow> json" where
  "conversation ms = jobj [(''messages'', JArray ms)]"

lemma conversation_access [simp]:
  "jindex ''messages'' (conversation ms) = Inr (JArray ms)"
  "jassign ''messages'' v (conversation ms) = Inr (jobj [(''messages'', v)])"
  by (simp_all add: conversation_def jobj_def jindex_def jassign_def)

lemma jpush_back_array [simp]: "jpush_back x (JArray ms) = Inr (JArray (ms @ [x]))"
  by (simp add: jpush_back_def)

lemma act_of_Inr [simp]: "act_of (Inr x) f = f x" "act_of (Inl e) f = ThrowExn e"
  by (simp_all add: act_of_def)

lemma client_send_frames:
  assumes "w_rooms w a = Some r"
  shows "\<exists>fs. client_send a sid key d w = (Normal, w\<lparr>w_frames := fs\<rparr>)"
proof (cases "map_of (w_connections w) sid")
  case None
  with assms have "client_send a sid key d w = (Normal, w\<lparr>w_frames := w_frames w\<rparr>)"
    by (simp add: client_send_def send_frame_to_client_def reading_def skip_def)
  then show ?thesis by blast
qed (use assms in \<open>auto simp: client_send_def send_frame_to_client_def reading_def effect_def\<close>)

lemma broadcast_frames:
  assumes "w_rooms w a = Some r"
  shows "\<exists>fs. broadcast a key d w = (Normal, w\<lparr>w_frames := fs\<rparr>)"
proof -
  have "\<exists>fs. seqs (\<lambda>c. client_send a (sc_session_id c) key d) cs w = (Normal, w\<lparr>w_frames := fs\<rparr>)"
    if "w_rooms w a = Some r" for w :: world and cs
    using that
  proof (induction cs arbitrary: w)
    case Nil
    have "w = w\<lparr>w_frames := w_frames w\<rparr>" by simp
    then show ?case unfolding seqs.simps skip_def by blast
  next
    case (Cons c cs)
    obtain fs where fs: "client_send a (sc_session_id c) key d w = (Normal, w\<lparr>w_frames := fs\<rparr>)"
      using client_send_frames [OF Cons.prems] by blast
    from Cons.IH [of "w\<lparr>w_frames := fs\<rparr>"] Cons.prems fs show ?case by auto
  qed
  with assms show ?thesis by (simp add: broadcast_def)
qed

text \<open>One message.\<close>

lemma chat_message_step:
  assumes r: "w_rooms w a = Some r" and h: "e_hooks E (rm_type r) = chat_hooks J rec"
    and st: "rm_state r = conversation ms" and c: "find_session (sc_session_id c) (rm_clients r) = Some c"
  shows "\<exists>w'. message_request E n a c (message_payload c (JString ''CHAT'') (JString text)) w = (Normal, w') \<and>
    w_rooms w' a = Some (r\<lparr>rm_state := conversation (ms @ [chat_line text (sc_id c)])\<rparr>)"
proof -
  let ?w = "w\<lparr>w_log := w_log w @ [(a, OnMessage)]\<rparr>"
  let ?r = "r\<lparr>rm_state := conversation (ms @ [chat_line text (sc_id c)])\<rparr>"
  let ?u = "?w\<lparr>w_rooms := (w_rooms ?w)(a \<mapsto> ?r)\<rparr>"
  have "message_request E n a c (message_payload c (JString ''CHAT'') (JString text)) w =
      run_prog E n a (add_message text (sc_id c)) ?w"
    using r c h by (simp add: message_request_def message_payload_def json_access log_hook_def chat_hooks_def chat_message_def)
  also have "\<dots> = seq (broadcast a ''MESSAGE'' (chat_line text (sc_id c))) skip ?u"
    using r st by (simp add: add_message_def conversation_def [symmetric])
  finally have *: "message_request E n a c (message_payload c (JString ''CHAT'') (JString text)) w =
      seq (broadcast a ''MESSAGE'' (chat_line text (sc_id c))) skip ?u" .
  have "w_rooms ?u a = Some ?r" by simp
  from broadcast_frames [OF this] obtain fs where
    "broadcast a ''MESSAGE'' (chat_line text (sc_id c)) ?u = (Normal, ?u\<lparr>w_frames := fs\<rparr>)" by blast
  with * show ?thesis by simp
qed

lemma chat_messages:
  assumes "w_rooms w a = Some r" "e_hooks E (rm_type r) = chat_hooks J rec" "rm_state r = conversation ms"
    and "\<forall>(c, text) \<in> set said. find_session (sc_session_id c) (rm_clients r) = Some c"
  shows "\<exists>w'. seqs (\<lambda>(c, text). message_request E n a c (message_payload c (JString ''CHAT'') (JString text))) said w = (Normal, w') \<and>
    w_rooms w' a = Some (r\<lparr>rm_state := conversation (ms @ map (\<lambda>(c, text). chat_line text (sc_id c)) said)\<rparr>)"
  using assms
proof (induction said arbitrary: w r ms)
  case Nil
  then have "r = r\<lparr>rm_state := conversation ms\<rparr>" by simp
  with Nil show ?case by (simp add: skip_def)
next
  case (Cons x said)
  obtain c t where x: "x = (c, t)" by (cases x)
  let ?ms = "ms @ [chat_line t (sc_id c)]" and ?r = "r\<lparr>rm_state := conversation (ms @ [chat_line t (sc_id c)])\<rparr>"
  obtain u where u: "message_request E n a c (message_payload c (JString ''CHAT'') (JString t)) w = (Normal, u)"
      "w_rooms u a = Some ?r"
    using chat_message_step [OF Cons.prems(1-3), of c n t] Cons.prems(4) x by auto
  from Cons.IH [OF u(2), of ?ms] Cons.prems(2,4) u(1) x show ?case by simp
qed

text \<open>A chat room remembers.  After its members have said something, one message at a time, its state is
  the conversation that was there and what they said, in order, each line with the identifier the room
  has for its sender; and what a newcomer is sent when it joins is this whole conversation.\<close>

theorem chat_room_remembers:
  assumes "w_rooms w a = Some r" "e_hooks E (rm_type r) = chat_hooks J rec" "rm_state r = conversation ms"
    and "\<forall>(c, text) \<in> set said. find_session (sc_session_id c) (rm_clients r) = Some c"
  shows "let all = ms @ map (\<lambda>(c, text). chat_line text (sc_id c)) said in
    \<exists>w'. seqs (\<lambda>(c, text). message_request E n a c (message_payload c (JString ''CHAT'') (JString text))) said w = (Normal, w') \<and>
      w_rooms w' a = Some (r\<lparr>rm_state := conversation all\<rparr>) \<and>
      run_prog E n a (hk_join (e_hooks E (rm_type r)) newcomer opts) w' =
        send_frame_to_client (sc_session_id newcomer) (''message-'' @ rm_id r)
          (jobj [(''key'', JString ''MESSAGES''), (''data'', JArray all)]) w'"
proof -
  let ?all = "ms @ map (\<lambda>(c, text). chat_line text (sc_id c)) said"
  obtain w' where w': "seqs (\<lambda>(c, text). message_request E n a c (message_payload c (JString ''CHAT'') (JString text))) said w = (Normal, w')"
      "w_rooms w' a = Some (r\<lparr>rm_state := conversation ?all\<rparr>)"
    using chat_messages [OF assms] by blast
  then have "run_prog E n a (hk_join (e_hooks E (rm_type r)) newcomer opts) w' =
      send_frame_to_client (sc_session_id newcomer) (''message-'' @ rm_id r)
        (jobj [(''key'', JString ''MESSAGES''), (''data'', JArray ?all)]) w'"
    using assms(2) by (simp add: chat_hooks_def catch_up_def client_send_def)
  with w' show ?thesis by (auto simp: Let_def)
qed

text \<open>A room with two members.\<close>

definition some_json :: json_lib where
  "some_json = \<lparr>jl_parse = (\<lambda>s. None), jl_dump = (\<lambda>v. None), jl_what = (\<lambda>e. ''json''), jl_float_int = (\<lambda>f. f)\<rparr>"


definition ann :: simple_client where
  "ann = \<lparr>sc_id = ''ann'', sc_session_id = ''s1'', sc_origin = [], sc_ip = []\<rparr>"

definition bob :: simple_client where
  "bob = \<lparr>sc_id = ''bob'', sc_session_id = ''s2'', sc_origin = [], sc_ip = []\<rparr>"

definition parlour :: room where
  "parlour = (new_room ''r'' ''Chat'' ann (JObject []) JNull (JObject []))
     \<lparr>rm_state := conversation [chat_line ''Welcome to the chat!'' ''Botsy''], rm_clients := [ann, bob]\<rparr>"

definition parlour_env :: "json_lib \<Rightarrow> env" where
  "parlour_env J = \<lparr>e_json = J, e_rid = (\<lambda>n. replicate n (CHR ''r'')), e_hooks = (\<lambda>_. chat_hooks J (\<lambda>_. False)), e_idgen = None\<rparr>"

theorem chat_room_remembers_witness:
  "\<exists>w'. seqs (\<lambda>(c, text). message_request (parlour_env some_json) 1 0 c (message_payload c (JString ''CHAT'') (JString text)))
      [(ann, ''Hello Bob''), (bob, ''Hello Ann'')] (empty_world\<lparr>w_rooms := (\<lambda>_. None)(0 \<mapsto> parlour)\<rparr>) = (Normal, w') \<and>
    map_option rm_state (w_rooms w' 0) = Some (conversation [chat_line ''Welcome to the chat!'' ''Botsy'',
      chat_line ''Hello Bob'' ''ann'', chat_line ''Hello Ann'' ''bob''])"
proof -
  let ?w = "empty_world\<lparr>w_rooms := (\<lambda>_. None)(0 \<mapsto> parlour)\<rparr>" and ?said = "[(ann, ''Hello Bob''), (bob, ''Hello Ann'')]"
  have "w_rooms ?w 0 = Some parlour" by simp
  moreover have "e_hooks (parlour_env some_json) (rm_type parlour) = chat_hooks some_json (\<lambda>_. False)"
    by (simp add: parlour_env_def)
  moreover have "rm_state parlour = conversation [chat_line ''Welcome to the chat!'' ''Botsy'']"
    by (simp add: parlour_def)
  moreover have "\<forall>(c, text) \<in> set ?said. find_session (sc_session_id c) (rm_clients parlour) = Some c"
    by (simp add: parlour_def find_session_def ann_def bob_def)
  ultimately obtain w' where w': "seqs (\<lambda>(c, text). message_request (parlour_env some_json) 1 0 c
        (message_payload c (JString ''CHAT'') (JString text))) ?said ?w = (Normal, w')"
      "w_rooms w' 0 = Some (parlour\<lparr>rm_state := conversation ([chat_line ''Welcome to the chat!'' ''Botsy''] @
        map (\<lambda>(c, text). chat_line text (sc_id c)) ?said)\<rparr>)"
    unfolding Let_def using chat_room_remembers [where n = 1] by meson
  then show ?thesis by (intro exI [of _ w']) (simp add: ann_def bob_def)
qed

end
