(* ===== verification/Chat_End.thy ===== *)
theory Chat_End imports End_To_End Chat_Props
begin

text \<open>
  What is said in a chat room, from the client library of the speaker through the server to the client
  libraries of all members.
\<close>

definition said_frame :: "string \<Rightarrow> string \<Rightarrow> json \<Rightarrow> string \<times> string \<times> json" where
  "said_frame i sid line = (sid, ''message-'' @ i, jobj [(''key'', JString ''MESSAGE''), (''data'', line)])"

lemma broadcast_connected:
  assumes "w_rooms w a = Some r" "\<forall>x \<in> set (rm_clients r). map_of (w_connections w) (sc_session_id x) \<noteq> None"
  shows "broadcast a ''MESSAGE'' line w =
    (Normal, w\<lparr>w_frames := w_frames w @ map (\<lambda>x. said_frame (rm_id r) (sc_session_id x) line) (rm_clients r)\<rparr>)"
proof -
  have "seqs (\<lambda>c. client_send a (sc_session_id c) ''MESSAGE'' line) cs w =
      (Normal, w\<lparr>w_frames := w_frames w @ map (\<lambda>x. said_frame (rm_id r) (sc_session_id x) line) cs\<rparr>)"
    if "w_rooms w a = Some r" "\<forall>x \<in> set cs. map_of (w_connections w) (sc_session_id x) \<noteq> None" for w :: world and cs
    using that
  proof (induction cs arbitrary: w)
    case (Cons c cs)
    then obtain conn where "map_of (w_connections w) (sc_session_id c) = Some conn" by auto
    then have "client_send a (sc_session_id c) ''MESSAGE'' line w =
        (Normal, w\<lparr>w_frames := w_frames w @ [said_frame (rm_id r) (sc_session_id c) line]\<rparr>)"
      using Cons.prems(1) by (simp add: client_send_def send_frame_to_client_def reading_def effect_def said_frame_def)
    with Cons.IH [of "w\<lparr>w_frames := w_frames w @ [said_frame (rm_id r) (sc_session_id c) line]\<rparr>"] Cons.prems
    show ?case by simp
  qed (simp add: skip_def)
  with assms show ?thesis by (simp add: broadcast_def)
qed

definition chat_request :: "string \<Rightarrow> string \<Rightarrow> json" where
  "chat_request i text = jobj [(''room'', JString i), (''key'', JString ''CHAT''), (''data'', JString text)]"

lemma chat_request_fields:
  "norm (chat_request i text) = chat_request i text" "is_object (chat_request i text)"
  "jvalue get_string ''room'' [] (chat_request i text) = Inr i" "jcontains ''key'' (chat_request i text)"
  "jat ''key'' (chat_request i text) = Inr (JString ''CHAT'')"
  "jvalue get_json ''data'' JNull (chat_request i text) = Inr (JString text)"
  by (simp_all add: chat_request_def json_access)

lemma client_says:
  assumes "cl_connected c"
  shows "room_send o1 ''CHAT'' (JString text) c =
    (Normal, c\<lparr>cl_sent := cl_sent c @ [(sendMessage, chat_request (cr_id (cl_objects c o1)) text)]\<rparr>)"
  using assms by (simp add: room_send_def send_room_message_def send_frame_def reading_def effect_def chat_request_def)

lemma server_says:
  assumes r: "w_rooms w a = Some r" "e_hooks E (rm_type r) = chat_hooks J rec" "rm_state r = conversation ms"
    and m: "find_session (sc_session_id client) (rm_clients r) = Some m"
    and conn: "\<forall>x \<in> set (rm_clients r). map_of (w_connections w) (sc_session_id x) \<noteq> None"
    and l: "map ls_handler (ps_listeners (w_pubsub w) (rm_id r)) = [GameMessage a]" and i: "rm_id r \<noteq> []"
  shows "handle_client_message E n (Suc d) client sendMessage (chat_request (rm_id r) text) w =
    (Normal, w\<lparr>w_log := w_log w @ [(a, OnMessage)],
       w_rooms := (w_rooms w)(a \<mapsto> r\<lparr>rm_state := conversation (ms @ [chat_line text (sc_id m)])\<rparr>),
       w_frames := w_frames w @ map (\<lambda>x. said_frame (rm_id r) (sc_session_id x) (chat_line text (sc_id m))) (rm_clients r)\<rparr>)"
    (is "_ = (Normal, ?w)")
proof -
  let ?p = "message_payload client (JString ''CHAT'') (JString text)"
  let ?u = "w\<lparr>w_log := w_log w @ [(a, OnMessage)]\<rparr>"
  let ?v = "?u\<lparr>w_rooms := (w_rooms ?u)(a \<mapsto> r\<lparr>rm_state := conversation (ms @ [chat_line text (sc_id m)])\<rparr>)\<rparr>"
  have "message_request E n a client ?p w = run_prog E n a (add_message text (sc_id m)) ?u"
    using r m by (simp add: message_request_def message_payload_def json_access log_hook_def chat_hooks_def chat_message_def)
  also have "\<dots> = seq (broadcast a ''MESSAGE'' (chat_line text (sc_id m))) skip ?v"
    using r by (simp add: add_message_def conversation_def [symmetric])
  also have "\<dots> = (Normal, ?w)"
    using broadcast_connected [of ?v a "r\<lparr>rm_state := conversation (ms @ [chat_line text (sc_id m)])\<rparr>" "chat_line text (sc_id m)"] conn
    by simp
  finally have message: "message_request E n a client ?p w = (Normal, ?w)" .
  have "game_message E n pub a ?p = message_request E n a client ?p" for pub
    by (simp add: game_message_def message_payload_def json_access joinRoom_def sendMessage_def REQUEST_INFO_def EXTERNAL_MESSAGE_def)
  moreover obtain x where "ps_listeners (w_pubsub w) (rm_id r) = [x]" "ls_handler x = GameMessage a"
    using l by (cases "ps_listeners (w_pubsub w) (rm_id r)") auto
  ultimately have "publish E n (Suc d) (rm_id r) ?p w = (Normal, ?w)"
    using message by (simp add: publish_def ps_publish_seqs)
  then show ?thesis
    using i by (simp add: handle_client_message_def handle_send_def chat_request_fields joinRoom_def createNewRoom_def sendMessage_def)
qed

lemma client_hears:
  assumes "map_of (cl_handlers q) (''message-'' @ i) = Some (OnRoomMessage o2)"
  shows "to_client (said_frame i sid (chat_line text sender)) q =
    (Normal, q\<lparr>cl_log := cl_log q @ [RoomEvent o2 (Incoming ''MESSAGE'' (chat_line text sender))]\<rparr>)"
proof -
  have "norm (jobj [(''key'', JString ''MESSAGE''), (''data'', chat_line text sender)]) =
      jobj [(''key'', JString ''MESSAGE''), (''data'', chat_line text sender)]"
    by (simp add: chat_line_def jobj_def)
  then show ?thesis
    using assms not_id_set(2) [of i]
    by (simp add: to_client_def said_frame_def dispatch_event_def room_message_def json_access note_room_def note_event_def
        reading_def effect_def joinedRoom_def removedFromRoom_def)
qed

text \<open>C13: What is said reaches everybody, and is remembered.  When a client says something in a chat room it is
  a member of, its library sends one frame; the server adds the line to the conversation, with the
  identifier of the member the session belongs to, and sends it once to each member, in their order; and the
  library of every client that has joined the room reports the line to the room object of that client.\<close>

theorem chat_line_reaches_members:
  assumes "cl_connected c" "cr_id (cl_objects c o1) = rm_id r" "rm_id r \<noteq> []"
    and "w_rooms w a = Some r" "e_hooks E (rm_type r) = chat_hooks J rec" "rm_state r = conversation ms"
    and "map ls_handler (ps_listeners (w_pubsub w) (rm_id r)) = [GameMessage a]"
    and "find_session (sc_session_id client) (rm_clients r) = Some m"
    and "\<forall>x \<in> set (rm_clients r). map_of (w_connections w) (sc_session_id x) \<noteq> None"
  shows "\<exists>c1 f w1 gs.
    room_send o1 ''CHAT'' (JString text) c = (Normal, c1) \<and> cl_sent c1 = cl_sent c @ [f] \<and>
    to_server E n (Suc d) client f w = (Normal, w1) \<and>
    w_rooms w1 a = Some (r\<lparr>rm_state := conversation (ms @ [chat_line text (sc_id m)])\<rparr>) \<and>
    w_frames w1 = w_frames w @ gs \<and> map fst gs = map sc_session_id (rm_clients r) \<and>
    (\<forall>g \<in> set gs. \<forall>q o2. map_of (cl_handlers q) (''message-'' @ rm_id r) = Some (OnRoomMessage o2) \<longrightarrow>
      to_client g q = (Normal, q\<lparr>cl_log := cl_log q @ [RoomEvent o2 (Incoming ''MESSAGE'' (chat_line text (sc_id m)))]\<rparr>))"
proof -
  let ?line = "chat_line text (sc_id m)"
  let ?gs = "map (\<lambda>x. said_frame (rm_id r) (sc_session_id x) ?line) (rm_clients r)"
  let ?w = "w\<lparr>w_log := w_log w @ [(a, OnMessage)], w_rooms := (w_rooms w)(a \<mapsto> r\<lparr>rm_state := conversation (ms @ [?line])\<rparr>),
      w_frames := w_frames w @ ?gs\<rparr>"
  let ?f = "(sendMessage, chat_request (rm_id r) text)"
  have "to_server E n (Suc d) client ?f w = (Normal, ?w)"
    using server_says [OF assms(4-6,8,9,7,3)] by (simp add: to_server_def chat_request_fields)
  moreover have "room_send o1 ''CHAT'' (JString text) c = (Normal, c\<lparr>cl_sent := cl_sent c @ [?f]\<rparr>)"
    using client_says [OF assms(1)] assms(2) by simp
  moreover have "map fst ?gs = map sc_session_id (rm_clients r)" by (simp add: said_frame_def)
  moreover have "\<forall>g \<in> set ?gs. \<forall>q o2. map_of (cl_handlers q) (''message-'' @ rm_id r) = Some (OnRoomMessage o2) \<longrightarrow>
      to_client g q = (Normal, q\<lparr>cl_log := cl_log q @ [RoomEvent o2 (Incoming ''MESSAGE'' ?line)]\<rparr>)"
    using client_hears by auto
  ultimately show ?thesis
    by (intro exI [of _ "c\<lparr>cl_sent := cl_sent c @ [?f]\<rparr>"] exI [of _ ?f] exI [of _ ?w] exI [of _ ?gs]) simp
qed

text \<open>Bob speaks in the parlour, where Ann is too.\<close>

definition parlour_world :: world where
  "parlour_world = empty_world\<lparr>w_rooms := (\<lambda>_. None)(0 \<mapsto> parlour), w_next_room := 1,
     w_pubsub := snd (ps_on ''l'' ''r'' (GameMessage 0) []), w_connections := [(''s1'', ann), (''s2'', bob)]\<rparr>"

definition bob_in_parlour :: client where
  "bob_in_parlour = bobs_client\<lparr>cl_objects := (\<lambda>_. (new_client_room JNull ''r'')\<lparr>cr_joined := True\<rparr>), cl_rooms := [0],
     cl_handlers := [(''message-r'', OnRoomMessage 0)]\<rparr>"

theorem chat_line_reaches_members_witness:
  "\<exists>c1 f w1 gs. room_send 0 ''CHAT'' (JString ''Hi'') bob_in_parlour = (Normal, c1) \<and> cl_sent c1 = [f] \<and>
    to_server (parlour_env some_json) 1 1 bob f parlour_world = (Normal, w1) \<and> w_frames w1 = gs \<and> map fst gs = [''s1'', ''s2''] \<and>
    list_all (\<lambda>g. to_client g bob_in_parlour =
      (Normal, bob_in_parlour\<lparr>cl_log := [RoomEvent 0 (Incoming ''MESSAGE'' (chat_line ''Hi'' ''bob''))]\<rparr>)) gs"
proof -
  have c: "cl_connected bob_in_parlour" "cr_id (cl_objects bob_in_parlour 0) = rm_id parlour" "rm_id parlour \<noteq> []"
    by (simp_all add: bob_in_parlour_def bobs_client_def parlour_def new_client_room_def new_room_def)
  have w: "w_rooms parlour_world 0 = Some parlour" "e_hooks (parlour_env some_json) (rm_type parlour) = chat_hooks some_json (\<lambda>_. False)"
    "rm_state parlour = conversation [chat_line ''Welcome to the chat!'' ''Botsy'']"
    "map ls_handler (ps_listeners (w_pubsub parlour_world) (rm_id parlour)) = [GameMessage 0]"
    "find_session (sc_session_id bob) (rm_clients parlour) = Some bob"
    "\<forall>x \<in> set (rm_clients parlour). map_of (w_connections parlour_world) (sc_session_id x) \<noteq> None"
    by (simp_all add: parlour_world_def parlour_env_def parlour_def new_room_def ps_on_def ps_listeners_def find_session_def ann_def bob_def)
  have h: "map_of (cl_handlers bob_in_parlour) (''message-'' @ rm_id parlour) = Some (OnRoomMessage 0)"
    "cl_log bob_in_parlour = []" "cl_sent bob_in_parlour = []" "w_frames parlour_world = []" "sc_id bob = ''bob''"
    "map sc_session_id (rm_clients parlour) = [''s1'', ''s2'']"
    by (simp_all add: bob_in_parlour_def bobs_client_def parlour_def new_room_def parlour_world_def empty_world_def ann_def bob_def)
  from chat_line_reaches_members [OF c w, of "''Hi''" 1 0] show ?thesis using h by (auto 4 4 simp: list_all_iff)
qed

end
