(* ===== verification/Examples.thy ===== *)
theory Examples imports Lifecycle Client Chat_Room
begin

text \<open>
  The two example programs (examples/client/main.cpp, examples/server/main.cpp) over the models of the
  library.  The terminal is the text written so far; what is typed and what the client's thread reports
  arrive as one list, in the order of their times.
\<close>

subsection \<open>The chat client\<close>

text \<open>\<open>stoi\<close> answers with nothing when it throws, which ends the program.\<close>

definition main_arguments :: "(string \<Rightarrow> int option) \<Rightarrow> string list \<Rightarrow> (string \<times> int \<times> string) option" where
  "main_arguments stoi args =
     (let host = (if 0 < length args then args ! 0 else ''localhost'');
          existing_room_id = (if 2 < length args then args ! 2 else [])
      in case (if 1 < length args then stoi (args ! 1) else Some 4000) of
           None \<Rightarrow> None
         | Some port \<Rightarrow> Some (host, port, existing_room_id))"

record chat_main =
  cm_client :: client
  cm_room :: "nat option"
  cm_out :: string
  cm_err :: string

type_synonym mstep = "chat_main jstep"

definition newline :: string where "newline = [CHR 0x0A]"

definition out :: "string \<Rightarrow> mstep" where
  "out s = effect (\<lambda>m. m\<lparr>cm_out := cm_out m @ s\<rparr>)"

definition err :: "string \<Rightarrow> mstep" where
  "err s = effect (\<lambda>m. m\<lparr>cm_err := cm_err m @ s\<rparr>)"

definition on_client :: "cstep \<Rightarrow> mstep" where
  "on_client f m = (case f (cm_client m) of (r, c) \<Rightarrow> (r, m\<lparr>cm_client := c\<rparr>))"

text \<open>\<open>for (auto \&message : data)\<close>: the elements of an array, the values of an object, or a single value.\<close>

fun items :: "json \<Rightarrow> json list" where
  "items (JArray xs) = xs"
| "items (JObject m) = map snd m"
| "items JNull = []"
| "items v = [v]"

definition show_message :: "json \<Rightarrow> mstep" where
  "show_message message =
     from_res (jvalue get_string ''senderId'' ''?'' message) (\<lambda>sender.
       seq (out (sender @ '': ''))
           (from_res (jvalue get_string ''message'' [] message) (\<lambda>text. out (text @ newline))))"

definition show_incoming :: "string \<Rightarrow> json \<Rightarrow> mstep" where
  "show_incoming key data =
     (if key = ''MESSAGES'' then seqs show_message (items data)
      else if key = ''MESSAGE'' then show_message data else skip)"

definition report :: "string \<Rightarrow> json_lib \<Rightarrow> json \<Rightarrow> mstep" where
  "report prefix_text J e = seq (err prefix_text) (from_res (dump J e) (\<lambda>t. err (t @ newline)))"

text \<open>\<open>on_connect\<close>: the room that is made is the next object of the client.\<close>

definition enter :: "(nat \<Rightarrow> string) \<Rightarrow> string \<Rightarrow> mstep" where
  "enter rid existing_room_id = reading (\<lambda>m.
     seq (out (''[connected] client id: '' @ cl_id (cm_client m) @ newline))
    (seq (on_client (if existing_room_id = [] then client_create_room rid ''Chat'' empty_object (\<lambda>_. skip)
                     else join_room existing_room_id empty_object (\<lambda>_. skip)))
         (effect (\<lambda>m'. m'\<lparr>cm_room := Some (cl_next_object (cm_client m))\<rparr>))))"

fun on_event :: "json_lib \<Rightarrow> (nat \<Rightarrow> string) \<Rightarrow> string \<Rightarrow> client_event \<Rightarrow> mstep" where
  "on_event J rid room (ConnectError e) = report ''[connect error] '' J e"
| "on_event J rid room (Disconnected reason) = err (''[disconnected] '' @ reason @ newline)"
| "on_event J rid room (Reconnected attempt) = err (''[reconnected after '' @ int_text attempt @ '' attempt(s)]'' @ newline)"
| "on_event J rid room Connected = enter rid room"
| "on_event J rid room (RoomEvent r (Create room_id)) = out (''[created room] '' @ room_id @ newline)"
| "on_event J rid room (RoomEvent r (JoinError e)) = report ''[join error] '' J e"
| "on_event J rid room (RoomEvent r Join) = out (''[joined chat room]'' @ newline)"
| "on_event J rid room (RoomEvent r (Incoming key data)) = show_incoming key data"
| "on_event J rid room ev = skip"

definition say :: "string \<Rightarrow> mstep" where
  "say line = reading (\<lambda>m. case cm_room m of
       Some r \<Rightarrow> if cr_joined (cl_objects (cm_client m) r) then on_client (room_send r ''CHAT'' (JString line))
                else err (''[not joined yet]'' @ newline)
     | None \<Rightarrow> err (''[not joined yet]'' @ newline))"

datatype input = Typed string | Reported client_event

fun input_loop :: "json_lib \<Rightarrow> (nat \<Rightarrow> string) \<Rightarrow> string \<Rightarrow> input list \<Rightarrow> mstep" where
  "input_loop J rid room [] = skip"
| "input_loop J rid room (Typed line # later) =
     (if line = ''quit'' then skip else seq (say line) (input_loop J rid room later))"
| "input_loop J rid room (Reported ev # later) = seq (on_event J rid room ev) (input_loop J rid room later)"

definition client_main :: "json_lib \<Rightarrow> (nat \<Rightarrow> string) \<Rightarrow> string \<Rightarrow> input list \<Rightarrow> mstep" where
  "client_main J rid room inputs =
     seq (out (''Type a message and press enter to chat, or 'quit' to exit.'' @ newline))
    (seq (input_loop J rid room inputs) (on_client disconnect))"

subsection \<open>The chat server\<close>

definition example_admins :: "(string \<times> string) list" where
  "example_admins = [(''blueboat'', ''pass'')]"

text \<open>Up to \<open>run_forever\<close>, which returns after a signal.\<close>

definition server_main :: "os \<Rightarrow> (json outcome \<times> server) option" where
  "server_main s =
     (case new_server None s empty_world of
        (Inl e, _) \<Rightarrow> None
      | (Inr v, _) \<Rightarrow>
          Some (server_listen 4000 (v\<lparr>sv_world := snd (register_room ''Chat'' (JObject []) (sv_world v))\<rparr>)))"

definition handle_signal :: "env \<Rightarrow> nat \<Rightarrow> server option \<Rightarrow> json outcome \<times> server option" where
  "handle_signal E n g_server =
     (case g_server of
        None \<Rightarrow> (Normal, None)
      | Some v \<Rightarrow> (case server_shutdown E n None v of (r, v') \<Rightarrow> (r, Some v')))"

end
